(* ===== verification/StdMap.thy ===== *)
theory StdMap
  imports Prelude
begin

text \<open>
  The ordered containers of the C++ standard library as the sources use them.
  A \<^verbatim>\<open>std::map\<close> is an association list in strictly ascending key order, which is the order
  its iterators visit; \<^verbatim>\<open>std::multimap\<close> is one in ascending order in which an insertion goes
  behind the entries with an equal key; \<^verbatim>\<open>std::set\<close> is a strictly ascending list. A lookup
  is \<^const>\<open>map_of\<close>. The laws a client relies on are the locale \<open>ordered_map\<close>, proved here
  for the association lists.
\<close>

type_synonym ('k, 'v) stdmap = "('k \<times> 'v) list"

section \<open>std::map\<close>

text \<open>\<^verbatim>\<open>m[k] = v\<close>\<close>

fun map_set :: "'k::linorder \<Rightarrow> 'v \<Rightarrow> ('k, 'v) stdmap \<Rightarrow> ('k, 'v) stdmap" where
  "map_set k v [] = [(k, v)]"
| "map_set k v ((a, b) # m) =
     (if k < a then (k, v) # (a, b) # m
      else if k = a then (k, v) # m
      else (a, b) # map_set k v m)"

text \<open>\<^verbatim>\<open>m.insert(make_pair(k, v))\<close>: an existing entry stays.\<close>

definition map_insert :: "'k::linorder \<Rightarrow> 'v \<Rightarrow> ('k, 'v) stdmap \<Rightarrow> ('k, 'v) stdmap" where
  "map_insert k v m = (case map_of m k of Some _ \<Rightarrow> m | None \<Rightarrow> map_set k v m)"

text \<open>\<^verbatim>\<open>m.erase(k)\<close>\<close>

definition map_erase :: "'k \<Rightarrow> ('k, 'v) stdmap \<Rightarrow> ('k, 'v) stdmap" where
  "map_erase k m = filter (\<lambda>p. fst p \<noteq> k) m"

text \<open>\<^verbatim>\<open>m[k]\<close> read in a context that default-constructs a missing entry.\<close>

definition map_get :: "'v \<Rightarrow> ('k, 'v) stdmap \<Rightarrow> 'k \<Rightarrow> 'v" where
  "map_get d m k = (case map_of m k of Some v \<Rightarrow> v | None \<Rightarrow> d)"

definition ordered_keys :: "('k::linorder, 'v) stdmap \<Rightarrow> bool" where
  "ordered_keys m \<longleftrightarrow> sorted_wrt (<) (map fst m)"

lemma map_of_map_set [simp, map_simps]: "map_of (map_set k v m) = (map_of m)(k \<mapsto> v)"
  by (induction k v m rule: map_set.induct) auto

lemma map_of_map_erase [simp, map_simps]: "map_of (map_erase k m) = (map_of m)(k := None)"
  by (induction m) (auto simp: map_erase_def)

lemma map_of_map_insert [map_simps]:
  "map_of (map_insert k v m) = (case map_of m k of None \<Rightarrow> (map_of m)(k \<mapsto> v) | Some _ \<Rightarrow> map_of m)"
  by (auto simp: map_insert_def split: option.splits)

lemma keys_map_set [simp]: "fst ` set (map_set k v m) = insert k (fst ` set m)"
  by (induction k v m rule: map_set.induct) auto

lemma ordered_keys_Nil [simp]: "ordered_keys []"
  by (simp add: ordered_keys_def)

lemma ordered_keys_Cons [simp]:
  "ordered_keys (p # m) \<longleftrightarrow> (\<forall>q\<in>set m. fst p < fst q) \<and> ordered_keys m"
  by (auto simp: ordered_keys_def)

lemma set_map_set: "ordered_keys m \<Longrightarrow> set (map_set k v m) = insert (k, v) {p \<in> set m. fst p \<noteq> k}"
  by (induction k v m rule: map_set.induct) auto

lemma ordered_keys_map_set [simp, intro]: "ordered_keys m \<Longrightarrow> ordered_keys (map_set k v m)"
  by (induction k v m rule: map_set.induct) (auto simp: set_map_set)

lemma ordered_keys_filter [simp, intro]: "ordered_keys m \<Longrightarrow> ordered_keys (filter P m)"
  by (induction m) auto

lemma ordered_keys_map_erase [simp, intro]: "ordered_keys m \<Longrightarrow> ordered_keys (map_erase k m)"
  by (simp add: map_erase_def)

lemma ordered_keys_map_insert [simp, intro]: "ordered_keys m \<Longrightarrow> ordered_keys (map_insert k v m)"
  by (auto simp: map_insert_def split: option.splits)

lemma ordered_keys_distinct: "ordered_keys m \<Longrightarrow> distinct (map fst m)"
  by (induction m) auto

lemma map_of_ordered: "ordered_keys m \<Longrightarrow> map_of m k = Some v \<longleftrightarrow> (k, v) \<in> set m"
  by (simp add: ordered_keys_distinct)

lemma length_map_set:
  "ordered_keys m \<Longrightarrow> length (map_set k v m) = (if map_of m k = None then Suc (length m) else length m)"
proof (induction k v m rule: map_set.induct)
  case (2 k v a b m)
  have "k < a \<Longrightarrow> map_of m k = None"
    using "2.prems" by (auto simp: map_of_eq_None_iff)
  with 2 show ?case by auto
qed auto

lemma length_map_erase_le: "length (map_erase k m) \<le> length m"
  by (simp add: map_erase_def)

lemma map_erase_absent: "map_of m k = None \<Longrightarrow> map_erase k m = m"
  by (induction m) (auto simp: map_erase_def split: if_splits)

section \<open>std::set\<close>

definition set_erase :: "'a \<Rightarrow> 'a list \<Rightarrow> 'a list" where
  "set_erase x s = filter (\<lambda>y. y \<noteq> x) s"

abbreviation set_insert :: "'a::linorder \<Rightarrow> 'a list \<Rightarrow> 'a list" where
  "set_insert \<equiv> insort_insert"

definition ordered_set :: "'a::linorder list \<Rightarrow> bool" where
  "ordered_set s \<longleftrightarrow> sorted s \<and> distinct s"

text \<open>\<^verbatim>\<open>s.insert(t.begin(), t.end())\<close>\<close>

definition set_insert_all :: "'a::linorder list \<Rightarrow> 'a list \<Rightarrow> 'a list" where
  "set_insert_all t s = fold set_insert t s"

lemma set_set_insert [simp, map_simps]: "set (set_insert x s) = insert x (set s)"
  by (simp add: set_insort_insert)

lemma set_set_erase [simp, map_simps]: "set (set_erase x s) = set s - {x}"
  by (auto simp: set_erase_def)

lemma set_set_insert_all [simp, map_simps]: "set (set_insert_all t s) = set t \<union> set s"
  unfolding set_insert_all_def by (induction t arbitrary: s) auto

lemma ordered_set_Nil [simp]: "ordered_set []"
  by (simp add: ordered_set_def)

lemma ordered_set_insert [simp, intro]: "ordered_set s \<Longrightarrow> ordered_set (set_insert x s)"
  by (simp add: ordered_set_def sorted_insort_insert distinct_insort_insert)

lemma ordered_set_erase [simp, intro]: "ordered_set s \<Longrightarrow> ordered_set (set_erase x s)"
  by (simp add: ordered_set_def set_erase_def sorted_wrt_filter)

lemma ordered_set_insert_all [simp, intro]: "ordered_set s \<Longrightarrow> ordered_set (set_insert_all t s)"
  unfolding set_insert_all_def by (induction t arbitrary: s) auto

lemma ordered_set_eqI: "ordered_set s \<Longrightarrow> ordered_set t \<Longrightarrow> set s = set t \<Longrightarrow> s = t"
  by (simp add: ordered_set_def sorted_distinct_set_unique)

section \<open>std::multimap\<close>

fun multimap_insert :: "'k::linorder \<Rightarrow> 'v \<Rightarrow> ('k \<times> 'v) list \<Rightarrow> ('k \<times> 'v) list" where
  "multimap_insert k v [] = [(k, v)]"
| "multimap_insert k v ((a, b) # m) =
     (if k < a then (k, v) # (a, b) # m else (a, b) # multimap_insert k v m)"

text \<open>The values in \<open>[lower_bound(k), upper_bound(k))\<close>, in iteration order.\<close>

definition multimap_range :: "'k \<Rightarrow> ('k \<times> 'v) list \<Rightarrow> 'v list" where
  "multimap_range k m = map snd (filter (\<lambda>p. fst p = k) m)"

lemma set_multimap_insert [simp]: "set (multimap_insert k v m) = insert (k, v) (set m)"
  by (induction k v m rule: multimap_insert.induct) auto

lemma sorted_multimap_insert:
  "sorted (map fst m) \<Longrightarrow> sorted (map fst (multimap_insert k v m))"
  by (induction k v m rule: multimap_insert.induct) auto

lemma set_multimap_range: "v \<in> set (multimap_range k m) \<longleftrightarrow> (k, v) \<in> set m"
  by (force simp: multimap_range_def)

lemma length_multimap_insert [simp]: "length (multimap_insert k v m) = Suc (length m)"
  by (induction k v m rule: multimap_insert.induct) auto

section \<open>The interface of an ordered map\<close>

locale ordered_map =
  fixes empty :: "'m"
    and find :: "'m \<Rightarrow> 'k::linorder \<Rightarrow> 'v option"
    and assign :: "'k \<Rightarrow> 'v \<Rightarrow> 'm \<Rightarrow> 'm"
    and insert_new :: "'k \<Rightarrow> 'v \<Rightarrow> 'm \<Rightarrow> 'm"
    and erase :: "'k \<Rightarrow> 'm \<Rightarrow> 'm"
    and entries :: "'m \<Rightarrow> ('k \<times> 'v) list"
    and invar :: "'m \<Rightarrow> bool"
  assumes find_empty: "find empty k = None"
    and find_assign: "invar m \<Longrightarrow> find (assign k v m) k' = (if k' = k then Some v else find m k')"
    and find_insert: "invar m \<Longrightarrow>
      find (insert_new k v m) k' = (if k' = k \<and> find m k = None then Some v else find m k')"
    and find_erase: "invar m \<Longrightarrow> find (erase k m) k' = (if k' = k then None else find m k')"
    and entries_find: "invar m \<Longrightarrow> (k, v) \<in> set (entries m) \<longleftrightarrow> find m k = Some v"
    and entries_ascending: "invar m \<Longrightarrow> sorted_wrt (<) (map fst (entries m))"
    and invar_empty: "invar empty"
    and invar_assign: "invar m \<Longrightarrow> invar (assign k v m)"
    and invar_insert: "invar m \<Longrightarrow> invar (insert_new k v m)"
    and invar_erase: "invar m \<Longrightarrow> invar (erase k m)"
begin

text \<open>Two maps with the same lookups iterate over the same entries in the same order.\<close>

lemma entries_determined:
  assumes "invar m" "invar m'" "\<And>k. find m k = find m' k"
  shows "entries m = entries m'"
proof -
  have "set (entries m) = set (entries m')"
    using assms entries_find by auto
  moreover have "sorted_wrt (\<lambda>p q. fst p < fst q) (entries m)"
    "sorted_wrt (\<lambda>p q. fst p < fst q) (entries m')"
    using entries_ascending assms(1,2) by (auto simp: sorted_wrt_map)
  ultimately show ?thesis
    by (intro sorted_wrt_unique[where R = "\<lambda>p q. fst p < fst q"]) auto
qed

end

interpretation stdmap: ordered_map "[]" map_of map_set map_insert map_erase "\<lambda>m. m" ordered_keys
proof unfold_locales
  fix m :: "('a::linorder, 'b) stdmap" and k k' v
  assume "ordered_keys m"
  then show "map_of (map_insert k v m) k' = (if k' = k \<and> map_of m k = None then Some v else map_of m k')"
    by (auto simp: map_of_map_insert split: option.splits)
qed (auto simp: map_of_ordered, auto simp: ordered_keys_def)

end
