(* ===== verification/UInt256.thy ===== *)
theory UInt256
  imports Prelude
begin

text \<open>
  The multi-precision unsigned integers of \<^verbatim>\<open>src/crypto/uint256.h\<close>. A value of the class
  template \<^verbatim>\<open>base_uint<BITS>\<close> is its array \<^verbatim>\<open>pn\<close> of 32-bit limbs, least significant limb
  first; \<^verbatim>\<open>WIDTH\<close> is the length of the list. Every operator is the limb loop of the source.
  The lemmas show that each operator computes the arithmetic it stands for on the value
  \<open>bu_val\<close> of the array, modulo \<open>2 ^ BITS\<close>; the locale \<open>fixed_uint\<close> collects that contract,
  and is interpreted for the three widths the program instantiates (160, 224 and 256).
\<close>

unbundle bit_operations_syntax

section \<open>Operators\<close>

type_synonym limbs = "uint32 list"

fun op_lnot :: "limbs \<Rightarrow> bool" where
  "op_lnot [] = True"
| "op_lnot (x # pn) = (if x \<noteq> 0 then False else op_lnot pn)"

definition op_compl :: "limbs \<Rightarrow> limbs" where
  "op_compl pn = map (\<lambda>x. NOT x) pn"

fun op_incr :: "limbs \<Rightarrow> limbs" where
  "op_incr [] = []"
| "op_incr [x] = [x + 1]"
| "op_incr (x # y # pn) = (if x + 1 = 0 then (x + 1) # op_incr (y # pn) else (x + 1) # y # pn)"

fun op_decr :: "limbs \<Rightarrow> limbs" where
  "op_decr [] = []"
| "op_decr [x] = [x - 1]"
| "op_decr (x # y # pn) = (if x - 1 = - 1 then (x - 1) # op_decr (y # pn) else (x - 1) # y # pn)"

definition op_neg :: "limbs \<Rightarrow> limbs" where
  "op_neg pn = op_incr (map (\<lambda>x. NOT x) pn)"

definition assign64 :: "nat \<Rightarrow> uint64 \<Rightarrow> limbs" where
  "assign64 WIDTH b = [ucast b, ucast (drop_bit 32 b)] @ replicate (WIDTH - 2) 0"

definition op_xor :: "limbs \<Rightarrow> limbs \<Rightarrow> limbs" where
  "op_xor pn b = map2 (XOR) pn b"

definition op_and :: "limbs \<Rightarrow> limbs \<Rightarrow> limbs" where
  "op_and pn b = map2 (AND) pn b"

definition op_or :: "limbs \<Rightarrow> limbs \<Rightarrow> limbs" where
  "op_or pn b = map2 (OR) pn b"

definition op_xor64 :: "limbs \<Rightarrow> uint64 \<Rightarrow> limbs" where
  "op_xor64 pn b = pn[0 := pn ! 0 XOR ucast b, 1 := pn ! 1 XOR ucast (drop_bit 32 b)]"

definition op_or64 :: "limbs \<Rightarrow> uint64 \<Rightarrow> limbs" where
  "op_or64 pn b = pn[0 := pn ! 0 OR ucast b, 1 := pn ! 1 OR ucast (drop_bit 32 b)]"

text \<open>The body of the loop of \<^verbatim>\<open>operator<<=\<close> at index \<open>i\<close>: \<open>a\<close> is the copy of the old value,
  \<open>k\<close> and \<open>s\<close> are the quotient and remainder of the shift by 32.\<close>

definition shl_step :: "limbs \<Rightarrow> nat \<Rightarrow> nat \<Rightarrow> nat \<Rightarrow> limbs \<Rightarrow> limbs" where
  "shl_step a k s i pn =
    (let pn1 = (if i + k + 1 < length a \<and> s \<noteq> 0
                then pn[i + k + 1 := pn ! (i + k + 1) OR drop_bit (32 - s) (a ! i)] else pn)
     in if i + k < length a then pn1[i + k := pn1 ! (i + k) OR push_bit s (a ! i)] else pn1)"

definition op_shl :: "limbs \<Rightarrow> nat \<Rightarrow> limbs" where
  "op_shl a shift =
    fold (shl_step a (shift div 32) (shift mod 32)) [0..<length a] (replicate (length a) 0)"

definition shr_step :: "limbs \<Rightarrow> nat \<Rightarrow> nat \<Rightarrow> nat \<Rightarrow> limbs \<Rightarrow> limbs" where
  "shr_step a k s i pn =
    (let pn1 = (if k + 1 \<le> i \<and> s \<noteq> 0
                then pn[i - k - 1 := pn ! (i - k - 1) OR push_bit (32 - s) (a ! i)] else pn)
     in if k \<le> i then pn1[i - k := pn1 ! (i - k) OR drop_bit s (a ! i)] else pn1)"

definition op_shr :: "limbs \<Rightarrow> nat \<Rightarrow> limbs" where
  "op_shr a shift =
    fold (shr_step a (shift div 32) (shift mod 32)) [0..<length a] (replicate (length a) 0)"

fun add_loop :: "uint64 \<Rightarrow> limbs \<Rightarrow> limbs \<Rightarrow> limbs" where
  "add_loop carry (x # pn) (y # b) =
    (let n = carry + ucast x + ucast y
     in ucast (n AND 0xffffffff) # add_loop (drop_bit 32 n) pn b)"
| "add_loop carry _ _ = []"

definition op_add :: "limbs \<Rightarrow> limbs \<Rightarrow> limbs" where
  "op_add pn b = add_loop 0 pn b"

definition op_sub :: "limbs \<Rightarrow> limbs \<Rightarrow> limbs" where
  "op_sub pn b = op_add pn (op_neg b)"

definition op_add64 :: "limbs \<Rightarrow> uint64 \<Rightarrow> limbs" where
  "op_add64 pn b64 = op_add pn (assign64 (length pn) b64)"

definition op_sub64 :: "limbs \<Rightarrow> uint64 \<Rightarrow> limbs" where
  "op_sub64 pn b64 = op_add pn (op_neg (assign64 (length pn) b64))"

text \<open>The comparisons scan from the most significant limb; the third argument is the number
  of limbs that remain to be looked at.\<close>

primrec lt_from :: "limbs \<Rightarrow> limbs \<Rightarrow> nat \<Rightarrow> bool" where
  "lt_from a b 0 = False"
| "lt_from a b (Suc i) =
    (if a ! i < b ! i then True else if a ! i > b ! i then False else lt_from a b i)"

primrec le_from :: "limbs \<Rightarrow> limbs \<Rightarrow> nat \<Rightarrow> bool" where
  "le_from a b 0 = True"
| "le_from a b (Suc i) =
    (if a ! i < b ! i then True else if a ! i > b ! i then False else le_from a b i)"

primrec gt_from :: "limbs \<Rightarrow> limbs \<Rightarrow> nat \<Rightarrow> bool" where
  "gt_from a b 0 = False"
| "gt_from a b (Suc i) =
    (if a ! i > b ! i then True else if a ! i < b ! i then False else gt_from a b i)"

primrec ge_from :: "limbs \<Rightarrow> limbs \<Rightarrow> nat \<Rightarrow> bool" where
  "ge_from a b 0 = True"
| "ge_from a b (Suc i) =
    (if a ! i > b ! i then True else if a ! i < b ! i then False else ge_from a b i)"

definition op_lt :: "limbs \<Rightarrow> limbs \<Rightarrow> bool" where "op_lt a b = lt_from a b (length a)"
definition op_le :: "limbs \<Rightarrow> limbs \<Rightarrow> bool" where "op_le a b = le_from a b (length a)"
definition op_gt :: "limbs \<Rightarrow> limbs \<Rightarrow> bool" where "op_gt a b = gt_from a b (length a)"
definition op_ge :: "limbs \<Rightarrow> limbs \<Rightarrow> bool" where "op_ge a b = ge_from a b (length a)"

fun op_eq :: "limbs \<Rightarrow> limbs \<Rightarrow> bool" where
  "op_eq (x # a) (y # b) = (if x \<noteq> y then False else op_eq a b)"
| "op_eq _ _ = True"

definition op_eq64 :: "limbs \<Rightarrow> uint64 \<Rightarrow> bool" where
  "op_eq64 a b =
    (if a ! 0 \<noteq> ucast b then False
     else if a ! 1 \<noteq> ucast (drop_bit 32 b) then False
     else list_all (\<lambda>x. x = 0) (drop 2 a))"

definition Get64 :: "limbs \<Rightarrow> nat \<Rightarrow> uint64" where
  "Get64 pn n = ucast (pn ! (2 * n)) OR push_bit 32 (ucast (pn ! (2 * n + 1)))"

definition Get32 :: "limbs \<Rightarrow> nat \<Rightarrow> uint32" where
  "Get32 pn n = pn ! n"

section \<open>The value of an array of limbs\<close>

definition bu_val :: "limbs \<Rightarrow> int" where
  "bu_val pn = horner_sum uint (2 ^ 32) pn"

lemma bu_val_Nil [simp]: "bu_val [] = 0"
  by (simp add: bu_val_def)

lemma bu_val_Cons: "bu_val (x # pn) = uint x + 2 ^ 32 * bu_val pn"
  by (simp add: bu_val_def)

lemma bit_bu_val:
  "bit (bu_val pn) n \<longleftrightarrow> n div 32 < length pn \<and> bit (pn ! (n div 32)) (n mod 32)"
  using bit_horner_sum_uint_exp_iff [of pn n] by (simp add: bu_val_def)

lemma bu_val_ge_0 [simp]: "0 \<le> bu_val pn"
  by (induction pn) (simp_all add: bu_val_Cons)

lemma bu_val_less: "bu_val pn < 2 ^ (32 * length pn)"
proof (induction pn)
  case Nil
  then show ?case by simp
next
  case (Cons x pn)
  have "uint x \<le> 2 ^ 32 - 1"
    using uint_lt2p [of x] by simp
  moreover have "2 ^ 32 * bu_val pn \<le> 2 ^ 32 * (2 ^ (32 * length pn) - 1)"
    using Cons by (intro mult_left_mono) auto
  ultimately show ?case
    by (simp add: bu_val_Cons power_add algebra_simps)
qed

lemma bu_val_mod [simp]: "length pn = n \<Longrightarrow> bu_val pn mod 2 ^ (32 * n) = bu_val pn"
  using bu_val_less [of pn] by simp

lemma bu_val_inject:
  assumes "length a = length b"
  shows "bu_val a = bu_val b \<longleftrightarrow> a = b"
  using assms
proof (induction a b rule: list_induct2)
  case Nil
  then show ?case by simp
next
  case (Cons x a y b)
  show ?case
  proof
    assume eq: "bu_val (x # a) = bu_val (y # b)"
    have "bu_val (x # a) mod 2 ^ 32 = uint x" "bu_val (y # b) mod 2 ^ 32 = uint y"
      using uint_lt2p [of x] uint_lt2p [of y] by (simp_all add: bu_val_Cons)
    with eq have "x = y" by (simp add: word_uint_eq_iff)
    with eq Cons.IH show "x # a = y # b" by (simp add: bu_val_Cons)
  qed simp
qed

lemma mod_horner:
  fixes lo :: int
  assumes "0 \<le> lo" "lo < b" "0 < m"
  shows "lo + b * (z mod m) = (lo + b * z) mod (b * m)"
proof -
  have "(lo + b * z) mod (b * m) = b * ((lo + b * z) div b mod m) + (lo + b * z) mod b"
    using assms by (simp add: zmod_zmult2_eq)
  moreover have "(lo + b * z) div b = z" "(lo + b * z) mod b = lo"
    using assms by simp_all
  ultimately show ?thesis by simp
qed

lemma uint_drop_bit: "uint (drop_bit n w) = uint w div 2 ^ n"
proof -
  have "uint (drop_bit n w) = drop_bit n (uint w)" by (rule bit_eqI) (auto simp: bit_simps dest: bit_imp_le_length)
  then show ?thesis by (simp only: drop_bit_eq_div)
qed

section \<open>Addition, negation and subtraction\<close>

lemma length_add_loop [simp]: "length (add_loop c pn b) = min (length pn) (length b)"
  by (induction c pn b rule: add_loop.induct) (simp_all add: Let_def)

lemma length_op_incr [simp]: "length (op_incr pn) = length pn"
  by (induction pn rule: op_incr.induct) auto

lemma length_op_decr [simp]: "length (op_decr pn) = length pn"
  by (induction pn rule: op_decr.induct) auto

lemma length_op_compl [simp]: "length (op_compl pn) = length pn"
  by (simp add: op_compl_def)

lemma length_op_neg [simp]: "length (op_neg pn) = length pn"
  by (simp add: op_neg_def)

lemma length_op_add [simp]: "length (op_add pn b) = min (length pn) (length b)"
  by (simp add: op_add_def)

lemma length_op_sub [simp]: "length (op_sub pn b) = min (length pn) (length b)"
  by (simp add: op_sub_def)

lemma length_assign64 [simp]: "2 \<le> n \<Longrightarrow> length (assign64 n b) = n"
  by (simp add: assign64_def)

lemma limb_sum:
  fixes c :: uint64 and x y :: uint32
  assumes "uint c \<le> 1"
  defines "n \<equiv> c + ucast x + ucast y"
  shows "uint n = uint c + uint x + uint y"
    and "uint (ucast (n AND 0xffffffff) :: uint32) = (uint c + uint x + uint y) mod 2 ^ 32"
    and "uint (drop_bit 32 n) = (uint c + uint x + uint y) div 2 ^ 32"
    and "uint (drop_bit 32 n) \<le> 1"
proof -
  have x: "uint x < 2 ^ 32" "uint y < 2 ^ 32"
    using uint_lt2p [of x] uint_lt2p [of y] by simp_all
  have cx: "uint (ucast x :: uint64) = uint x" "uint (ucast y :: uint64) = uint y"
    by (simp_all add: uint_up_ucast is_up)
  have "uint n = (uint c + uint x + uint y) mod 2 ^ 64"
    by (simp add: n_def uint_word_ariths cx mod_simps)
  then show n: "uint n = uint c + uint x + uint y"
    using x assms(1) by simp
  have mask: "(n AND 0xffffffff) = take_bit 32 n"
    by (simp add: take_bit_eq_mask mask_eq_exp_minus_1)
  show "uint (ucast (n AND 0xffffffff) :: uint32) = (uint c + uint x + uint y) mod 2 ^ 32"
    unfolding mask n [symmetric] by (simp add: unsigned_ucast_eq unsigned_take_bit_eq) (simp add: take_bit_eq_mod)
  show d: "uint (drop_bit 32 n) = (uint c + uint x + uint y) div 2 ^ 32"
    by (simp only: n [symmetric] uint_drop_bit)
  show "uint (drop_bit 32 n) \<le> 1"
    unfolding d using x assms(1) by simp
qed

lemma bu_val_add_loop:
  assumes "length a = length b" "uint c \<le> 1"
  shows "bu_val (add_loop c a b) = (uint c + bu_val a + bu_val b) mod 2 ^ (32 * length a)"
  using assms
proof (induction a b arbitrary: c rule: list_induct2)
  case Nil
  then show ?case by simp
next
  case (Cons x a y b)
  define n where "n = c + ucast x + ucast y"
  note s = limb_sum [OF Cons.prems, of x y, folded n_def]
  let ?t = "uint c + uint x + uint y"
  have "bu_val (add_loop c (x # a) (y # b))
      = ?t mod 2 ^ 32 + 2 ^ 32 * ((?t div 2 ^ 32 + bu_val a + bu_val b) mod 2 ^ (32 * length a))"
    using Cons.IH [OF s(4)] by (simp add: bu_val_Cons Let_def n_def [symmetric] s)
  also have "\<dots> = (?t mod 2 ^ 32 + 2 ^ 32 * (?t div 2 ^ 32 + bu_val a + bu_val b))
      mod (2 ^ 32 * 2 ^ (32 * length a))"
    by (rule mod_horner) simp_all
  also have "?t mod 2 ^ 32 + 2 ^ 32 * (?t div 2 ^ 32 + bu_val a + bu_val b)
      = uint c + bu_val (x # a) + bu_val (y # b)"
    using mod_mult_div_eq [of ?t "2 ^ 32"] by (simp add: bu_val_Cons algebra_simps)
  finally show ?case
    by (simp add: power_add)
qed

lemma bu_val_op_add:
  "length a = length b \<Longrightarrow> bu_val (op_add a b) = (bu_val a + bu_val b) mod 2 ^ (32 * length a)"
  by (simp add: op_add_def bu_val_add_loop)

lemma uint_limb_plus_1: "x + 1 \<noteq> (0 :: uint32) \<Longrightarrow> uint (x + 1) = uint x + 1"
  using uint_lt2p [of x] by (auto simp: uint_plus_if' word_uint_eq_iff split: if_splits)

lemma uint_limb_minus_1: "x \<noteq> (0 :: uint32) \<Longrightarrow> uint (x - 1) = uint x - 1"
  by (auto simp: uint_sub_if' word_uint_eq_iff split: if_splits)
    (smt (verit) uint_ge_0)

lemma uint_limb_top: "uint (- 1 :: uint32) = 2 ^ 32 - 1"
  by (simp add: unsigned_minus_1_eq_mask mask_eq_exp_minus_1)

lemma bu_val_op_incr:
  "pn \<noteq> [] \<Longrightarrow> bu_val (op_incr pn) = (bu_val pn + 1) mod 2 ^ (32 * length pn)"
proof (induction pn rule: op_incr.induct)
  case (2 x)
  then show ?case by (simp add: bu_val_Cons uint_word_ariths)
next
  case (3 x y pn)
  show ?case
  proof (cases "x + 1 = 0")
    case True
    then have x: "x = - 1" by (simp add: eq_neg_iff_add_eq_0)
    have "bu_val (op_incr (x # y # pn))
        = 2 ^ 32 * ((bu_val (y # pn) + 1) mod 2 ^ (32 * length (y # pn)))"
      using 3 by (simp add: bu_val_Cons [of 0] x)
    then show ?thesis
      by (simp add: bu_val_Cons [of "-1"] x uint_limb_top mult_mod_right power_add algebra_simps)
  next
    case False
    then have "bu_val (op_incr (x # y # pn)) = bu_val (x # y # pn) + 1"
      by (simp add: bu_val_Cons uint_limb_plus_1)
    moreover have "bu_val (op_incr (x # y # pn)) mod 2 ^ (32 * length (x # y # pn))
        = bu_val (op_incr (x # y # pn))"
      by (rule bu_val_mod) simp
    ultimately show ?thesis by simp
  qed
qed simp

lemma bu_val_op_decr:
  "pn \<noteq> [] \<Longrightarrow> bu_val (op_decr pn) = (bu_val pn - 1) mod 2 ^ (32 * length pn)"
proof (induction pn rule: op_decr.induct)
  case (2 x)
  then show ?case by (simp add: bu_val_Cons uint_word_ariths)
next
  case (3 x y pn)
  show ?case
  proof (cases "x = 0")
    case True
    have "bu_val (op_decr (x # y # pn))
        = (2 ^ 32 - 1) + 2 ^ 32 * ((bu_val (y # pn) - 1) mod 2 ^ (32 * length (y # pn)))"
      using 3 by (simp add: bu_val_Cons [of "-1"] True uint_limb_top)
    also have "\<dots> = ((2 ^ 32 - 1) + 2 ^ 32 * (bu_val (y # pn) - 1)) mod (2 ^ 32 * 2 ^ (32 * length (y # pn)))"
      by (rule mod_horner) simp_all
    finally show ?thesis
      by (simp add: bu_val_Cons [of 0] True power_add algebra_simps)
  next
    case False
    then have "bu_val (op_decr (x # y # pn)) = bu_val (x # y # pn) - 1"
      by (simp add: bu_val_Cons uint_limb_minus_1 diff_eq_eq)
    moreover have "bu_val (op_decr (x # y # pn)) mod 2 ^ (32 * length (x # y # pn))
        = bu_val (op_decr (x # y # pn))"
      by (rule bu_val_mod) simp
    ultimately show ?thesis by simp
  qed
qed simp

lemma bu_val_compl: "bu_val (map (\<lambda>x. NOT x) pn) = 2 ^ (32 * length pn) - 1 - bu_val pn"
proof (induction pn)
  case (Cons x pn)
  have "uint (NOT x) = 2 ^ 32 - 1 - uint x"
  proof -
    have "NOT x = - 1 - x" by (simp add: not_eq_complement)
    then show ?thesis using uint_lt2p [of x] by (simp only: uint_sub_if' uint_limb_top) simp
  qed
  with Cons show ?case by (simp add: bu_val_Cons power_add algebra_simps)
qed simp

lemma bu_val_op_neg:
  "pn \<noteq> [] \<Longrightarrow> bu_val (op_neg pn) = (- bu_val pn) mod 2 ^ (32 * length pn)"
  by (simp add: op_neg_def bu_val_op_incr bu_val_compl mod_simps)

lemma bu_val_op_sub:
  assumes "length a = length b" "b \<noteq> []"
  shows "bu_val (op_sub a b) = (bu_val a - bu_val b) mod 2 ^ (32 * length a)"
  using assms by (simp add: op_sub_def bu_val_op_add bu_val_op_neg mod_simps)

lemma bu_val_replicate_0 [simp]: "bu_val (replicate n 0) = 0"
  by (induction n) (simp_all add: bu_val_Cons)

lemma bu_val_assign64 [simp]: "bu_val (assign64 n b) = uint b"
proof -
  have "uint (ucast b :: uint32) = uint b mod 2 ^ 32"
    by (simp add: unsigned_ucast_eq take_bit_eq_mod)
  moreover have "uint (ucast (drop_bit 32 b) :: uint32) = uint b div 2 ^ 32"
  proof -
    have "uint b div 2 ^ 32 < 2 ^ 32"
      using uint_lt2p [of b] by simp
    then show ?thesis
      by (simp only: unsigned_ucast_eq uint_drop_bit take_bit_eq_mod)
        (simp add: mod_pos_pos_trivial pos_imp_zdiv_nonneg_iff)
  qed
  ultimately show ?thesis
    by (simp add: assign64_def bu_val_Cons)
qed

section \<open>Bitwise operators and shifts\<close>

lemma bu_val_bitwise:
  assumes "length a = length b"
  shows "bu_val (op_xor a b) = bu_val a XOR bu_val b"
    and "bu_val (op_and a b) = bu_val a AND bu_val b"
    and "bu_val (op_or a b) = bu_val a OR bu_val b"
  using assms
  by (auto intro!: bit_eqI simp: bit_bu_val op_xor_def op_and_def op_or_def bit_simps)

lemma length_shl_step [simp]: "length (shl_step a k s i pn) = length pn"
  by (simp add: shl_step_def Let_def)

lemma length_shr_step [simp]: "length (shr_step a k s i pn) = length pn"
  by (simp add: shr_step_def Let_def)

lemma length_shl_loop [simp]: "length (fold (shl_step a k s) is pn) = length pn"
  by (induction "is" arbitrary: pn) simp_all

lemma length_shr_loop [simp]: "length (fold (shr_step a k s) is pn) = length pn"
  by (induction "is" arbitrary: pn) simp_all

lemma nth_shl_step:
  assumes "length pn = length a" "i < length a" "j < length a"
  shows "shl_step a k s i pn ! j = pn ! j OR
    ((if j = i + k then push_bit s (a ! i) else 0) OR
     (if j = i + k + 1 \<and> s \<noteq> 0 then drop_bit (32 - s) (a ! i) else 0))"
  using assms by (auto simp: shl_step_def Let_def)

lemma nth_shr_step:
  assumes "length pn = length a" "i < length a" "j < length a"
  shows "shr_step a k s i pn ! j = pn ! j OR
    ((if i = j + k then drop_bit s (a ! i) else 0) OR
     (if i = j + k + 1 \<and> s \<noteq> 0 then push_bit (32 - s) (a ! i) else 0))"
  using assms by (auto simp: shr_step_def Let_def nth_list_update)

lemma nth_shl_loop:
  assumes "m \<le> length a" "j < length a"
  shows "fold (shl_step a k s) [0..<m] (replicate (length a) 0) ! j =
    (if k \<le> j \<and> j - k < m then push_bit s (a ! (j - k)) else 0) OR
    (if k + 1 \<le> j \<and> j - k - 1 < m \<and> s \<noteq> 0 then drop_bit (32 - s) (a ! (j - k - 1)) else 0)"
  using assms
proof (induction m)
  case (Suc m)
  then show ?case
    by (auto simp: nth_shl_step less_Suc_eq or.commute or.left_commute)
qed simp

lemma nth_shr_loop:
  assumes "m \<le> length a" "j < length a"
  shows "fold (shr_step a k s) [0..<m] (replicate (length a) 0) ! j =
    (if j + k < m then drop_bit s (a ! (j + k)) else 0) OR
    (if j + k + 1 < m \<and> s \<noteq> 0 then push_bit (32 - s) (a ! (j + k + 1)) else 0)"
  using assms
proof (induction m)
  case (Suc m)
  then show ?case
    by (cases "m = Suc (j + k)")
      (auto simp: nth_shr_step less_Suc_eq or.commute or.left_commute)
qed simp

lemma limb_index:
  assumes "n = 32 * q + r" "r < (32 :: nat)"
  shows "n div 32 = q" "n mod 32 = r"
  using assms by simp_all

lemma bit_limb_beyond: "32 \<le> i \<Longrightarrow> bit (x :: uint32) i \<longleftrightarrow> False"
  using bit_imp_le_length [of x i] by auto

lemma bit_op_shl:
  assumes "j < length a" "r < 32"
  shows "bit (op_shl a s ! j) r \<longleftrightarrow>
    (if s mod 32 \<le> r then s div 32 \<le> j \<and> bit (a ! (j - s div 32)) (r - s mod 32)
     else s div 32 + 1 \<le> j \<and> bit (a ! (j - s div 32 - 1)) (r + 32 - s mod 32))"
  using assms by (auto simp: op_shl_def nth_shl_loop bit_simps bit_limb_beyond add.commute)

lemma bit_op_shr:
  assumes "j < length a" "r < 32"
  shows "bit (op_shr a s ! j) r \<longleftrightarrow>
    (if r + s mod 32 < 32 then j + s div 32 < length a \<and> bit (a ! (j + s div 32)) (r + s mod 32)
     else j + s div 32 + 1 < length a \<and> bit (a ! (j + s div 32 + 1)) (r + s mod 32 - 32))"
  using assms by (auto simp: op_shr_def nth_shr_loop bit_simps bit_limb_beyond add.commute not_less)

lemma bu_val_op_shl:
  "bu_val (op_shl a s) = take_bit (32 * length a) (push_bit s (bu_val a))"
proof (rule bit_eqI)
  fix n :: nat
  define k j where "k = s div 32" and "j = n div 32"
  define t r where "t = s mod 32" and "r = n mod 32"
  have s: "s = 32 * k + t" "t < 32" and n: "n = 32 * j + r" "r < 32"
    by (simp_all add: k_def t_def j_def r_def)
  have L: "bit (bu_val (op_shl a s)) n \<longleftrightarrow> j < length a \<and>
    (if t \<le> r then k \<le> j \<and> bit (a ! (j - k)) (r - t)
     else k + 1 \<le> j \<and> bit (a ! (j - k - 1)) (r + 32 - t))"
    using bit_op_shl [of j a r s] n(2)
    by (auto simp: bit_bu_val op_shl_def j_def r_def k_def t_def)
  have R: "bit (take_bit (32 * length a) (push_bit s (bu_val a))) n \<longleftrightarrow>
      j < length a \<and> s \<le> n \<and> (n - s) div 32 < length a \<and> bit (a ! ((n - s) div 32)) ((n - s) mod 32)"
    using n by (auto simp: bit_simps bit_bu_val)
  show "bit (bu_val (op_shl a s)) n \<longleftrightarrow> bit (take_bit (32 * length a) (push_bit s (bu_val a))) n"
  proof (cases "t \<le> r")
    case True
    have *: "s \<le> n \<longleftrightarrow> k \<le> j" "k \<le> j \<Longrightarrow> n - s = 32 * (j - k) + (r - t)"
      using s n True by auto
    then have "k \<le> j \<Longrightarrow> (n - s) div 32 = j - k" "k \<le> j \<Longrightarrow> (n - s) mod 32 = r - t"
      using limb_index [OF *(2)] n by (simp_all add: less_imp_diff_less)
    with *(1) True show ?thesis
      unfolding L R by auto
  next
    case False
    have *: "s \<le> n \<longleftrightarrow> k + 1 \<le> j" "k + 1 \<le> j \<Longrightarrow> n - s = 32 * (j - k - 1) + (r + 32 - t)"
      using s n False by auto
    then have "k + 1 \<le> j \<Longrightarrow> (n - s) div 32 = j - k - 1" "k + 1 \<le> j \<Longrightarrow> (n - s) mod 32 = r + 32 - t"
      using limb_index [OF *(2)] s False by simp_all
    with *(1) False show ?thesis
      unfolding L R by auto
  qed
qed

lemma bu_val_op_shr: "bu_val (op_shr a s) = drop_bit s (bu_val a)"
proof (rule bit_eqI)
  fix n :: nat
  define k j where "k = s div 32" and "j = n div 32"
  define t r where "t = s mod 32" and "r = n mod 32"
  have s: "s = 32 * k + t" "t < 32" and n: "n = 32 * j + r" "r < 32"
    by (simp_all add: k_def t_def j_def r_def)
  have L: "bit (bu_val (op_shr a s)) n \<longleftrightarrow> j < length a \<and>
    (if r + t < 32 then j + k < length a \<and> bit (a ! (j + k)) (r + t)
     else j + k + 1 < length a \<and> bit (a ! (j + k + 1)) (r + t - 32))"
    using bit_op_shr [of j a r s] n(2)
    by (auto simp: bit_bu_val op_shr_def j_def r_def k_def t_def)
  have R: "bit (drop_bit s (bu_val a)) n \<longleftrightarrow>
      (s + n) div 32 < length a \<and> bit (a ! ((s + n) div 32)) ((s + n) mod 32)"
    by (simp add: bit_simps bit_bu_val)
  show "bit (bu_val (op_shr a s)) n \<longleftrightarrow> bit (drop_bit s (bu_val a)) n"
  proof (cases "r + t < 32")
    case True
    have *: "s + n = 32 * (j + k) + (r + t)"
      using s n by auto
    show ?thesis
      unfolding L R limb_index [OF * True] using True by auto
  next
    case False
    have *: "s + n = 32 * (j + k + 1) + (r + t - 32)" "r + t - 32 < 32"
      using s n False by auto
    show ?thesis
      unfolding L R limb_index [OF *] using False by auto
  qed
qed

section \<open>Comparisons\<close>

lemma bu_val_snoc: "bu_val (pn @ [x]) = bu_val pn + 2 ^ (32 * length pn) * uint x"
  by (simp add: bu_val_def horner_sum_append power_mult)

lemma scaled_less:
  fixes u v p q M :: int
  assumes "0 \<le> u" "u < M" "0 \<le> v" "v < M" "p < q"
  shows "u + M * p < v + M * q"
proof -
  have "M * p + M \<le> M * q"
    using assms mult_left_mono [of "p + 1" q M] by (simp add: algebra_simps)
  with assms show ?thesis by simp
qed

lemma bu_val_snoc_less:
  assumes "length a = length b" "x < y"
  shows "bu_val (a @ [x]) < bu_val (b @ [y])"
  using assms scaled_less [of "bu_val a" "2 ^ (32 * length a)" "bu_val b" "uint x" "uint y"]
    bu_val_less [of a] bu_val_less [of b]
  by (simp add: bu_val_snoc word_less_def)

lemma compare_from:
  assumes "length a = length b" "n \<le> length a"
  shows "lt_from a b n \<longleftrightarrow> bu_val (take n a) < bu_val (take n b)"
    and "le_from a b n \<longleftrightarrow> bu_val (take n a) \<le> bu_val (take n b)"
    and "gt_from a b n \<longleftrightarrow> bu_val (take n a) > bu_val (take n b)"
    and "ge_from a b n \<longleftrightarrow> bu_val (take n a) \<ge> bu_val (take n b)"
proof -
  have "(lt_from a b n \<longleftrightarrow> bu_val (take n a) < bu_val (take n b)) \<and>
    (le_from a b n \<longleftrightarrow> bu_val (take n a) \<le> bu_val (take n b)) \<and>
    (gt_from a b n \<longleftrightarrow> bu_val (take n a) > bu_val (take n b)) \<and>
    (ge_from a b n \<longleftrightarrow> bu_val (take n a) \<ge> bu_val (take n b))"
    using assms(2)
  proof (induction n)
    case (Suc n)
    have t: "take (Suc n) a = take n a @ [a ! n]" "take (Suc n) b = take n b @ [b ! n]"
      using Suc.prems assms(1) by (simp_all add: take_Suc_conv_app_nth)
    have len: "length (take n a) = length (take n b)"
      using assms(1) by simp
    consider "a ! n < b ! n" | "b ! n < a ! n" | "a ! n = b ! n"
      by fastforce
    then show ?case
    proof cases
      case 1
      with bu_val_snoc_less [OF len 1] show ?thesis unfolding t by auto
    next
      case 2
      with bu_val_snoc_less [OF len [symmetric] 2] show ?thesis unfolding t by auto
    next
      case 3
      with Suc len show ?thesis unfolding t by (simp add: bu_val_snoc)
    qed
  qed simp
  then show "lt_from a b n \<longleftrightarrow> bu_val (take n a) < bu_val (take n b)"
    and "le_from a b n \<longleftrightarrow> bu_val (take n a) \<le> bu_val (take n b)"
    and "gt_from a b n \<longleftrightarrow> bu_val (take n a) > bu_val (take n b)"
    and "ge_from a b n \<longleftrightarrow> bu_val (take n a) \<ge> bu_val (take n b)"
    by blast+
qed

lemma bu_val_compare:
  assumes "length a = length b"
  shows "op_lt a b \<longleftrightarrow> bu_val a < bu_val b"
    and "op_le a b \<longleftrightarrow> bu_val a \<le> bu_val b"
    and "op_gt a b \<longleftrightarrow> bu_val a > bu_val b"
    and "op_ge a b \<longleftrightarrow> bu_val a \<ge> bu_val b"
  using compare_from [OF assms order_refl] assms
  by (simp_all add: op_lt_def op_le_def op_gt_def op_ge_def)

lemma op_eq_iff: "length a = length b \<Longrightarrow> op_eq a b \<longleftrightarrow> a = b"
  by (induction a b rule: op_eq.induct) auto

lemma op_lnot_iff: "op_lnot pn \<longleftrightarrow> bu_val pn = 0"
proof (induction pn)
  case (Cons x pn)
  show ?case
    using Cons by (simp add: bu_val_Cons add_nonneg_eq_0_iff unsigned_eq_0_iff)
qed simp

lemma op_eq64_iff:
  assumes "2 \<le> length a"
  shows "op_eq64 a b \<longleftrightarrow> bu_val a = uint b"
proof -
  have "op_eq64 a b \<longleftrightarrow> a = assign64 (length a) b"
  proof -
    obtain x y xs where a: "a = x # y # xs"
      using assms by (cases a; cases "tl a") auto
    have "list_all (\<lambda>x. x = 0) xs \<longleftrightarrow> xs = replicate (length xs) 0"
      by (induction xs) auto
    then show ?thesis by (auto simp: op_eq64_def assign64_def a)
  qed
  also have "\<dots> \<longleftrightarrow> bu_val a = bu_val (assign64 (length a) b)"
    using assms bu_val_inject [of a "assign64 (length a) b"] by simp
  finally show ?thesis by simp
qed

section \<open>The contract of a fixed-width unsigned integer\<close>

text \<open>What the rest of the program relies on: arithmetic modulo \<open>2 ^ N\<close> and the order of the
  values. The ordered containers keyed by hashes need the strict order to be a linear one, and
  the wrap-around arithmetic to be invertible.\<close>

locale fixed_uint =
  fixes N :: nat
    and wf :: "'a \<Rightarrow> bool"
    and val :: "'a \<Rightarrow> int"
    and plus minus :: "'a \<Rightarrow> 'a \<Rightarrow> 'a"
    and negate :: "'a \<Rightarrow> 'a"
    and below same :: "'a \<Rightarrow> 'a \<Rightarrow> bool"
  assumes val_inj: "wf a \<Longrightarrow> wf b \<Longrightarrow> val a = val b \<Longrightarrow> a = b"
    and val_range: "wf a \<Longrightarrow> val a mod 2 ^ N = val a"
    and plus_wf: "wf a \<Longrightarrow> wf b \<Longrightarrow> wf (plus a b)"
    and minus_wf: "wf a \<Longrightarrow> wf b \<Longrightarrow> wf (minus a b)"
    and negate_wf: "wf a \<Longrightarrow> wf (negate a)"
    and val_plus: "wf a \<Longrightarrow> wf b \<Longrightarrow> val (plus a b) = (val a + val b) mod 2 ^ N"
    and val_minus: "wf a \<Longrightarrow> wf b \<Longrightarrow> val (minus a b) = (val a - val b) mod 2 ^ N"
    and val_negate: "wf a \<Longrightarrow> val (negate a) = (- val a) mod 2 ^ N"
    and below_iff: "wf a \<Longrightarrow> wf b \<Longrightarrow> below a b \<longleftrightarrow> val a < val b"
    and same_iff: "wf a \<Longrightarrow> wf b \<Longrightarrow> same a b \<longleftrightarrow> a = b"
begin

lemma plus_commute: "wf a \<Longrightarrow> wf b \<Longrightarrow> plus a b = plus b a"
  by (rule val_inj) (simp_all add: plus_wf val_plus add.commute)

lemma plus_assoc: "wf a \<Longrightarrow> wf b \<Longrightarrow> wf c \<Longrightarrow> plus (plus a b) c = plus a (plus b c)"
  by (rule val_inj) (simp_all add: plus_wf val_plus mod_simps add.assoc)

lemma minus_plus_cancel: "wf a \<Longrightarrow> wf b \<Longrightarrow> minus (plus a b) b = a"
  by (rule val_inj) (simp_all add: plus_wf minus_wf val_plus val_minus mod_simps val_range)

lemma plus_minus_cancel: "wf a \<Longrightarrow> wf b \<Longrightarrow> plus (minus a b) b = a"
  by (rule val_inj) (simp_all add: plus_wf minus_wf val_plus val_minus mod_simps val_range)

lemma negate_negate: "wf a \<Longrightarrow> negate (negate a) = a"
  by (rule val_inj) (simp_all add: negate_wf val_negate mod_simps val_range)

lemma below_irrefl: "wf a \<Longrightarrow> \<not> below a a"
  by (simp add: below_iff)

lemma below_trans: "wf a \<Longrightarrow> wf b \<Longrightarrow> wf c \<Longrightarrow> below a b \<Longrightarrow> below b c \<Longrightarrow> below a c"
  by (simp add: below_iff)

lemma below_linear: "wf a \<Longrightarrow> wf b \<Longrightarrow> below a b \<or> same a b \<or> below b a"
  using val_inj [of a b] by (auto simp: below_iff same_iff)

end

lemma fixed_uint_limbs:
  assumes "0 < w"
  shows "fixed_uint (32 * w) (\<lambda>pn. length pn = w) bu_val op_add op_sub op_neg op_lt op_eq"
proof
  fix a b :: limbs
  assume "length a = w" "length b = w"
  moreover from this assms have "a \<noteq> []" "b \<noteq> []" by auto
  ultimately show "bu_val (op_sub a b) = (bu_val a - bu_val b) mod 2 ^ (32 * w)"
    by (simp add: bu_val_op_sub)
next
  fix a :: limbs
  assume "length a = w"
  moreover from this assms have "a \<noteq> []" by auto
  ultimately show "bu_val (op_neg a) = (- bu_val a) mod 2 ^ (32 * w)"
    by (simp add: bu_val_op_neg)
qed (simp_all add: bu_val_inject bu_val_op_add bu_val_compare op_eq_iff)

interpretation u160: fixed_uint "32 * 5" "\<lambda>pn. length pn = 5" bu_val op_add op_sub op_neg op_lt op_eq
  by (rule fixed_uint_limbs) simp

interpretation u224: fixed_uint "32 * 7" "\<lambda>pn. length pn = 7" bu_val op_add op_sub op_neg op_lt op_eq
  by (rule fixed_uint_limbs) simp

interpretation u256: fixed_uint "32 * 8" "\<lambda>pn. length pn = 8" bu_val op_add op_sub op_neg op_lt op_eq
  by (rule fixed_uint_limbs) simp

section \<open>Properties\<close>

text \<open>C1: for every width, the limb loops of \<^verbatim>\<open>+=\<close>, \<^verbatim>\<open>-=\<close>, unary minus, prefix \<^verbatim>\<open>++\<close> and \<^verbatim>\<open>--\<close>,
  \<^verbatim>\<open><<=\<close> and \<^verbatim>\<open>>>=\<close> compute the arithmetic of the values modulo \<open>2 ^ BITS\<close>: carries and
  borrows propagate through all limbs, the shifts move bits across limb boundaries and drop the
  ones that leave the array.\<close>

theorem base_uint_arith:
  assumes "0 < WIDTH" "length a = WIDTH" "length b = WIDTH"
  shows "bu_val (op_add a b) = (bu_val a + bu_val b) mod 2 ^ (32 * WIDTH)
    \<and> bu_val (op_sub a b) = (bu_val a - bu_val b) mod 2 ^ (32 * WIDTH)
    \<and> bu_val (op_neg a) = (- bu_val a) mod 2 ^ (32 * WIDTH)
    \<and> bu_val (op_incr a) = (bu_val a + 1) mod 2 ^ (32 * WIDTH)
    \<and> bu_val (op_decr a) = (bu_val a - 1) mod 2 ^ (32 * WIDTH)
    \<and> bu_val (op_shl a s) = (bu_val a * 2 ^ s) mod 2 ^ (32 * WIDTH)
    \<and> bu_val (op_shr a s) = bu_val a div 2 ^ s"
proof -
  from assms have "a \<noteq> []" "b \<noteq> []" by auto
  with assms show ?thesis
    by (simp add: bu_val_op_add bu_val_op_sub bu_val_op_neg bu_val_op_incr bu_val_op_decr
        bu_val_op_shl bu_val_op_shr take_bit_eq_mod push_bit_eq_mult drop_bit_eq_div)
qed

theorem base_uint_arith_witness:
  "bu_val (op_add [0xffffffff, 0xffffffff, 0, 0, 0] [1, 0, 0, 0, 0]) = 2 ^ 64"
  using base_uint_arith [of 5 "[0xffffffff, 0xffffffff, 0, 0, 0]" "[1, 0, 0, 0, 0]" 0]
  by (simp add: bu_val_Cons)

text \<open>The comparison operators, which scan from the most significant limb and leave the loop at
  the first difference, decide the order of the values, and \<^verbatim>\<open>==\<close> decides equality of the
  arrays, which is equality of the values.\<close>

theorem base_uint_order:
  assumes "length a = length b"
  shows "(op_lt a b \<longleftrightarrow> bu_val a < bu_val b) \<and> (op_le a b \<longleftrightarrow> bu_val a \<le> bu_val b)
    \<and> (op_gt a b \<longleftrightarrow> bu_val a > bu_val b) \<and> (op_ge a b \<longleftrightarrow> bu_val a \<ge> bu_val b)
    \<and> (op_eq a b \<longleftrightarrow> bu_val a = bu_val b) \<and> (op_lnot a \<longleftrightarrow> bu_val a = 0)"
  using assms by (simp add: bu_val_compare op_eq_iff bu_val_inject op_lnot_iff)

theorem base_uint_order_witness:
  "op_lt [5, 1] [4, 2] \<and> \<not> op_ge [5, 1] [4, 2]"
  using base_uint_order [of "[5, 1]" "[4, 2]"] by (simp add: bu_val_Cons)

end
