(* ===== verification/HexText.thy ===== *)
theory HexText
  imports UInt256
begin

text \<open>
  The hexadecimal texts of the program: \<^verbatim>\<open>ToHexString\<close>, \<^verbatim>\<open>UIntToHexString\<close> and
  \<^verbatim>\<open>ParseHexString\<close> of \<^verbatim>\<open>src/xengine/util.h\<close>, and \<^verbatim>\<open>GetHex\<close>, \<^verbatim>\<open>SetHex\<close> and the constructors
  from bytes of \<^verbatim>\<open>src/crypto/uint256.h\<close>. A C string is the list of characters before its
  terminator. The lemmas are the round trips of the two printers and parsers.
\<close>

unbundle bit_operations_syntax

section \<open>util.h\<close>

definition hexc :: "nat \<Rightarrow> char" where
  "hexc n = ''0123456789abcdef'' ! n"

definition hex_byte :: "uint8 \<Rightarrow> string" where
  "hex_byte c = [hexc (unat (drop_bit 4 c)), hexc (unat (c AND 15))]"

text \<open>The outer loop handles 64 bytes at a time in a buffer of 128 characters.\<close>

function ToHexString :: "bytes \<Rightarrow> string" where
  "ToHexString p = (if p = [] then [] else concat (map hex_byte (take 64 p)) @ ToHexString (drop 64 p))"
  by pat_completeness auto
termination
  by (relation "measure length") auto

declare ToHexString.simps [simp del]

definition UIntToHexString :: "nat \<Rightarrow> 'a::len word \<Rightarrow> string" where
  "UIntToHexString sz t = concat (map (\<lambda>i. hex_byte (ucast (drop_bit ((sz - i - 1) * 8) t))) [0..<sz])"

definition CharToHex :: "char \<Rightarrow> int" where
  "CharToHex ch =
    (let c = of_char ch in
     if c \<ge> 48 \<and> c \<le> 57 then c - 48
     else if c \<ge> 97 \<and> c \<le> 102 then c - 97 + 10
     else if c \<ge> 65 \<and> c \<le> 70 then c - 65 + 10
     else - 1)"

text \<open>At an odd end the second read sees the terminator, which is not a digit.\<close>

fun ParseHexString :: "string \<Rightarrow> bytes" where
  "ParseHexString [] = []"
| "ParseHexString [c] = []"
| "ParseHexString (c # d # psz) =
    (let h = CharToHex c; l = CharToHex d
     in if h < 0 \<or> l < 0 then [] else word_of_int (push_bit 4 h OR l) # ParseHexString psz)"

fun ParseHexString_n :: "string \<Rightarrow> nat \<Rightarrow> bytes" where
  "ParseHexString_n psz 0 = []"
| "ParseHexString_n [] n = []"
| "ParseHexString_n [c] n = []"
| "ParseHexString_n (c # d # psz) (Suc n) =
    (let h = CharToHex c; l = CharToHex d
     in if h < 0 \<or> l < 0 then [] else word_of_int (push_bit 4 h OR l) # ParseHexString_n psz n)"

section \<open>GetHex and SetHex\<close>

definition pn_bytes :: "limbs \<Rightarrow> bytes" where
  "pn_bytes pn = concat (map (le_bytes 4) pn)"

fun bytes_pn :: "bytes \<Rightarrow> limbs" where
  "bytes_pn (a # b # c # d # bs) = le_word [a, b, c, d] # bytes_pn bs"
| "bytes_pn _ = []"

definition GetHex :: "limbs \<Rightarrow> string" where
  "GetHex pn =
    concat (map (\<lambda>i. hex_byte (pn_bytes pn ! (length (pn_bytes pn) - i - 1))) [0..<length (pn_bytes pn)])"

definition phexdigit_table :: "uint8 list" where
  "phexdigit_table =
    replicate 49 0 @ [1, 2, 3, 4, 5, 6, 7, 8, 9] @ replicate 7 0 @ [0xa, 0xb, 0xc, 0xd, 0xe, 0xf] @
    replicate 26 0 @ [0xa, 0xb, 0xc, 0xd, 0xe, 0xf] @ replicate 153 0"

definition phexdigit :: "char \<Rightarrow> uint8" where
  "phexdigit c = phexdigit_table ! of_char c"

definition isspace :: "char \<Rightarrow> bool" where
  "isspace c \<longleftrightarrow> of_char c \<in> {32, 9, 10, 11, 12, 13 :: nat}"

definition skip_0x :: "string \<Rightarrow> string" where
  "skip_0x psz =
    (case psz of a # b # rest \<Rightarrow> if a = CHR ''0'' \<and> (b = CHR ''x'' \<or> b = CHR ''X'') then rest else psz
     | _ \<Rightarrow> psz)"

text \<open>The loop that fills the bytes of \<^verbatim>\<open>pn\<close> from the last digit backwards; the digits come in
  the order in which the loop reads them, \<open>n\<close> is \<^verbatim>\<open>pend - p1\<close>.\<close>

fun fill_hex :: "nat \<Rightarrow> uint8 list \<Rightarrow> bytes" where
  "fill_hex 0 ds = []"
| "fill_hex (Suc n) [] = 0 # fill_hex n []"
| "fill_hex (Suc n) [d] = d # fill_hex n []"
| "fill_hex (Suc n) (d # e # ds) = (d OR push_bit 4 e) # fill_hex n ds"

definition SetHex :: "nat \<Rightarrow> string \<Rightarrow> nat \<times> limbs" where
  "SetHex WIDTH psz =
    (let str = takeWhile (\<lambda>c. c \<noteq> CHR 0x00) psz;
         pbegin = skip_0x (dropWhile isspace str);
         digits = takeWhile (\<lambda>c. phexdigit c \<noteq> 0 \<or> c = CHR ''0'') pbegin;
         len = length str - length pbegin + length digits
     in (len, bytes_pn (fill_hex (WIDTH * 4) (map phexdigit (rev digits)))))"

section \<open>Constructors\<close>

definition uint256_h224 :: "uint32 \<Rightarrow> limbs \<Rightarrow> limbs" where
  "uint256_h224 h l = map (\<lambda>i. l ! i) [0..<7] @ [h]"

definition uint224_of_256 :: "limbs \<Rightarrow> limbs" where
  "uint224_of_256 b = map (\<lambda>i. b ! i) [0..<7]"

definition uint256_b4 :: "uint64 list \<Rightarrow> limbs" where
  "uint256_b4 b = concat (map (\<lambda>i. [ucast (b ! i), ucast (drop_bit 32 (b ! i))]) [0..<4])"

definition uint_vch :: "nat \<Rightarrow> bytes \<Rightarrow> limbs" where
  "uint_vch WIDTH vch = (if length vch = 4 * WIDTH then bytes_pn vch else assign64 WIDTH 0)"

section \<open>Digits\<close>

lemma hexc_digits:
  "list_all (\<lambda>n. CharToHex (hexc n) = int n \<and> phexdigit (hexc n) = of_nat n
      \<and> (phexdigit (hexc n) \<noteq> 0 \<or> hexc n = CHR ''0'') \<and> \<not> isspace (hexc n)
      \<and> hexc n \<noteq> CHR ''x'' \<and> hexc n \<noteq> CHR ''X'' \<and> hexc n \<noteq> CHR 0x00) [0..<16]"
  by code_simp

lemma hexc_digit:
  assumes "n < 16"
  shows "CharToHex (hexc n) = int n" "phexdigit (hexc n) = of_nat n"
    "phexdigit (hexc n) \<noteq> 0 \<or> hexc n = CHR ''0''" "\<not> isspace (hexc n)"
    "hexc n \<noteq> CHR ''x''" "hexc n \<noteq> CHR ''X''" "hexc n \<noteq> CHR 0x00"
  using hexc_digits assms by (auto simp: list_all_iff)

lemma nibble_less: "unat (drop_bit 4 c) < 16" "unat (c AND 15) < 16" for c :: uint8
proof -
  show "unat (drop_bit 4 c) < 16"
  proof -
    have "drop_bit 4 (unat c) < 16"
      using unsigned_less [of c, where 'a = nat] by (simp add: drop_bit_eq_div less_mult_imp_div_less)
    then show ?thesis by (simp only: unat_drop_bit_eq)
  qed
  have "c AND 15 = take_bit 4 c"
    by (simp add: take_bit_eq_mask mask_eq_exp_minus_1)
  moreover have "take_bit 4 (unat c) < 16"
    by (simp add: take_bit_eq_mod)
  ultimately show "unat (c AND 15) < 16"
    by (simp only: unsigned_take_bit_eq)
qed

lemma nibbles_join: "(c AND 15) OR push_bit 4 (drop_bit 4 c) = c" for c :: uint8
proof -
  have "c AND 15 = take_bit 4 c"
    by (simp add: take_bit_eq_mask mask_eq_exp_minus_1)
  then show ?thesis
    by (auto intro!: bit_eqI simp: bit_simps)
qed

lemma nibbles_int: "word_of_int (push_bit 4 (uint (drop_bit 4 c)) OR uint (c AND 15)) = c"
  for c :: uint8
proof -
  have "word_of_int (push_bit 4 (uint (drop_bit 4 c)) OR uint (c AND 15))
      = (c AND 15) OR push_bit 4 (drop_bit 4 c)"
    by (rule bit_eqI) (auto simp: bit_simps)
  then show ?thesis
    by (simp only: nibbles_join)
qed

section \<open>Round trips\<close>

lemma ToHexString_eq: "ToHexString p = concat (map hex_byte p)"
proof (induction p rule: ToHexString.induct)
  case (1 p)
  show ?case
  proof (cases "p = []")
    case False
    have "concat (map hex_byte p) = concat (map hex_byte (take 64 p @ drop 64 p))"
      by (simp only: append_take_drop_id)
    then show ?thesis
      using 1 [OF False] False by (simp only: ToHexString.simps [of p] if_False map_append concat_append)
  qed (simp add: ToHexString.simps)
qed

lemma ParseHexString_hex_byte: "ParseHexString (hex_byte c @ s) = c # ParseHexString s"
  by (simp add: hex_byte_def hexc_digit nibble_less Let_def nibbles_int)

lemma ParseHexString_ToHexString: "ParseHexString (ToHexString p) = p"
  unfolding ToHexString_eq by (induction p) (simp_all add: ParseHexString_hex_byte)

lemma ParseHexString_n_eq: "ParseHexString_n s n = take n (ParseHexString s)"
  by (induction s n rule: ParseHexString_n.induct) (simp_all add: Let_def)

lemma UIntToHexString_eq: "UIntToHexString sz t = ToHexString (rev (le_bytes sz t))"
proof -
  have "map (\<lambda>i. ucast (drop_bit ((sz - i - 1) * 8) t)) [0..<sz] = rev (le_bytes sz t)"
    by (rule nth_equalityI) (simp_all add: rev_nth nth_le_bytes mult.commute)
  then have "map hex_byte (map (\<lambda>i. ucast (drop_bit ((sz - i - 1) * 8) t)) [0..<sz])
      = map hex_byte (rev (le_bytes sz t))"
    by (simp only:)
  then show ?thesis
    by (simp only: UIntToHexString_def ToHexString_eq map_map comp_def)
qed

lemma length_pn_bytes [simp]: "length (pn_bytes pn) = 4 * length pn"
  by (induction pn) (simp_all add: pn_bytes_def)

lemma bytes_pn_pn_bytes [simp]: "bytes_pn (pn_bytes pn) = pn"
proof (induction pn)
  case (Cons x pn)
  obtain a b c d where bs: "le_bytes 4 x = [a, b, c, d]"
    by (simp add: eval_nat_numeral(2,3))
  then have "le_word [a, b, c, d] = x"
    using le_word_le_bytes [of 4 x] by simp
  with Cons show ?case
    by (simp add: pn_bytes_def bs)
qed (simp add: pn_bytes_def)

lemma GetHex_eq: "GetHex pn = concat (map hex_byte (rev (pn_bytes pn)))"
proof -
  have "map (\<lambda>i. pn_bytes pn ! (length (pn_bytes pn) - i - 1)) [0..<length (pn_bytes pn)] = rev (pn_bytes pn)"
    by (rule nth_equalityI) (simp_all add: rev_nth)
  then have "map hex_byte (map (\<lambda>i. pn_bytes pn ! (length (pn_bytes pn) - i - 1)) [0..<length (pn_bytes pn)])
      = map hex_byte (rev (pn_bytes pn))"
    by (simp only:)
  then show ?thesis
    by (simp only: GetHex_def map_map comp_def)
qed

lemma fill_hex_bytes:
  "fill_hex (length bs) (map phexdigit (rev (concat (map hex_byte (rev bs))))) = bs"
proof (induction bs)
  case (Cons c bs)
  have "map phexdigit (rev (concat (map hex_byte (rev (c # bs)))))
      = (c AND 15) # drop_bit 4 c # map phexdigit (rev (concat (map hex_byte (rev bs))))"
    by (simp add: hex_byte_def hexc_digit(2) nibble_less)
  with Cons show ?case
    by (simp only: length_Cons fill_hex.simps nibbles_join)
qed simp

definition is_hex :: "char \<Rightarrow> bool" where
  "is_hex c \<longleftrightarrow> (\<exists>n<16. c = hexc n)"

lemma is_hex_GetHex: "\<forall>c\<in>set (GetHex pn). is_hex c"
proof -
  have "is_hex (hexc n)" if "n < 16" for n
    using that by (auto simp: is_hex_def)
  then show ?thesis
    by (auto simp: GetHex_eq hex_byte_def nibble_less)
qed

lemma is_hexD:
  assumes "is_hex c"
  shows "phexdigit c \<noteq> 0 \<or> c = CHR ''0''" "\<not> isspace c" "c \<noteq> CHR ''x''" "c \<noteq> CHR ''X''" "c \<noteq> CHR 0x00"
proof -
  obtain n where n: "n < 16" "c = hexc n"
    using assms by (auto simp: is_hex_def)
  show "phexdigit c \<noteq> 0 \<or> c = CHR ''0''" "\<not> isspace c" "c \<noteq> CHR ''x''" "c \<noteq> CHR ''X''" "c \<noteq> CHR 0x00"
    unfolding n(2) by (fact hexc_digit [OF n(1)])+
qed

lemma SetHex_digits:
  assumes "\<forall>c\<in>set s. is_hex c"
  shows "SetHex w s = (length s, bytes_pn (fill_hex (w * 4) (map phexdigit (rev s))))"
proof -
  have t: "takeWhile (\<lambda>c. c \<noteq> CHR 0x00) s = s"
    unfolding takeWhile_eq_all_conv using assms is_hexD(5) by blast
  have h: "takeWhile (\<lambda>c. phexdigit c \<noteq> 0 \<or> c = CHR ''0'') s = s"
    unfolding takeWhile_eq_all_conv using assms is_hexD(1) by blast
  have d: "dropWhile isspace s = s"
    using assms by (cases s) (simp_all add: is_hexD(2))
  have x: "skip_0x s = s"
    using assms by (simp add: skip_0x_def is_hexD(3,4) split: list.split)
  show ?thesis
    by (simp only: SetHex_def Let_def t d x h diff_self_eq_0 add_0)
qed

lemma length_GetHex: "length (GetHex pn) = 8 * length pn"
proof -
  have "length (concat (map hex_byte bs)) = 2 * length bs" for bs
    by (induction bs) (simp_all add: hex_byte_def)
  then show ?thesis by (simp add: GetHex_eq)
qed

lemma SetHex_GetHex: "SetHex (length pn) (GetHex pn) = (8 * length pn, pn)"
proof -
  have "fill_hex (length pn * 4) (map phexdigit (rev (GetHex pn))) = pn_bytes pn"
    using fill_hex_bytes [of "pn_bytes pn"] by (simp add: GetHex_eq mult.commute)
  then show ?thesis
    by (simp only: SetHex_digits [OF is_hex_GetHex] length_GetHex bytes_pn_pn_bytes)
qed

lemma bu_val_uint256_h224:
  "length l = 7 \<Longrightarrow> bu_val (uint256_h224 h l) = bu_val l + 2 ^ 224 * uint h"
  using map_nth [of l] by (simp add: uint256_h224_def bu_val_snoc)

lemma uint224_of_uint256_h224: "length l = 7 \<Longrightarrow> uint224_of_256 (uint256_h224 h l) = l"
  by (rule nth_equalityI) (simp_all add: uint256_h224_def uint224_of_256_def nth_append)

section \<open>The 256-bit word of an array of eight limbs\<close>

text \<open>The other components hold hashes, keys and identifiers as 256-bit words. The operators on limbs
  refine the word operations along \<open>u256\<close>.\<close>

definition u256 :: "limbs \<Rightarrow> uint256" where
  "u256 pn = word_of_int (bu_val pn)"

lemma uint_u256: "length pn = 8 \<Longrightarrow> uint (u256 pn) = bu_val pn"
  using bu_val_less [of pn] by (simp add: u256_def uint_word_of_int)

lemma u256_inject: "length a = 8 \<Longrightarrow> length b = 8 \<Longrightarrow> u256 a = u256 b \<longleftrightarrow> a = b"
  by (metis uint_u256 bu_val_inject)

lemma u256_add: "length a = 8 \<Longrightarrow> length b = 8 \<Longrightarrow> u256 (op_add a b) = u256 a + u256 b"
  by (simp add: word_uint_eq_iff uint_u256 bu_val_op_add uint_word_ariths)

lemma u256_sub: "length a = 8 \<Longrightarrow> length b = 8 \<Longrightarrow> u256 (op_sub a b) = u256 a - u256 b"
proof -
  assume l: "length a = 8" "length b = 8"
  then have "b \<noteq> []" by auto
  with l show ?thesis
    by (simp add: word_uint_eq_iff uint_u256 bu_val_op_sub uint_word_ariths)
qed

lemma bit_u256: "bit (u256 pn) n \<longleftrightarrow> n < 256 \<and> n div 32 < length pn \<and> bit (pn ! (n div 32)) (n mod 32)"
  by (simp add: u256_def bit_simps bit_bu_val)

lemma u256_bitwise:
  assumes "length a = 8" "length b = 8"
  shows "u256 (op_xor a b) = u256 a XOR u256 b" "u256 (op_and a b) = u256 a AND u256 b"
    "u256 (op_or a b) = u256 a OR u256 b"
  using assms by (auto intro!: bit_eqI simp: u256_def bu_val_bitwise bit_simps)

lemma u256_shifts:
  assumes "length a = 8"
  shows "u256 (op_shl a s) = push_bit s (u256 a)" "u256 (op_shr a s) = drop_bit s (u256 a)"
proof -
  show "u256 (op_shl a s) = push_bit s (u256 a)"
    using assms by (intro bit_eqI) (auto simp: u256_def bu_val_op_shl bit_simps)
  have "bit (bu_val a) n \<Longrightarrow> n < 256" for n
    using assms by (auto simp: bit_bu_val)
  then show "u256 (op_shr a s) = drop_bit s (u256 a)"
    by (intro bit_eqI) (auto simp: u256_def bu_val_op_shr bit_simps)
qed

lemma u256_order:
  assumes "length a = 8" "length b = 8"
  shows "op_lt a b \<longleftrightarrow> u256 a < u256 b" "op_eq a b \<longleftrightarrow> u256 a = u256 b"
  using assms by (simp_all add: bu_val_compare word_less_def uint_u256 op_eq_iff u256_inject)

lemma nth_pn_bytes: "i < 4 * length pn \<Longrightarrow> pn_bytes pn ! i = le_bytes 4 (pn ! (i div 4)) ! (i mod 4)"
proof (induction pn arbitrary: i)
  case (Cons x pn)
  show ?case
  proof (cases "i < 4")
    case False
    then obtain k where k: "i = 4 + k" by (metis le_Suc_ex not_less)
    then have "i div 4 = Suc (k div 4)" "i mod 4 = k mod 4" by simp_all
    with Cons k show ?thesis by (simp add: pn_bytes_def nth_append)
  qed (simp add: pn_bytes_def nth_append)
qed simp

lemma le_bytes_u256:
  assumes "length pn = 8"
  shows "le_bytes 32 (u256 pn) = pn_bytes pn"
proof (rule nth_equalityI)
  fix i
  assume "i < length (le_bytes 32 (u256 pn))"
  then have i: "i < 32" by simp
  show "le_bytes 32 (u256 pn) ! i = pn_bytes pn ! i"
  proof (rule bit_word_eqI)
    fix r
    assume "r < LENGTH(8)"
    then have r: "r < 8" by simp
    have n: "8 * i + r = 32 * (i div 4) + (8 * (i mod 4) + r)" "8 * (i mod 4) + r < 32"
      using r mult_div_mod_eq [of 4 i] by linarith+
    then show "bit (le_bytes 32 (u256 pn) ! i) r = bit (pn_bytes pn ! i) r"
      using i r assms limb_index [OF n]
      by (simp add: nth_le_bytes nth_pn_bytes bit_simps bit_u256)
  qed
qed (simp add: assms)

section \<open>Properties\<close>

text \<open>C2: on arrays of eight limbs the operators are those of 256-bit words: sums, differences,
  bitwise operations, shifts, the order and equality commute with the word the array stands for,
  and its bytes in memory are the little-endian bytes of the word.\<close>

theorem uint256_refines_word:
  assumes "length a = 8" "length b = 8"
  shows "u256 (op_add a b) = u256 a + u256 b \<and> u256 (op_sub a b) = u256 a - u256 b
    \<and> u256 (op_xor a b) = u256 a XOR u256 b \<and> u256 (op_and a b) = u256 a AND u256 b
    \<and> u256 (op_or a b) = u256 a OR u256 b
    \<and> u256 (op_shl a s) = push_bit s (u256 a) \<and> u256 (op_shr a s) = drop_bit s (u256 a)
    \<and> (op_lt a b \<longleftrightarrow> u256 a < u256 b) \<and> (op_eq a b \<longleftrightarrow> u256 a = u256 b)
    \<and> pn_bytes a = le_bytes 32 (u256 a)"
  using assms
  by (simp add: u256_add u256_sub u256_bitwise u256_shifts u256_order le_bytes_u256)

theorem uint256_refines_word_witness:
  "u256 (op_add [1, 0, 0, 0, 0, 0, 0, 0] [2, 0, 0, 0, 0, 0, 0, 0]) = 3"
  using uint256_refines_word [of "[1, 0, 0, 0, 0, 0, 0, 0]" "[2, 0, 0, 0, 0, 0, 0, 0]" 0]
  by (simp add: u256_def bu_val_Cons)

text \<open>C3: reading back the hexadecimal text of an integer gives the integer, and all of the text is
  consumed; a byte string survives \<^verbatim>\<open>ToHexString\<close> and \<^verbatim>\<open>ParseHexString\<close>, with the 64-byte blocks of
  the printer invisible in the result.\<close>

theorem hex_roundtrip:
  "SetHex (length pn) (GetHex pn) = (8 * length pn, pn) \<and> ParseHexString (ToHexString vch) = vch"
  by (simp add: SetHex_GetHex ParseHexString_ToHexString)

end
