(* ===== verification/Crc24q.thy ===== *)
theory Crc24q
  imports Prelude
begin

text \<open>
  The checksum of \<^verbatim>\<open>src/crypto/crc24q.cpp\<close>: the table-driven loop, a bit-by-bit reference with the
  polynomial named in \<^verbatim>\<open>crc24q.h\<close>, the proof that the two agree, and what the checksum detects:
  appending the three checksum bytes makes the checksum zero, and two messages that differ only
  in a window of at most three bytes have different checksums.
\<close>

unbundle bit_operations_syntax

section \<open>The table and the loop\<close>

definition crc24q_table_lo :: "uint32 list" where
  "crc24q_table_lo = [
    0x00000000, 0x01864CFB, 0x028AD50D, 0x030C99F6, 0x0493E6E1, 0x0515AA1A, 0x061933EC, 0x079F7F17,
    0x08A18139, 0x0927CDC2, 0x0A2B5434, 0x0BAD18CF, 0x0C3267D8, 0x0DB42B23, 0x0EB8B2D5, 0x0F3EFE2E,
    0x10C54E89, 0x11430272, 0x124F9B84, 0x13C9D77F, 0x1456A868, 0x15D0E493, 0x16DC7D65, 0x175A319E,
    0x1864CFB0, 0x19E2834B, 0x1AEE1ABD, 0x1B685646, 0x1CF72951, 0x1D7165AA, 0x1E7DFC5C, 0x1FFBB0A7,
    0x200CD1E9, 0x218A9D12, 0x228604E4, 0x2300481F, 0x249F3708, 0x25197BF3, 0x2615E205, 0x2793AEFE,
    0x28AD50D0, 0x292B1C2B, 0x2A2785DD, 0x2BA1C926, 0x2C3EB631, 0x2DB8FACA, 0x2EB4633C, 0x2F322FC7,
    0x30C99F60, 0x314FD39B, 0x32434A6D, 0x33C50696, 0x345A7981, 0x35DC357A, 0x36D0AC8C, 0x3756E077,
    0x38681E59, 0x39EE52A2, 0x3AE2CB54, 0x3B6487AF, 0x3CFBF8B8, 0x3D7DB443, 0x3E712DB5, 0x3FF7614E,
    0x4019A3D2, 0x419FEF29, 0x429376DF, 0x43153A24, 0x448A4533, 0x450C09C8, 0x4600903E, 0x4786DCC5,
    0x48B822EB, 0x493E6E10, 0x4A32F7E6, 0x4BB4BB1D, 0x4C2BC40A, 0x4DAD88F1, 0x4EA11107, 0x4F275DFC,
    0x50DCED5B, 0x515AA1A0, 0x52563856, 0x53D074AD, 0x544F0BBA, 0x55C94741, 0x56C5DEB7, 0x5743924C,
    0x587D6C62, 0x59FB2099, 0x5AF7B96F, 0x5B71F594, 0x5CEE8A83, 0x5D68C678, 0x5E645F8E, 0x5FE21375,
    0x6015723B, 0x61933EC0, 0x629FA736, 0x6319EBCD, 0x648694DA, 0x6500D821, 0x660C41D7, 0x678A0D2C,
    0x68B4F302, 0x6932BFF9, 0x6A3E260F, 0x6BB86AF4, 0x6C2715E3, 0x6DA15918, 0x6EADC0EE, 0x6F2B8C15,
    0x70D03CB2, 0x71567049, 0x725AE9BF, 0x73DCA544, 0x7443DA53, 0x75C596A8, 0x76C90F5E, 0x774F43A5,
    0x7871BD8B, 0x79F7F170, 0x7AFB6886, 0x7B7D247D, 0x7CE25B6A, 0x7D641791, 0x7E688E67, 0x7FEEC29C]"

definition crc24q_table_hi :: "uint32 list" where
  "crc24q_table_hi = [
    0x803347A4, 0x81B50B5F, 0x82B992A9, 0x833FDE52, 0x84A0A145, 0x8526EDBE, 0x862A7448, 0x87AC38B3,
    0x8892C69D, 0x89148A66, 0x8A181390, 0x8B9E5F6B, 0x8C01207C, 0x8D876C87, 0x8E8BF571, 0x8F0DB98A,
    0x90F6092D, 0x917045D6, 0x927CDC20, 0x93FA90DB, 0x9465EFCC, 0x95E3A337, 0x96EF3AC1, 0x9769763A,
    0x98578814, 0x99D1C4EF, 0x9ADD5D19, 0x9B5B11E2, 0x9CC46EF5, 0x9D42220E, 0x9E4EBBF8, 0x9FC8F703,
    0xA03F964D, 0xA1B9DAB6, 0xA2B54340, 0xA3330FBB, 0xA4AC70AC, 0xA52A3C57, 0xA626A5A1, 0xA7A0E95A,
    0xA89E1774, 0xA9185B8F, 0xAA14C279, 0xAB928E82, 0xAC0DF195, 0xAD8BBD6E, 0xAE872498, 0xAF016863,
    0xB0FAD8C4, 0xB17C943F, 0xB2700DC9, 0xB3F64132, 0xB4693E25, 0xB5EF72DE, 0xB6E3EB28, 0xB765A7D3,
    0xB85B59FD, 0xB9DD1506, 0xBAD18CF0, 0xBB57C00B, 0xBCC8BF1C, 0xBD4EF3E7, 0xBE426A11, 0xBFC426EA,
    0xC02AE476, 0xC1ACA88D, 0xC2A0317B, 0xC3267D80, 0xC4B90297, 0xC53F4E6C, 0xC633D79A, 0xC7B59B61,
    0xC88B654F, 0xC90D29B4, 0xCA01B042, 0xCB87FCB9, 0xCC1883AE, 0xCD9ECF55, 0xCE9256A3, 0xCF141A58,
    0xD0EFAAFF, 0xD169E604, 0xD2657FF2, 0xD3E33309, 0xD47C4C1E, 0xD5FA00E5, 0xD6F69913, 0xD770D5E8,
    0xD84E2BC6, 0xD9C8673D, 0xDAC4FECB, 0xDB42B230, 0xDCDDCD27, 0xDD5B81DC, 0xDE57182A, 0xDFD154D1,
    0xE026359F, 0xE1A07964, 0xE2ACE092, 0xE32AAC69, 0xE4B5D37E, 0xE5339F85, 0xE63F0673, 0xE7B94A88,
    0xE887B4A6, 0xE901F85D, 0xEA0D61AB, 0xEB8B2D50, 0xEC145247, 0xED921EBC, 0xEE9E874A, 0xEF18CBB1,
    0xF0E37B16, 0xF16537ED, 0xF269AE1B, 0xF3EFE2E0, 0xF4709DF7, 0xF5F6D10C, 0xF6FA48FA, 0xF77C0401,
    0xF842FA2F, 0xF9C4B6D4, 0xFAC82F22, 0xFB4E63D9, 0xFCD11CCE, 0xFD575035, 0xFE5BC9C3, 0xFFDD8538]"

definition crc24q_table :: "uint32 list" where
  "crc24q_table = crc24q_table_lo @ crc24q_table_hi"

definition crc24q_step :: "uint8 \<Rightarrow> uint32 \<Rightarrow> uint32" where
  "crc24q_step b crc =
    push_bit 8 crc XOR crc24q_table ! unat ((ucast b :: uint32) XOR (0xFF AND drop_bit 16 crc))"

definition crc24q :: "bytes \<Rightarrow> uint32" where
  "crc24q data = fold crc24q_step data 0 AND 0x00ffffff"

section \<open>Bit-by-bit reference\<close>

text \<open>One step of the division by the generator polynomial, whose coefficients below degree 24 are
  \<open>0x864CFB\<close>, on a remainder of 24 bits.\<close>

definition crc_shift :: "uint32 \<Rightarrow> uint32" where
  "crc_shift c = take_bit 24 (push_bit 1 c) XOR (if bit c 23 then 0x864CFB else 0)"

definition crc_byte :: "uint8 \<Rightarrow> uint32 \<Rightarrow> uint32" where
  "crc_byte b c = (crc_shift ^^ 8) (c XOR push_bit 16 (ucast b))"

definition crc_ref :: "bytes \<Rightarrow> uint32" where
  "crc_ref data = fold crc_byte data 0"


section \<open>The reference step is linear and injective\<close>

lemma bit_crc_shift:
  "bit (crc_shift c) n \<longleftrightarrow> ((0 < n \<and> n < 24 \<and> bit c (n - 1)) \<noteq> (bit c 23 \<and> bit (0x864CFB :: uint32) n))"
  unfolding crc_shift_def bit_xor_iff bit_take_bit_iff bit_push_bit_iff
  by (cases "bit c 23") auto

lemma crc_shift_xor: "crc_shift (c XOR d) = crc_shift c XOR crc_shift d"
  by (rule bit_eqI) (auto simp: bit_crc_shift bit_xor_iff)

lemma crc_shift_0 [simp]: "crc_shift 0 = 0"
  by (simp add: crc_shift_def)

lemma crc_shifts_xor: "(crc_shift ^^ n) (c XOR d) = (crc_shift ^^ n) c XOR (crc_shift ^^ n) d"
  by (induction n) (simp_all add: crc_shift_xor)

lemma crc_shifts_0 [simp]: "(crc_shift ^^ n) 0 = 0"
  by (induction n) simp_all

lemma crc_shift_24 [simp]: "take_bit 24 (crc_shift c) = crc_shift c"
  unfolding crc_shift_def take_bit_xor by simp

lemma crc_shifts_24 [simp]: "take_bit 24 c = c \<Longrightarrow> take_bit 24 ((crc_shift ^^ n) c) = (crc_shift ^^ n) c"
  by (cases n) simp_all

lemma crc_shift_eq_0:
  assumes "crc_shift c = 0" "take_bit 24 c = c"
  shows "c = 0"
proof (rule bit_eqI)
  fix n
  have "\<not> bit c 23"
    using bit_crc_shift [of c 0] assms(1) by simp
  moreover have "\<not> bit c n" if "n < 23"
    using bit_crc_shift [of c "Suc n"] assms(1) calculation that by simp
  moreover have "\<not> bit c n" if "n \<ge> 24"
    using bit_take_bit_iff [of 24 c n] assms(2) that by simp
  ultimately show "bit c n \<longleftrightarrow> bit (0 :: uint32) n"
    by (cases "n < 23"; cases "n = 23") auto
qed

lemma crc_shifts_eq_0:
  "(crc_shift ^^ n) c = 0 \<Longrightarrow> take_bit 24 c = c \<Longrightarrow> c = 0"
  by (induction n) (auto dest: crc_shift_eq_0)

lemma crc_shifts_inject:
  assumes "(crc_shift ^^ n) c = (crc_shift ^^ n) d" "take_bit 24 c = c" "take_bit 24 d = d"
  shows "c = d"
proof -
  have "(crc_shift ^^ n) (c XOR d) = 0"
    using assms(1) by (simp add: crc_shifts_xor)
  moreover have "take_bit 24 (c XOR d) = c XOR d"
    using assms(2,3) by (simp only: take_bit_xor)
  ultimately have "c XOR d = 0" by (rule crc_shifts_eq_0)
  then have "bit (c XOR d) i \<longleftrightarrow> False" for i by simp
  then show ?thesis by (intro bit_eqI) (simp only: bit_xor_iff, blast)
qed

lemma crc_shift_push: "take_bit 23 c = c \<Longrightarrow> crc_shift c = push_bit 1 c"
proof (rule bit_eqI)
  fix n
  assume c: "take_bit 23 c = c"
  have "bit c i \<Longrightarrow> i < 23" for i
    using bit_take_bit_iff [of 23 c i] unfolding c by blast
  then show "bit (crc_shift c) n \<longleftrightarrow> bit (push_bit 1 c) n" if "possible_bit TYPE(32 word) n"
    using that unfolding bit_crc_shift bit_push_bit_iff by fastforce
qed

lemma crc_shifts_push:
  assumes "n \<le> 8" "take_bit 16 c = c"
  shows "(crc_shift ^^ n) c = push_bit n c"
  using assms(1)
proof (induction n)
  case (Suc n)
  then have "(crc_shift ^^ Suc n) c = crc_shift (push_bit n c)"
    by simp
  also have "\<dots> = push_bit 1 (push_bit n c)"
  proof (rule crc_shift_push)
    have "min (23 - n) 16 = 16"
      using Suc.prems by simp
    then have "take_bit (23 - n) c = c"
      using take_bit_take_bit [of "23 - n" 16 c] by (simp only: assms(2))
    then show "take_bit 23 (push_bit n c) = push_bit n c"
      by (simp only: take_bit_push_bit)
  qed
  finally show ?case by (simp only: push_bit_push_bit plus_1_eq_Suc)
qed simp

section \<open>The table holds the reference remainders\<close>

fun evens :: "'a list \<Rightarrow> 'a list" where
  "evens (x # y # xs) = x # evens xs"
| "evens xs = xs"

fun odds :: "'a list \<Rightarrow> 'a list" where
  "odds (x # y # xs) = y # odds xs"
| "odds xs = []"

lemma nth_evens: "2 * i + 1 < length xs \<Longrightarrow> evens xs ! i = xs ! (2 * i)"
  by (induction xs arbitrary: i rule: evens.induct) (auto simp: nth_Cons split: nat.splits)

lemma nth_odds: "2 * i + 1 < length xs \<Longrightarrow> odds xs ! i = xs ! (2 * i + 1)"
  by (induction xs arbitrary: i rule: odds.induct) (auto simp: nth_Cons split: nat.splits)

lemma crc24q_table_evens:
  "map (take_bit 24) (evens crc24q_table_lo @ evens crc24q_table_hi) = map (\<lambda>c. crc_shift (take_bit 24 c)) crc24q_table_lo"
  by (simp add: crc24q_table_lo_def crc24q_table_hi_def crc_shift_def)

lemma crc24q_table_odds:
  "map (take_bit 24) (odds crc24q_table_lo @ odds crc24q_table_hi)
    = map (\<lambda>c. crc_shift (take_bit 24 c) XOR 0x864CFB) crc24q_table_lo"
  by (simp add: crc24q_table_lo_def crc24q_table_hi_def crc_shift_def)

lemma length_crc24q_table: "length crc24q_table_lo = 128" "length crc24q_table_hi = 128"
  by (simp_all add: crc24q_table_lo_def crc24q_table_hi_def)

lemma evens_append: "even (length xs) \<Longrightarrow> evens (xs @ ys) = evens xs @ evens ys"
  by (induction xs rule: evens.induct) simp_all

lemma odds_append: "even (length xs) \<Longrightarrow> odds (xs @ ys) = odds xs @ odds ys"
  by (induction xs rule: odds.induct) simp_all

lemma length_evens_odds: "even (length xs) \<Longrightarrow> length (evens xs) = length xs div 2"
  "even (length xs) \<Longrightarrow> length (odds xs) = length xs div 2"
  by (induction xs rule: evens.induct) simp_all

lemma crc24q_table_double:
  assumes "i < 128"
  shows "take_bit 24 (crc24q_table ! (2 * i)) = crc_shift (take_bit 24 (crc24q_table ! i))"
    and "take_bit 24 (crc24q_table ! (2 * i + 1)) = crc_shift (take_bit 24 (crc24q_table ! i)) XOR 0x864CFB"
proof -
  have e: "evens crc24q_table = evens crc24q_table_lo @ evens crc24q_table_hi"
    and o: "odds crc24q_table = odds crc24q_table_lo @ odds crc24q_table_hi"
    by (simp_all add: crc24q_table_def evens_append odds_append length_crc24q_table)
  have len: "length crc24q_table = 256" "length (evens crc24q_table) = 128" "length (odds crc24q_table) = 128"
    by (simp_all add: length_evens_odds crc24q_table_def length_crc24q_table)
  have lo: "crc24q_table ! i = crc24q_table_lo ! i"
    using assms by (simp add: crc24q_table_def nth_append length_crc24q_table)
  have "map (take_bit 24) (evens crc24q_table) ! i = map (\<lambda>c. crc_shift (take_bit 24 c)) crc24q_table_lo ! i"
    by (simp only: e crc24q_table_evens)
  then show "take_bit 24 (crc24q_table ! (2 * i)) = crc_shift (take_bit 24 (crc24q_table ! i))"
    using assms by (simp only: nth_map len length_crc24q_table lo) (simp add: nth_evens len)
  have "map (take_bit 24) (odds crc24q_table) ! i
      = map (\<lambda>c. crc_shift (take_bit 24 c) XOR 0x864CFB) crc24q_table_lo ! i"
    by (simp only: o crc24q_table_odds)
  then show "take_bit 24 (crc24q_table ! (2 * i + 1)) = crc_shift (take_bit 24 (crc24q_table ! i)) XOR 0x864CFB"
    using assms by (simp only: nth_map len length_crc24q_table lo) (simp add: nth_odds len)
qed

lemma crc_rem_1: "(crc_shift ^^ 8) (push_bit 16 1) = 0x864CFB"
proof -
  have "(f ^^ 8) x = f (f (f (f (f (f (f (f x)))))))" for f :: "uint32 \<Rightarrow> uint32" and x
    by (simp add: eval_nat_numeral)
  then show ?thesis by (simp add: crc_shift_def)
qed

lemma crc_rem_double:
  assumes "j < 128"
  shows "(crc_shift ^^ 8) (push_bit 16 (of_nat (2 * j))) = crc_shift ((crc_shift ^^ 8) (push_bit 16 (of_nat j)))"
proof -
  have "take_bit 7 (of_nat j :: uint32) = of_nat j"
    using assms by (simp add: take_bit_of_nat take_bit_nat_eq_self)
  then have "take_bit 23 (push_bit 16 (of_nat j :: uint32)) = push_bit 16 (of_nat j)"
    by (simp only: take_bit_push_bit) simp
  then have "crc_shift (push_bit 16 (of_nat j)) = push_bit 1 (push_bit 16 (of_nat j))"
    by (rule crc_shift_push)
  also have "\<dots> = push_bit 16 (of_nat (2 * j))"
    by (simp add: push_bit_eq_mult)
  finally show ?thesis
    by (simp only: funpow_swap1)
qed

lemma crc24q_table_rem:
  "i < 256 \<Longrightarrow> take_bit 24 (crc24q_table ! i) = (crc_shift ^^ 8) (push_bit 16 (of_nat i))"
proof (induction i rule: less_induct)
  case (less i)
  show ?case
  proof (cases "i = 0")
    case True
    then show ?thesis by (simp add: crc24q_table_def crc24q_table_lo_def)
  next
    case False
    define j where "j = i div 2"
    have j: "j < 128" "j < i" using False less.prems by (auto simp: j_def)
    have IH: "take_bit 24 (crc24q_table ! j) = (crc_shift ^^ 8) (push_bit 16 (of_nat j))"
      using j by (intro less.IH) auto
    consider "i = 2 * j" | "i = 2 * j + 1" by (auto simp: j_def) linarith
    then show ?thesis
    proof cases
      case 1
      then show ?thesis
        by (simp only: crc24q_table_double(1) [OF j(1)] IH crc_rem_double [OF j(1)])
    next
      case 2
      have "(of_nat i :: uint32) = of_nat (2 * j) XOR 1"
        unfolding 2 by (simp add: even_xor_iff xor_one_eq)
      then have "push_bit 16 (of_nat i :: uint32) = push_bit 16 (of_nat (2 * j)) XOR push_bit 16 1"
        by (simp only: push_bit_xor)
      then show ?thesis
        by (simp only: 2 crc24q_table_double(2) [OF j(1)] IH crc_rem_double [OF j(1)] crc_shifts_xor crc_rem_1)
    qed
  qed
qed

section \<open>The table-driven loop computes the reference\<close>

lemma crc24q_step_ref: "take_bit 24 (crc24q_step b crc) = crc_byte b (take_bit 24 crc)"
proof -
  define i where "i = (ucast b :: uint32) XOR (0xFF AND drop_bit 16 crc)"
  have m: "0xFF AND drop_bit 16 crc = take_bit 8 (drop_bit 16 crc)"
    by (simp add: take_bit_eq_mask mask_eq_exp_minus_1 and.commute)
  have "take_bit 8 i = i"
    unfolding i_def m by (rule bit_eqI) (auto simp: bit_simps dest: bit_imp_le_length)
  then have "take_bit 8 (unat i) = unat i"
    by (simp only: flip: unsigned_take_bit_eq)
  then have i: "unat i < 256"
    using take_bit_nat_less_exp [of 8 "unat i"] by simp
  have split: "take_bit 24 crc XOR push_bit 16 (ucast b) = take_bit 16 crc XOR push_bit 16 i"
    unfolding i_def m by (rule bit_eqI) (auto simp: bit_simps dest: bit_imp_le_length)
  have "take_bit 24 (crc24q_step b crc) = push_bit 8 (take_bit 16 crc) XOR take_bit 24 (crc24q_table ! unat i)"
    unfolding crc24q_step_def i_def [symmetric] take_bit_xor take_bit_push_bit by simp
  also have "\<dots> = (crc_shift ^^ 8) (take_bit 16 crc XOR push_bit 16 i)"
    unfolding crc24q_table_rem [OF i] crc_shifts_xor
    by (simp add: crc_shifts_push)
  finally show ?thesis
    by (simp only: crc_byte_def split)
qed

lemma crc24q_fold_ref: "take_bit 24 (fold crc24q_step data crc) = fold crc_byte data (take_bit 24 crc)"
  by (induction data arbitrary: crc) (simp_all add: crc24q_step_ref)

lemma crc24q_eq_ref: "crc24q data = crc_ref data"
proof -
  have "crc24q data = take_bit 24 (fold crc24q_step data 0)"
    by (simp add: crc24q_def take_bit_eq_mask mask_eq_exp_minus_1)
  then show ?thesis
    by (simp only: crc24q_fold_ref crc_ref_def take_bit_of_0)
qed

section \<open>What the checksum detects\<close>

text \<open>Up to three bytes as the top bits of a 24-bit register, first byte highest.\<close>

primrec be24 :: "bytes \<Rightarrow> uint32" where
  "be24 [] = 0"
| "be24 (e # es) = push_bit 16 (ucast e) XOR drop_bit 8 (be24 es)"

lemma bit_be24:
  "length es \<le> 3 \<Longrightarrow> bit (be24 es) n \<longleftrightarrow>
    n < 24 \<and> (23 - n) div 8 < length es \<and> bit (es ! ((23 - n) div 8)) (n mod 8)"
proof (induction es arbitrary: n)
  case (Cons e es)
  have e: "bit (be24 (e # es)) n \<longleftrightarrow> (16 \<le> n \<and> n < 32 \<and> bit e (n - 16)) \<noteq> bit (be24 es) (8 + n)"
    unfolding be24.simps bit_xor_iff bit_push_bit_iff bit_drop_bit_eq bit_ucast_iff comp_def
    by auto
  have IH: "bit (be24 es) (8 + n) \<longleftrightarrow>
      8 + n < 24 \<and> (23 - (8 + n)) div 8 < length es \<and> bit (es ! ((23 - (8 + n)) div 8)) ((8 + n) mod 8)"
    using Cons.prems by (intro Cons.IH) simp
  consider "n < 16" | "16 \<le> n" "n < 24" | "24 \<le> n" by linarith
  then show ?case
  proof cases
    case 1
    then have n: "23 - n = 8 + (23 - (8 + n))" by linarith
    have d: "(23 - n) div 8 = Suc ((23 - (8 + n)) div 8)"
      unfolding n by simp
    show ?thesis
      unfolding e IH d using 1 by simp
  next
    case 2
    then obtain m where m: "n = 16 + m" "m < 8"
      using le_Suc_ex [of 16 n] by auto
    have d: "(23 - n) div 8 = 0" "n mod 8 = n - 16"
      unfolding m(1) using m(2) mod_mult_self1 [of m 2 8] by (simp_all add: add.commute)
    show ?thesis
      unfolding e IH d using 2 by simp
  next
    case 3
    then show ?thesis
      unfolding e IH using bit_imp_le_length [of e "n - 16"] by auto
  qed
qed simp

lemma take_be24 [simp]: "length es \<le> 3 \<Longrightarrow> take_bit 24 (be24 es) = be24 es"
  by (rule bit_eqI) (auto simp: bit_take_bit_iff bit_be24)

lemma drop_be24: "length es \<le> 3 \<Longrightarrow> take_bit 16 (drop_bit 8 (be24 es)) = drop_bit 8 (be24 es)"
  by (rule bit_eqI) (auto simp: bit_take_bit_iff bit_drop_bit_eq bit_be24)

lemma push_drop_be24: "length es \<le> 2 \<Longrightarrow> push_bit 8 (drop_bit 8 (be24 es)) = be24 es"
proof (rule bit_eqI)
  fix n
  assume es: "length es \<le> 2"
  show "bit (push_bit 8 (drop_bit 8 (be24 es))) n \<longleftrightarrow> bit (be24 es) n"
  proof (cases "8 \<le> n")
    case True
    then show ?thesis
      using bit_imp_le_length [of "be24 es" n]
      by (auto simp: bit_push_bit_iff bit_drop_bit_eq)
  next
    case False
    then have "2 \<le> (23 - n) div 8" by linarith
    with False es show ?thesis
      by (simp add: bit_push_bit_iff bit_be24)
  qed
qed

lemma crc_byte_be24:
  "length es \<le> 3 \<Longrightarrow> fold crc_byte es c = (crc_shift ^^ (8 * length es)) (c XOR be24 es)"
proof (induction es arbitrary: c)
  case (Cons e es)
  have "be24 es = (crc_shift ^^ 8) (drop_bit 8 (be24 es))"
    using Cons.prems by (simp add: crc_shifts_push drop_be24 push_drop_be24)
  then have "crc_byte e c XOR be24 es = (crc_shift ^^ 8) (c XOR push_bit 16 (ucast e) XOR drop_bit 8 (be24 es))"
    unfolding crc_byte_def by (subst (1) \<open>be24 es = _\<close>) (simp only: crc_shifts_xor xor.assoc)
  moreover have "8 * length (e # es) = 8 * length es + 8" by simp
  ultimately show ?case
    using Cons by (simp only: fold_simps comp_apply funpow_add be24.simps length_Cons)
qed simp

lemma be24_inject:
  assumes "length a = length b" "length b \<le> 3" "be24 a = be24 b"
  shows "a = b"
proof (rule nth_equalityI)
  fix i
  assume i: "i < length a"
  show "a ! i = b ! i"
  proof (rule bit_eqI)
    fix n
    assume "possible_bit TYPE(8 word) n"
    then have n: "n < 8" by simp
    define k where "k = 16 - 8 * i + n"
    have i2: "i \<le> 2" using i assms(1,2) by simp
    have kd: "23 - k = 8 * i + (7 - n)" and km: "k = 8 * (2 - i) + n" and k1: "k < 24"
      using i2 n unfolding k_def by linarith+
    have "(8 * i + (7 - n)) div 8 = i" "(8 * (2 - i) + n) mod 8 = n"
      using n by simp_all
    then have k: "(23 - k) div 8 = i" "k mod 8 = n"
      by (simp only: kd, simp only: km)
    show "bit (a ! i) n \<longleftrightarrow> bit (b ! i) n"
      using bit_be24 [of a k] bit_be24 [of b k] assms k k1 i by simp
  qed
qed fact

lemma xor_left_cancel: "c XOR x = c XOR y \<Longrightarrow> x = y" for c x y :: "'a::len word"
  by (auto simp: bit_eq_iff bit_xor_iff)

lemma crc_in_24:
  "take_bit 24 c = c \<Longrightarrow> take_bit 24 (c XOR push_bit 16 (ucast (b :: uint8))) = c XOR push_bit 16 (ucast b)"
  for c :: uint32
  using take_be24 [of "[b]"] by (simp add: take_bit_xor)

lemma crc_byte_24: "take_bit 24 c = c \<Longrightarrow> take_bit 24 (crc_byte b c) = crc_byte b c"
  unfolding crc_byte_def by (rule crc_shifts_24) (rule crc_in_24)

lemma crc_fold_24: "take_bit 24 c = c \<Longrightarrow> take_bit 24 (fold crc_byte bs c) = fold crc_byte bs c"
  by (induction bs arbitrary: c) (simp_all add: crc_byte_24)

lemma crc_fold_inject:
  assumes "fold crc_byte bs c = fold crc_byte bs d" "take_bit 24 c = c" "take_bit 24 d = d"
  shows "c = d"
  using assms
proof (induction bs arbitrary: c d)
  case (Cons b bs)
  have "fold crc_byte bs (crc_byte b c) = fold crc_byte bs (crc_byte b d)"
    using Cons.prems(1) by (simp only: fold_simps)
  then have "crc_byte b c = crc_byte b d"
    by (rule Cons.IH) (intro crc_byte_24 Cons.prems(2,3))+
  then have "c XOR push_bit 16 (ucast b) = d XOR push_bit 16 (ucast b)"
    unfolding crc_byte_def by (rule crc_shifts_inject) (intro crc_in_24 Cons.prems(2,3))+
  then show ?case
    unfolding xor.commute [of _ "push_bit 16 (ucast b)"] by (rule xor_left_cancel)
qed simp

lemma crc24q_window:
  assumes "length a = length b" "length b \<le> 3" "crc24q (p @ a @ s) = crc24q (p @ b @ s)"
  shows "a = b"
proof -
  define c where "c = fold crc_byte p 0"
  have c: "take_bit 24 c = c"
    by (simp add: c_def crc_fold_24)
  have "fold crc_byte s (fold crc_byte a c) = fold crc_byte s (fold crc_byte b c)"
    using assms(3) by (simp add: crc24q_eq_ref crc_ref_def c_def)
  then have "fold crc_byte a c = fold crc_byte b c"
    by (rule crc_fold_inject) (simp_all add: crc_fold_24 c)
  then have "(crc_shift ^^ (8 * length b)) (c XOR be24 a) = (crc_shift ^^ (8 * length b)) (c XOR be24 b)"
    using crc_byte_be24 [of a c] crc_byte_be24 [of b c] assms(1,2) by simp
  then have "c XOR be24 a = c XOR be24 b"
    by (rule crc_shifts_inject) (simp_all add: take_bit_xor c assms)
  then have "be24 a = be24 b"
    by (rule xor_left_cancel)
  with assms(1,2) show ?thesis by (rule be24_inject)
qed

definition crc24q_bytes :: "uint32 \<Rightarrow> bytes" where
  "crc24q_bytes crc = [ucast (drop_bit 16 crc), ucast (drop_bit 8 crc), ucast crc]"

lemma be24_crc24q_bytes: "take_bit 24 c = c \<Longrightarrow> be24 (crc24q_bytes c) = c"
proof -
  have "be24 (crc24q_bytes c) = take_bit 24 c"
  proof (rule bit_eqI)
    fix n :: nat
    consider "n < 8" | "8 \<le> n" "n < 16" | "16 \<le> n" by linarith
    then show "bit (be24 (crc24q_bytes c)) n \<longleftrightarrow> bit (take_bit 24 c) n"
      by cases (auto simp: crc24q_bytes_def bit_xor_iff bit_push_bit_iff bit_drop_bit_eq
        bit_take_bit_iff bit_ucast_iff dest: bit_imp_le_length)
  qed
  then show "take_bit 24 c = c \<Longrightarrow> be24 (crc24q_bytes c) = c"
    by simp
qed

lemma crc24q_codeword: "crc24q (data @ crc24q_bytes (crc24q data)) = 0"
proof -
  have "take_bit 24 (crc24q data) = crc24q data"
    by (simp add: crc24q_eq_ref crc_ref_def crc_fold_24)
  moreover have "length (crc24q_bytes c) = 3" for c
    by (simp add: crc24q_bytes_def)
  ultimately show ?thesis
    by (simp add: crc24q_eq_ref crc_ref_def crc_byte_be24 be24_crc24q_bytes)
qed

section \<open>Properties\<close>

text \<open>C4: the table-driven loop computes the remainder of the bit-by-bit division by the generator
  polynomial that the header file names.\<close>

theorem crc24q_reference: "crc24q data = crc_ref data"
  by (rule crc24q_eq_ref)

text \<open>C5: two messages that differ only inside a window of at most three consecutive bytes never
  have the same checksum, and appending the three checksum bytes to a message, most significant
  first, gives a message with checksum zero.\<close>

theorem crc24q_detects_window:
  assumes "length a = length b" "length b \<le> 3" "a \<noteq> b"
  shows "crc24q (p @ a @ s) \<noteq> crc24q (p @ b @ s) \<and> crc24q (p @ crc24q_bytes (crc24q p)) = 0"
  using assms crc24q_window [of a b p s] crc24q_codeword [of p] by blast

theorem crc24q_detects_window_witness:
  "crc24q ([1] @ [2, 3] @ [4]) \<noteq> crc24q ([1] @ [3, 2] @ [4])"
  using crc24q_detects_window [of "[2, 3]" "[3, 2]" "[1]" "[4]"] by simp

end
