(* ===== verification/Base32.thy ===== *)
theory Base32
  imports Crc24q
begin

text \<open>
  The Base32 text of 32 bytes, \<^verbatim>\<open>src/crypto/base32.cpp\<close>: seven groups of five bytes, each printed
  as eight characters; the last three bytes are the checksum of the other 32. The digit table of
  the decoder is indexed with a plain (signed) \<^verbatim>\<open>char\<close>: what it reads for a character above 127
  lies outside the table, and is the parameter \<open>oob\<close> of the model.
\<close>

unbundle bit_operations_syntax

section \<open>Encoder\<close>

definition alphabet :: string where
  "alphabet = ''0123456789abcdefghjkmnpqrstvwxyz''"

text \<open>The indices of the eight characters of a group. The masks keep at most five bits, so the
  promotion of the bytes to \<^verbatim>\<open>int\<close> before the left shifts cannot be observed.\<close>

definition encode_idx :: "uint8 \<Rightarrow> uint8 \<Rightarrow> uint8 \<Rightarrow> uint8 \<Rightarrow> uint8 \<Rightarrow> uint8 list" where
  "encode_idx m0 m1 m2 m3 m4 =
    [drop_bit 3 m0 AND 0x1F,
     (push_bit 2 m0 AND 0x1C) OR (drop_bit 6 m1 AND 0x03),
     drop_bit 1 m1 AND 0x1F,
     (push_bit 4 m1 AND 0x10) OR (drop_bit 4 m2 AND 0x0F),
     (push_bit 1 m2 AND 0x1E) OR (drop_bit 7 m3 AND 0x01),
     drop_bit 2 m3 AND 0x1F,
     (push_bit 3 m3 AND 0x18) OR (drop_bit 5 m4 AND 0x07),
     m4 AND 0x1F]"

definition Base32Encode5Bytes :: "bytes \<Rightarrow> string" where
  "Base32Encode5Bytes md5 =
    map (\<lambda>i. alphabet ! unat i) (encode_idx (md5 ! 0) (md5 ! 1) (md5 ! 2) (md5 ! 3) (md5 ! 4))"

definition Base32Encode :: "bytes \<Rightarrow> string" where
  "Base32Encode md32 =
    (let crc = crc24q (take 32 md32);
         tail = [md32 ! 30, md32 ! 31, ucast (drop_bit 16 crc), ucast (drop_bit 8 crc), ucast crc]
     in concat (map (\<lambda>i. Base32Encode5Bytes (drop (5 * i) md32)) [0..<6]) @ Base32Encode5Bytes tail)"

section \<open>Decoder\<close>

definition digit_letters :: "uint8 list" where
  "digit_letters =
    [10, 11, 12, 13, 14, 15, 16, 17, 0xFF, 18, 19, 0xFF, 20, 21, 0xFF, 22, 23, 24, 25, 26, 0xFF,
     27, 28, 29, 30, 31]"

definition digit_table :: "uint8 list" where
  "digit_table =
    replicate 48 0xFF @ [0, 1, 2, 3, 4, 5, 6, 7, 8, 9] @ replicate 7 0xFF @ digit_letters @
    replicate 6 0xFF @ digit_letters @ replicate 133 0xFF"

definition digit :: "(char \<Rightarrow> uint8) \<Rightarrow> char \<Rightarrow> uint8" where
  "digit oob c = (if of_char c < (128 :: nat) then digit_table ! of_char c else oob c)"

definition decode_idx :: "uint8 list \<Rightarrow> bytes" where
  "decode_idx idx =
    [(push_bit 3 (idx ! 0) AND 0xF8) OR (drop_bit 2 (idx ! 1) AND 0x07),
     (push_bit 6 (idx ! 1) AND 0xC0) OR (push_bit 1 (idx ! 2) AND 0x3E) OR (drop_bit 4 (idx ! 3) AND 0x01),
     (push_bit 4 (idx ! 3) AND 0xF0) OR (drop_bit 1 (idx ! 4) AND 0x0F),
     (push_bit 7 (idx ! 4) AND 0x80) OR (push_bit 2 (idx ! 5) AND 0x7C) OR (drop_bit 3 (idx ! 6) AND 0x03),
     (push_bit 5 (idx ! 6) AND 0xE0) OR (idx ! 7 AND 0x1F)]"

text \<open>The accumulator \<^verbatim>\<open>sum\<close> starts at zero and is combined with \<^verbatim>\<open>&=\<close>.\<close>

definition Base32Decode5Bytes :: "(char \<Rightarrow> uint8) \<Rightarrow> string \<Rightarrow> bool \<times> bytes" where
  "Base32Decode5Bytes oob psz =
    (let idx = map (\<lambda>i. digit oob (psz ! i)) [0..<8];
         sum = fold (\<lambda>d s. s AND scast d) idx (0 :: int32)
     in (\<not> (signed_drop_bit 7 sum \<noteq> 0), decode_idx idx))"

primrec decode_groups :: "(char \<Rightarrow> uint8) \<Rightarrow> nat \<Rightarrow> string \<Rightarrow> bytes option" where
  "decode_groups oob 0 psz = Some []"
| "decode_groups oob (Suc n) psz =
    (case Base32Decode5Bytes oob psz of
       (ok, md5) \<Rightarrow> if \<not> ok then None else map_option ((@) md5) (decode_groups oob n (drop 8 psz)))"

definition Base32Decode :: "(char \<Rightarrow> uint8) \<Rightarrow> string \<Rightarrow> bytes option" where
  "Base32Decode oob strBase32 =
    (if length strBase32 \<noteq> 56 then None
     else case decode_groups oob 7 strBase32 of
       None \<Rightarrow> None
     | Some data \<Rightarrow> if crc24q data \<noteq> 0 then None else Some (take 32 data))"

section \<open>One group\<close>

lemma uint8_eqI:
  assumes "bit a 0 = bit b 0" "bit a 1 = bit b 1" "bit a 2 = bit b 2" "bit a 3 = bit b 3"
    "bit a 4 = bit b 4" "bit a 5 = bit b 5" "bit a 6 = bit b 6" "bit a 7 = bit b 7"
  shows "a = (b :: uint8)"
proof (rule bit_word_eqI)
  fix n
  assume "n < LENGTH(8)"
  then have "n < 8" by simp
  then have "n = 0 \<or> n = 1 \<or> n = 2 \<or> n = 3 \<or> n = 4 \<or> n = 5 \<or> n = 6 \<or> n = 7"
    by arith
  then show "bit a n = bit b n" using assms by auto
qed

lemma bit_twice: "bit (a * 2) n \<longleftrightarrow> 0 < n \<and> n < 8 \<and> bit a (n - 1)" for a :: uint8
  using bit_push_bit_iff [of 1 a n] by (auto simp: push_bit_eq_mult)

lemma decode_idx_encode_idx: "decode_idx (encode_idx m0 m1 m2 m3 m4) = [m0, m1, m2, m3, m4]"
  by (simp add: decode_idx_def encode_idx_def)
    ((intro conjI uint8_eqI; simp add: bit_simps bit_twice), simp_all add: eval_nat_numeral)

lemma encode_idx_less: "i \<in> set (encode_idx m0 m1 m2 m3 m4) \<Longrightarrow> unat i < 32"
proof -
  assume "i \<in> set (encode_idx m0 m1 m2 m3 m4)"
  then have "take_bit 5 i = i"
    by (auto simp: encode_idx_def intro!: uint8_eqI simp: bit_simps)
  then have "take_bit 5 (unat i) = unat i"
    by (simp only: flip: unsigned_take_bit_eq)
  then show "unat i < 32"
    using take_bit_nat_less_exp [of 5 "unat i"] by simp
qed

lemma digit_alphabet_table:
  "list_all (\<lambda>i. of_char (alphabet ! i) < (128 :: nat) \<and> digit_table ! of_char (alphabet ! i) = of_nat i) [0..<32]"
  by code_simp

lemma digit_alphabet: "unat i < 32 \<Longrightarrow> digit oob (alphabet ! unat i) = i"
  using digit_alphabet_table by (auto simp: list_all_iff digit_def)

lemma length_encode_idx: "length (encode_idx m0 m1 m2 m3 m4) = 8"
  by (simp add: encode_idx_def)

lemma length_Base32Encode5Bytes [simp]: "length (Base32Encode5Bytes md5) = 8"
  by (simp add: Base32Encode5Bytes_def length_encode_idx)

lemma sum_stays_0: "fold (\<lambda>d s. s AND scast d) idx (0 :: int32) = 0"
  by (induction idx) simp_all

lemma Base32Decode5Bytes_eq:
  "Base32Decode5Bytes oob psz = (True, decode_idx (map (\<lambda>i. digit oob (psz ! i)) [0..<8]))"
  by (simp only: Base32Decode5Bytes_def Let_def sum_stays_0 signed_drop_bit_of_0) simp

lemma Base32Decode5Bytes_encode:
  "Base32Decode5Bytes oob (Base32Encode5Bytes md5 @ s) = (True, [md5 ! 0, md5 ! 1, md5 ! 2, md5 ! 3, md5 ! 4])"
proof -
  let ?e = "encode_idx (md5 ! 0) (md5 ! 1) (md5 ! 2) (md5 ! 3) (md5 ! 4)"
  have "map (\<lambda>i. digit oob ((Base32Encode5Bytes md5 @ s) ! i)) [0..<8] = ?e"
    by (intro nth_equalityI)
      (simp_all add: nth_append Base32Encode5Bytes_def length_encode_idx digit_alphabet
        encode_idx_less [OF nth_mem])
  then show ?thesis
    by (simp only: Base32Decode5Bytes_eq decode_idx_encode_idx)
qed

section \<open>Round trip\<close>

lemma five_nth: "5 \<le> length d \<Longrightarrow> d = [d ! 0, d ! 1, d ! 2, d ! 3, d ! 4] @ drop 5 d"
  by (auto simp: eval_nat_numeral Suc_le_length_iff)

lemma decode_groups_encode:
  assumes "5 * n \<le> length d"
  shows "decode_groups oob (n + k) (concat (map (\<lambda>i. Base32Encode5Bytes (drop (5 * i) d)) [0..<n]) @ s)
    = map_option ((@) (take (5 * n) d)) (decode_groups oob k s)"
  using assms
proof (induction n arbitrary: d)
  case (Suc n)
  have d: "d = [d ! 0, d ! 1, d ! 2, d ! 3, d ! 4] @ drop 5 d"
    using Suc.prems by (intro five_nth) simp
  have enc: "concat (map (\<lambda>i. Base32Encode5Bytes (drop (5 * i) d)) [0..<Suc n])
      = Base32Encode5Bytes d @ concat (map (\<lambda>i. Base32Encode5Bytes (drop (5 * i) (drop 5 d))) [0..<n])"
    by (simp add: upt_conv_Cons map_Suc_upt [symmetric] comp_def add.commute del: upt_Suc)
  have tk: "take (5 * Suc n) d = [d ! 0, d ! 1, d ! 2, d ! 3, d ! 4] @ take (5 * n) (drop 5 d)"
  proof -
    have "take 5 d = [d ! 0, d ! 1, d ! 2, d ! 3, d ! 4]"
      by (subst d) simp
    then show ?thesis using take_add [of 5 "5 * n" d] by simp
  qed
  have IH: "decode_groups oob (n + k)
      (concat (map (\<lambda>i. Base32Encode5Bytes (drop (5 * i) (drop 5 d))) [0..<n]) @ s)
      = map_option ((@) (take (5 * n) (drop 5 d))) (decode_groups oob k s)"
    using Suc.prems by (intro Suc.IH) simp
  have "drop 8 (Base32Encode5Bytes d @ x) = x" for x
    by simp
  then show ?case
    unfolding enc tk append.assoc add_Suc decode_groups.simps Base32Decode5Bytes_encode prod.case
    by (simp only: IH) (simp add: option.map_comp comp_def)
qed (simp add: map_option_case split: option.split)

lemma Base32Decode_Base32Encode:
  assumes "length md32 = 32"
  shows "Base32Decode oob (Base32Encode md32) = Some md32"
proof -
  define tail where "tail = [md32 ! 30, md32 ! 31] @ crc24q_bytes (crc24q md32)"
  have enc: "Base32Encode md32
      = concat (map (\<lambda>i. Base32Encode5Bytes (drop (5 * i) md32)) [0..<6]) @ Base32Encode5Bytes tail"
    using assms by (simp add: Base32Encode_def tail_def crc24q_bytes_def Let_def)
  have len: "length (Base32Encode md32) = 56"
    by (simp add: enc length_concat comp_def sum_list_triv)
  have md: "md32 = take 30 md32 @ [md32 ! 30, md32 ! 31]"
    using assms
    by (intro nth_equalityI) (auto simp: nth_append nth_Cons' intro!: arg_cong [of _ _ "(!) md32"])
  have tl: "decode_groups oob 1 (Base32Encode5Bytes tail @ []) = Some tail"
    unfolding One_nat_def decode_groups.simps Base32Decode5Bytes_encode by (simp add: tail_def crc24q_bytes_def)
  have "decode_groups oob (6 + 1) (Base32Encode md32)
      = map_option ((@) (take (5 * 6) md32)) (decode_groups oob 1 (Base32Encode5Bytes tail @ []))"
    unfolding enc using assms decode_groups_encode [of 6 md32 oob 1 "Base32Encode5Bytes tail @ []"] by simp
  also have "\<dots> = Some (take 30 md32 @ tail)"
    unfolding tl by simp
  also have "take 30 md32 @ tail = md32 @ crc24q_bytes (crc24q md32)"
    unfolding tail_def by (subst (3) md) simp
  finally have "decode_groups oob 7 (Base32Encode md32) = Some (md32 @ crc24q_bytes (crc24q md32))"
    by simp
  then show ?thesis
    using assms by (simp add: Base32Decode_def len crc24q_codeword)
qed

section \<open>The bits of the decoded bytes\<close>

text \<open>Bit \<open>m\<close> of the decoded message, counted from the most significant bit of its first byte, is bit
  \<open>m\<close> of the string of five-bit digits.\<close>

lemma bit_decode_idx:
  assumes "m < 40"
  shows "bit (decode_idx idx ! (m div 8)) (7 - m mod 8) \<longleftrightarrow> bit (idx ! (m div 5)) (4 - m mod 5)"
proof -
  have u: "[0..<40] = [0, 1, 2, 3, 4, 5, 6, 7, 8, 9, 10, 11, 12, 13, 14, 15, 16, 17, 18, 19,
      20, 21, 22, 23, 24, 25, 26, 27, 28, 29, 30, 31, 32, 33, 34, 35, 36, 37, 38, 39]"
    by (simp add: upt_rec)
  have "\<forall>m\<in>set [0..<40].
      bit (decode_idx idx ! (m div 8)) (7 - m mod 8) \<longleftrightarrow> bit (idx ! (m div 5)) (4 - m mod 5)"
    unfolding u by (simp add: decode_idx_def bit_simps bit_twice) (simp add: eval_nat_numeral)
  then show ?thesis using assms by simp
qed

lemma bit_decode_groups:
  assumes "decode_groups oob n s = Some d" "8 * n \<le> length s"
  shows "length d = 5 * n \<and> (\<forall>m < 40 * n.
    bit (d ! (m div 8)) (7 - m mod 8) \<longleftrightarrow> bit (digit oob (s ! (m div 5))) (4 - m mod 5))"
  using assms
proof (induction n arbitrary: s d)
  case (Suc n)
  let ?idx = "map (\<lambda>i. digit oob (s ! i)) [0..<8]"
  obtain d' where d: "d = decode_idx ?idx @ d'" and d': "decode_groups oob n (drop 8 s) = Some d'"
    using Suc.prems(1) by (auto simp: Base32Decode5Bytes_eq)
  have len: "length (decode_idx ?idx) = 5"
    by (simp add: decode_idx_def)
  have IH: "length d' = 5 * n" "m < 40 * n \<Longrightarrow> bit (d' ! (m div 8)) (7 - m mod 8)
      \<longleftrightarrow> bit (digit oob (drop 8 s ! (m div 5))) (4 - m mod 5)" for m
    using Suc.IH [OF d'] Suc.prems(2) by simp_all
  have "bit (d ! (m div 8)) (7 - m mod 8) \<longleftrightarrow> bit (digit oob (s ! (m div 5))) (4 - m mod 5)"
    if m: "m < 40 * Suc n" for m
  proof (cases "m < 40")
    case True
    then have "m div 8 < 5" "m div 5 < 8" by auto
    then show ?thesis
      using bit_decode_idx [OF True, of ?idx] by (simp only: d nth_append len) simp
  next
    case False
    then obtain k where k: "m = 40 + k" by (metis le_Suc_ex not_less)
    have "m div 8 = 5 + k div 8" "m div 5 = 8 + k div 5" "m mod 8 = k mod 8" "m mod 5 = k mod 5"
      unfolding k using div_mult_self4 [of 8 5 k] div_mult_self4 [of 5 8 k]
        mod_mult_self4 [of 8 5 k] mod_mult_self4 [of 5 8 k] by simp_all
    then show ?thesis
      using IH(2) [of k] m Suc.prems(2) k by (simp add: d nth_append len)
  qed
  then show ?case
    using d len IH(1) by simp
qed simp

lemma byte_bit_index:
  assumes "r < (8 :: nat)"
  shows "(8 * j + (7 - r)) div 8 = j" "7 - (8 * j + (7 - r)) mod 8 = r"
proof -
  have "(8 * j + (7 - r)) mod 8 = (7 - r) mod 8" "(8 * j + (7 - r)) div 8 = j + (7 - r) div 8"
    by (rule mod_mult_self4, rule div_mult_self4) simp
  then show "(8 * j + (7 - r)) div 8 = j" "7 - (8 * j + (7 - r)) mod 8 = r"
    using assms by (simp_all only: mod_less div_less less_imp_diff_less)
qed

lemma decode_idx_low_bits:
  assumes "\<And>i. i < 8 \<Longrightarrow> take_bit 5 (idx ! i) = take_bit 5 (idx' ! i)"
  shows "decode_idx idx = decode_idx idx'"
proof (rule nth_equalityI)
  fix j
  assume "j < length (decode_idx idx)"
  then have j: "j < 5" by (simp add: decode_idx_def)
  show "decode_idx idx ! j = decode_idx idx' ! j"
  proof (rule bit_word_eqI)
    fix r
    assume "r < LENGTH(8)"
    then have r: "r < 8" by simp
    define m where "m = 8 * j + (7 - r)"
    have "m < 40" using j by (simp add: m_def)
    note m = this byte_bit_index [OF r, of j, folded m_def]
    have "m div 5 < 8" "4 - m mod 5 < 5" using m(1) by auto
    then have "bit (idx ! (m div 5)) (4 - m mod 5) = bit (idx' ! (m div 5)) (4 - m mod 5)"
      using assms [of "m div 5"] by (metis bit_take_bit_iff)
    then show "bit (decode_idx idx ! j) r = bit (decode_idx idx' ! j) r"
      using bit_decode_idx [OF m(1), of idx] bit_decode_idx [OF m(1), of idx'] by (simp only: m)
  qed
qed (simp add: decode_idx_def)

lemma decode_groups_total: "\<exists>d. decode_groups oob n s = Some d"
  by (induction n arbitrary: s) (auto simp: Base32Decode5Bytes_eq)

section \<open>Characters outside the alphabet\<close>

text \<open>The character that the decoder takes a character outside the alphabet for.\<close>

definition read_as :: "char \<Rightarrow> char" where
  "read_as c = (if of_char c < (128 :: nat) \<and> digit_table ! of_char c = 0xFF then CHR ''z'' else c)"

lemma digit_read_as: "take_bit 5 (digit oob (read_as c)) = take_bit 5 (digit oob c)"
proof -
  have "digit_table ! of_char (CHR ''z'') = 31"
    by code_simp
  then show ?thesis
    by (simp add: digit_def read_as_def)
qed

lemma decode_groups_read_as:
  "8 * n \<le> length s \<Longrightarrow> decode_groups oob n (map read_as s) = decode_groups oob n s"
proof (induction n arbitrary: s)
  case (Suc n)
  have "Base32Decode5Bytes oob (map read_as s) = Base32Decode5Bytes oob s"
    unfolding Base32Decode5Bytes_eq using Suc.prems
    by (auto intro!: decode_idx_low_bits simp: digit_read_as)
  then show ?case
    using Suc by (simp add: drop_map split: prod.splits)
qed simp

lemma Base32Decode_read_as: "Base32Decode oob (map read_as s) = Base32Decode oob s"
  by (simp add: Base32Decode_def decode_groups_read_as)

section \<open>Mistyped characters\<close>

lemma window_split: "d = take k d @ take 3 (drop k d) @ drop (k + 3) d"
  by (metis append_take_drop_id drop_drop add.commute)

lemma Base32Decode_typo:
  assumes "Base32Decode oob s = Some d" "Base32Decode oob t = Some e"
    and "\<And>j. j < 56 \<Longrightarrow> j \<noteq> i \<Longrightarrow> j \<noteq> i + 1 \<Longrightarrow> s ! j = t ! j"
  shows "d = e"
proof -
  obtain ds es where ds: "decode_groups oob 7 s = Some ds" and es: "decode_groups oob 7 t = Some es"
    using decode_groups_total by blast
  have len: "length s = 56" "length t = 56"
    and crc: "crc24q ds = 0" "crc24q es = 0" and de: "d = take 32 ds" "e = take 32 es"
    using assms(1,2) by (simp_all add: Base32Decode_def ds es split: if_splits)
  note S = bit_decode_groups [OF ds] and T = bit_decode_groups [OF es]
  have l35: "length ds = 35" "length es = 35"
    using S T len by simp_all
  define k where "k = 5 * i div 8"
  have same: "ds ! j = es ! j" if j: "j < 35" "j < k \<or> k + 3 \<le> j" for j
  proof (rule bit_word_eqI)
    fix r
    assume "r < LENGTH(8)"
    then have r: "r < 8" by simp
    define m where "m = 8 * j + (7 - r)"
    have "m < 280" using j(1) by (simp add: m_def)
    note m = this byte_bit_index [OF r, of j, folded m_def]
    have "m div 5 \<noteq> i" "m div 5 \<noteq> i + 1"
      using j(2) r unfolding m_def k_def by linarith+
    moreover have "m div 5 < 56" using m(1) by simp
    ultimately have "s ! (m div 5) = t ! (m div 5)" by (intro assms(3))
    then show "bit (ds ! j) r = bit (es ! j) r"
      using S T m len by auto
  qed
  have "take k ds = take k es" "drop (k + 3) ds = drop (k + 3) es"
    using same l35 by (auto intro!: nth_equalityI)
  moreover have "take 3 (drop k ds) = take 3 (drop k es)"
  proof (rule crc24q_window)
    show "crc24q (take k ds @ take 3 (drop k ds) @ drop (k + 3) ds)
        = crc24q (take k ds @ take 3 (drop k es) @ drop (k + 3) ds)"
      using crc window_split [of ds k] window_split [of es k] calculation by simp
  qed (simp_all add: l35)
  ultimately have "ds = es"
    by (metis window_split)
  then show ?thesis by (simp add: de)
qed

section \<open>Properties\<close>

text \<open>C6: decoding the Base32 text of 32 bytes gives the 32 bytes back.\<close>

theorem base32_roundtrip:
  assumes "length md32 = 32"
  shows "Base32Decode oob (Base32Encode md32) = Some md32"
  using assms by (rule Base32Decode_Base32Encode)

theorem base32_roundtrip_witness:
  "Base32Decode (\<lambda>_. 0) (Base32Encode (replicate 32 7)) = Some (replicate 32 7)"
  using base32_roundtrip [of "replicate 32 7" "\<lambda>_. 0"] by simp

text \<open>C7: changing at most two adjacent characters of a text that decodes (a typing mistake, or two
  neighbours exchanged) never gives a text that decodes to other bytes.\<close>

theorem base32_typo_detected:
  assumes "Base32Decode oob s = Some d"
    and "\<forall>j<56. j \<noteq> i \<longrightarrow> j \<noteq> i + 1 \<longrightarrow> s ! j = t ! j"
  shows "Base32Decode oob t = None \<or> Base32Decode oob t = Some d"
  using assms Base32Decode_typo [of oob s d t _ i] by (cases "Base32Decode oob t") auto

theorem base32_typo_detected_witness:
  "Base32Decode (\<lambda>_. 0) ((Base32Encode (replicate 32 7))[3 := CHR ''x'']) \<in> {None, Some (replicate 32 7)}"
  using base32_typo_detected
    [of "\<lambda>_. 0" "Base32Encode (replicate 32 7)" "replicate 32 7" 3 "(Base32Encode (replicate 32 7))[3 := CHR ''x'']"]
  by (simp add: Base32Decode_Base32Encode)

text \<open>C8: the decoder does not reject characters outside the alphabet: the accumulator that should
  record them starts at zero and stays zero, and each such character is read as the digit of
  \<open>z\<close>.\<close>

theorem base32_reads_invalid_as_z:
  "Base32Decode oob (map read_as s) = Base32Decode oob s \<and> fst (Base32Decode5Bytes oob s)"
  by (simp add: Base32Decode_read_as Base32Decode5Bytes_eq)

end
