(* ===== verification/Destination.thy ===== *)
theory Destination
  imports HexText Base32 "HOL-Library.List_Lexorder"
begin

text \<open>
  Destinations and addresses: \<^verbatim>\<open>CDestination\<close> of \<^verbatim>\<open>src/common/destination.cpp\<close> (a prefix that says
  whether the 32 bytes are a public key or a template id), the template ids of
  \<^verbatim>\<open>src/common/template/templateid.cpp\<close>, and \<^verbatim>\<open>CAddress\<close> of \<^verbatim>\<open>src/bigbang/address.cpp\<close>, the Base32
  text of a destination. The order of destinations is the \<^verbatim>\<open>operator<\<close> of the source, as an
  instance of the type class of linear orders, so that ordered containers keyed by
  destinations apply. The lemmas are the text round trips and the order.
\<close>

unbundle bit_operations_syntax

section \<open>State\<close>

datatype CDestination = CDestination (dest_prefix: uint8) (dest_data: uint256)

definition PREFIX_NULL :: uint8 where "PREFIX_NULL = 0x00"
definition PREFIX_PUBKEY :: uint8 where "PREFIX_PUBKEY = 0x01"
definition PREFIX_TEMPLATE :: uint8 where "PREFIX_TEMPLATE = 0x02"
definition PREFIX_MAX :: nat where "PREFIX_MAX = 3"

lemmas prefix_defs = PREFIX_NULL_def PREFIX_PUBKEY_def PREFIX_TEMPLATE_def PREFIX_MAX_def

definition dest_SetNull :: CDestination where
  "dest_SetNull = CDestination PREFIX_NULL 0"

definition dest_IsNull :: "CDestination \<Rightarrow> bool" where
  "dest_IsNull d \<longleftrightarrow> dest_prefix d = PREFIX_NULL"

definition IsPubKey :: "CDestination \<Rightarrow> bool" where
  "IsPubKey d \<longleftrightarrow> dest_prefix d = PREFIX_PUBKEY"

definition IsTemplate :: "CDestination \<Rightarrow> bool" where
  "IsTemplate d \<longleftrightarrow> dest_prefix d = PREFIX_TEMPLATE"

definition SetPubKey :: "uint256 \<Rightarrow> CDestination" where
  "SetPubKey pubkey = CDestination PREFIX_PUBKEY pubkey"

definition GetPubKey :: "CDestination \<Rightarrow> uint256" where
  "GetPubKey d = (if dest_prefix d = PREFIX_PUBKEY then dest_data d else 0)"

definition GetPubKey_out :: "CDestination \<Rightarrow> uint256 option" where
  "GetPubKey_out d = (if dest_prefix d = PREFIX_PUBKEY then Some (dest_data d) else None)"

definition SetTemplateId :: "uint256 \<Rightarrow> CDestination" where
  "SetTemplateId tid = CDestination PREFIX_TEMPLATE tid"

definition GetTemplateId :: "CDestination \<Rightarrow> uint256" where
  "GetTemplateId d = (if dest_prefix d = PREFIX_TEMPLATE then dest_data d else 0)"

definition GetTemplateId_out :: "CDestination \<Rightarrow> uint256 option" where
  "GetTemplateId_out d = (if dest_prefix d = PREFIX_TEMPLATE then Some (dest_data d) else None)"

section \<open>Template ids\<close>

text \<open>The type of a template sits in the low 16 bits of its id, below the shifted hash.\<close>

definition CTemplateId :: "uint16 \<Rightarrow> uint256 \<Rightarrow> uint256" where
  "CTemplateId type hash = push_bit 16 hash OR ucast (ucast type :: uint64)"

definition tid_GetType :: "uint256 \<Rightarrow> uint16" where
  "tid_GetType tid = ucast ((ucast tid :: uint32) AND 0xFFFF)"

section \<open>Order\<close>

instantiation CDestination :: linorder
begin

definition less_CDestination :: "CDestination \<Rightarrow> CDestination \<Rightarrow> bool" where
  "less_CDestination a b \<longleftrightarrow>
    dest_prefix a < dest_prefix b \<or> (dest_prefix a = dest_prefix b \<and> dest_data a < dest_data b)"

definition less_eq_CDestination :: "CDestination \<Rightarrow> CDestination \<Rightarrow> bool" where
  "less_eq_CDestination a b \<longleftrightarrow> a < b \<or> a = b"

instance
  by standard (auto simp: less_CDestination_def less_eq_CDestination_def intro: CDestination.expand)

end

section \<open>Texts\<close>

text \<open>The value of a plain \<^verbatim>\<open>char\<close>, which is signed on the supported targets.\<close>

definition schar :: "char \<Rightarrow> int" where
  "schar c = (if of_char c < (128 :: int) then of_char c else of_char c - 256)"

definition bad_prefix_char :: "char \<Rightarrow> bool" where
  "bad_prefix_char c \<longleftrightarrow> schar c < 48 \<or> schar c \<ge> 48 + int PREFIX_MAX"

text \<open>\<^verbatim>\<open>ParseString\<close> returns the success flag and the object it leaves behind: the prefix is assigned
  before the digits are read, and the bytes read before a bad digit stay in place.\<close>

definition dest_ParseString :: "CDestination \<Rightarrow> string \<Rightarrow> bool \<times> CDestination" where
  "dest_ParseString d str =
    (if length str \<noteq> 33 * 2 - 1 \<or> bad_prefix_char (str ! 0) then (False, d)
     else
       let read = ParseHexString_n (takeWhile (\<lambda>c. c \<noteq> CHR 0x00) (tl str)) 32;
           image = read @ drop (length read) (le_bytes 32 (dest_data d))
       in (length read = 32, CDestination (word_of_int (schar (str ! 0) - 48)) (le_word image)))"

definition dest_ToString :: "CDestination \<Rightarrow> string" where
  "dest_ToString d = char_of (48 + unat (dest_prefix d)) # ToHexString (le_bytes 32 (dest_data d))"

text \<open>\<^verbatim>\<open>ParseString\<close> is virtual: the setters below call the parser \<open>parse\<close> of the object's class.\<close>

definition SetPubKey_str ::
  "(CDestination \<Rightarrow> string \<Rightarrow> bool \<times> CDestination) \<Rightarrow> CDestination \<Rightarrow> string \<Rightarrow> bool \<times> CDestination" where
  "SetPubKey_str parse d str =
    (case parse d str of
       (True, d') \<Rightarrow> if dest_IsNull d' \<or> \<not> IsPubKey d' then (False, d') else (True, d')
     | (False, d') \<Rightarrow>
         (case SetHex 8 str of (len, pn) \<Rightarrow>
            if len \<noteq> length str then (False, CDestination (dest_prefix d') (u256 pn))
            else (True, CDestination PREFIX_PUBKEY (u256 pn))))"

definition SetTemplateId_str ::
  "(CDestination \<Rightarrow> string \<Rightarrow> bool \<times> CDestination) \<Rightarrow> CDestination \<Rightarrow> string \<Rightarrow> bool \<times> CDestination" where
  "SetTemplateId_str parse d str =
    (case parse d str of
       (True, d') \<Rightarrow> if dest_IsNull d' \<or> \<not> IsTemplate d' then (False, d') else (True, d')
     | (False, d') \<Rightarrow>
         (case SetHex 8 str of (len, pn) \<Rightarrow>
            if len \<noteq> length str then (False, CDestination (dest_prefix d') (u256 pn))
            else (True, CDestination PREFIX_TEMPLATE (u256 pn))))"

section \<open>Addresses\<close>

definition addr_ParseString :: "(char \<Rightarrow> uint8) \<Rightarrow> CDestination \<Rightarrow> string \<Rightarrow> bool \<times> CDestination" where
  "addr_ParseString oob d strAddress =
    (if length strAddress \<noteq> 57 \<or> bad_prefix_char (strAddress ! 0) then (False, d)
     else case Base32Decode oob (tl strAddress) of
       None \<Rightarrow> (False, d)
     | Some md \<Rightarrow> (True, CDestination (word_of_int (schar (strAddress ! 0) - 48)) (le_word md)))"

definition addr_ToString :: "CDestination \<Rightarrow> string" where
  "addr_ToString d = char_of (48 + unat (dest_prefix d)) # Base32Encode (le_bytes 32 (dest_data d))"

section \<open>Lemmas\<close>

lemma tid_GetType_CTemplateId: "tid_GetType (CTemplateId type hash) = type"
proof (rule bit_word_eqI)
  fix n
  assume "n < LENGTH(16)"
  then have n: "n < 16" by simp
  have m: "w AND 0xFFFF = take_bit 16 w" for w :: uint32
    by (simp add: take_bit_eq_mask mask_eq_exp_minus_1)
  show "bit (tid_GetType (CTemplateId type hash)) n = bit type n"
    unfolding tid_GetType_def CTemplateId_def m using n by (simp add: bit_simps)
qed

lemma prefix_char:
  assumes "unat p < PREFIX_MAX"
  shows "\<not> bad_prefix_char (char_of (48 + unat p))"
    "word_of_int (schar (char_of (48 + unat p)) - 48) = (p :: uint8)"
proof -
  have "of_char (char_of (48 + unat p) :: char) = int ((48 + unat p) mod 256)"
    using of_nat_of_char [where 'a = int, of "char_of (48 + unat p)"] by (simp only: of_char_of)
  then have "of_char (char_of (48 + unat p) :: char) = 48 + int (unat p)"
    using assms by (simp add: prefix_defs)
  moreover have "int (unat p) < int PREFIX_MAX"
    using assms by (simp only: of_nat_less_iff)
  ultimately show "\<not> bad_prefix_char (char_of (48 + unat p))"
    "word_of_int (schar (char_of (48 + unat p)) - 48) = p"
    using assms by (simp_all add: bad_prefix_char_def schar_def prefix_defs)
qed

lemma le_word_le_bytes_256 [simp]: "le_word (le_bytes 32 w) = (w :: uint256)"
  by (rule le_word_le_bytes) simp

lemma hex_byte_no_NUL: "c \<in> set (hex_byte b) \<Longrightarrow> c \<noteq> CHR 0x00"
  using hexc_digit(7) [OF nibble_less(1), of b] hexc_digit(7) [OF nibble_less(2), of b]
  by (auto simp: hex_byte_def)

lemma takeWhile_ToHexString: "takeWhile (\<lambda>c. c \<noteq> CHR 0x00) (ToHexString p) = ToHexString p"
  unfolding takeWhile_eq_all_conv ToHexString_eq using hex_byte_no_NUL by fastforce

lemma length_ToHexString: "length (ToHexString p) = 2 * length p"
  unfolding ToHexString_eq by (induction p) (simp_all add: hex_byte_def)

lemma dest_ParseString_ToString:
  assumes "unat (dest_prefix d) < PREFIX_MAX"
  shows "dest_ParseString d0 (dest_ToString d) = (True, d)"
  using prefix_char [OF assms]
  by (simp add: dest_ParseString_def dest_ToString_def length_ToHexString takeWhile_ToHexString
      ParseHexString_n_eq ParseHexString_ToHexString Let_def)

lemma length_Base32Encode: "length (Base32Encode md32) = 56"
  by (simp add: Base32Encode_def Let_def length_concat comp_def sum_list_triv)

lemma addr_ParseString_ToString:
  assumes "unat (dest_prefix d) < PREFIX_MAX"
  shows "addr_ParseString oob d0 (addr_ToString d) = (True, d)"
  using prefix_char [OF assms]
  by (simp add: addr_ParseString_def addr_ToString_def length_Base32Encode Base32Decode_Base32Encode)

section \<open>Properties\<close>

text \<open>C9: printing a destination, in hexadecimal or as a Base32 address, and parsing the text gives
  the destination back, whatever object the parser is called on.\<close>

theorem destination_text_roundtrip:
  assumes "unat (dest_prefix d) < PREFIX_MAX"
  shows "dest_ParseString d0 (dest_ToString d) = (True, d) \<and> addr_ParseString oob d0 (addr_ToString d) = (True, d)"
  using assms by (simp add: dest_ParseString_ToString addr_ParseString_ToString)

theorem destination_text_roundtrip_witness:
  "dest_ParseString dest_SetNull (dest_ToString (SetPubKey 5)) = (True, SetPubKey 5)"
  using destination_text_roundtrip [of "SetPubKey 5" dest_SetNull] by (simp add: SetPubKey_def prefix_defs)

text \<open>C10: setting a destination from a text is safe for either parser: success leaves a destination
  of the requested kind behind, and the type of a template id is the type it was built with.\<close>

theorem destination_setters_sound:
  "(fst (SetPubKey_str parse d str) \<longrightarrow> IsPubKey (snd (SetPubKey_str parse d str)))
    \<and> (fst (SetTemplateId_str parse d str) \<longrightarrow> IsTemplate (snd (SetTemplateId_str parse d str)))
    \<and> tid_GetType (GetTemplateId (SetTemplateId (CTemplateId type hash))) = type"
  by (auto simp: SetPubKey_str_def SetTemplateId_str_def IsPubKey_def IsTemplate_def prefix_defs
      GetTemplateId_def SetTemplateId_def tid_GetType_CTemplateId split: prod.splits bool.splits if_splits)

theorem destination_setters_sound_witness:
  "IsPubKey (snd (SetPubKey_str dest_ParseString dest_SetNull (dest_ToString (SetPubKey 5))))"
proof -
  have p: "dest_ParseString dest_SetNull (dest_ToString (SetPubKey 5)) = (True, SetPubKey 5)"
    by (rule dest_ParseString_ToString) (simp add: SetPubKey_def prefix_defs)
  have "fst (SetPubKey_str dest_ParseString dest_SetNull (dest_ToString (SetPubKey 5)))"
    unfolding SetPubKey_str_def p by (simp add: IsPubKey_def dest_IsNull_def SetPubKey_def prefix_defs)
  then show ?thesis
    using destination_setters_sound [of dest_ParseString dest_SetNull "dest_ToString (SetPubKey 5)" 0 0] by simp
qed

end
