(* ===== verification/Stream.thy ===== *)
theory Stream
  imports StdMap Destination
begin

text \<open>
  Serialization: the stream of \<^verbatim>\<open>src/xengine/stream/stream.h\<close> and \<^verbatim>\<open>stream.cpp\<close>. A stream is the list
  of the bytes that are still to be read; saving yields bytes, loading consumes a prefix and
  returns the value with the rest, or the exception that is thrown. The locale \<open>codec\<close> is the
  contract of a serializable type (what is saved is loaded back, and \<^verbatim>\<open>GetSerializeSize\<close> is the
  number of bytes saved); its clients get that encodings are injective and that no encoding is a
  proper prefix of another. The contract is proved for the fundamental types, the compact sizes,
  strings, vectors, pairs and maps.
\<close>

unbundle bit_operations_syntax

section \<open>Errors and reading\<close>

datatype stream_error =
    ReadError      \<comment> \<open>stream read error: too few bytes left\<close>
  | ReadSizeError  \<comment> \<open>stream read size error: the announced length exceeds what is left\<close>
  | LengthError    \<comment> \<open>\<^verbatim>\<open>std::length_error\<close> of \<^verbatim>\<open>resize\<close>\<close>
  | RangeError     \<comment> \<open>\<^verbatim>\<open>std::range_error\<close> of \<^verbatim>\<open>CIDataStream::Pop\<close>\<close>
  | DataConflict   \<comment> \<open>duplicate key in \<^verbatim>\<open>CIDataStream\<close>\<close>
  | UndefinedRead  \<comment> \<open>read past the end of the buffer without a check\<close>
  | ObjectError string \<comment> \<open>exception thrown by the \<^verbatim>\<open>Serialize\<close> of an object\<close>

type_synonym 'a loader = "bytes \<Rightarrow> stream_error + 'a \<times> bytes"

definition ld_return :: "'a \<Rightarrow> 'a loader" where
  "ld_return a s = Inr (a, s)"

definition ld_throw :: "stream_error \<Rightarrow> 'a loader" where
  "ld_throw e s = Inl e"

definition ld_bind :: "'a loader \<Rightarrow> ('a \<Rightarrow> 'b loader) \<Rightarrow> 'b loader" where
  "ld_bind m f s = (case m s of Inl e \<Rightarrow> Inl e | Inr (a, s') \<Rightarrow> f a s')"

lemma ld_return_apply [codec_simps]: "ld_return a s = Inr (a, s)"
  by (simp add: ld_return_def)

lemma ld_throw_apply [codec_simps]: "ld_throw e s = Inl e"
  by (simp add: ld_throw_def)

lemma ld_bind_Inr [codec_simps]: "m s = Inr (a, s') \<Longrightarrow> ld_bind m f s = f a s'"
  by (simp add: ld_bind_def)

lemma ld_bind_Inl: "m s = Inl e \<Longrightarrow> ld_bind m f s = Inl e"
  by (simp add: ld_bind_def)

definition Read :: "nat \<Rightarrow> bytes loader" where
  "Read n s = (if length (take n s) \<noteq> n then Inl ReadError else Inr (take n s, drop n s))"

lemma Read_append [codec_simps]: "length bs = n \<Longrightarrow> Read n (bs @ s) = Inr (bs, s)"
  by (simp add: Read_def)

section \<open>The contract of a serializable type\<close>

locale codec =
  fixes save :: "'a \<Rightarrow> bytes"
    and load :: "'a loader"
    and size :: "'a \<Rightarrow> nat"
    and valid :: "'a \<Rightarrow> bool"
  assumes load_save: "valid a \<Longrightarrow> load (save a @ s) = Inr (a, s)"
    and size_save: "valid a \<Longrightarrow> size a = length (save a)"
begin

lemma prefix_free:
  assumes "valid a" "valid b" "save a @ s = save b @ t"
  shows "a = b \<and> s = t"
proof -
  have "Inr (a, s) = load (save b @ t)"
    unfolding assms(3) [symmetric] by (rule load_save [OF assms(1), symmetric])
  also have "\<dots> = Inr (b, t)"
    by (rule load_save [OF assms(2)])
  finally show ?thesis by simp
qed

lemma save_inject: "valid a \<Longrightarrow> valid b \<Longrightarrow> save a = save b \<longleftrightarrow> a = b"
  using prefix_free [of a b "[]" "[]"] by (metis append_Nil2)

lemma load_all: "valid a \<Longrightarrow> load (save a) = Inr (a, [])"
  using load_save [of a "[]"] by simp

end

section \<open>Fundamental types\<close>

definition save_basic :: "'a::len word \<Rightarrow> bytes" where
  "save_basic t = le_bytes (LENGTH('a) div 8) t"

definition load_basic :: "('a::len word) loader" where
  "load_basic = ld_bind (Read (LENGTH('a) div 8)) (\<lambda>bs. ld_return (le_word bs))"

definition size_basic :: "'a::len word \<Rightarrow> nat" where
  "size_basic t = LENGTH('a) div 8"

lemma codec_basic:
  assumes "8 dvd LENGTH('a::len)"
  shows "codec save_basic load_basic size_basic (\<lambda>t :: 'a word. True)"
proof
  fix a :: "'a word" and s
  have "le_word (le_bytes (LENGTH('a) div 8) a) = a"
    using assms by (intro le_word_le_bytes) simp
  then show "load_basic (save_basic a @ s) = Inr (a, s)"
    by (simp add: load_basic_def save_basic_def codec_simps)
qed (simp add: size_basic_def save_basic_def)

interpretation u8: codec save_basic load_basic size_basic "\<lambda>t :: uint8. True"
  by (rule codec_basic) simp

interpretation u16: codec save_basic load_basic size_basic "\<lambda>t :: uint16. True"
  by (rule codec_basic) simp

interpretation u32: codec save_basic load_basic size_basic "\<lambda>t :: uint32. True"
  by (rule codec_basic) simp

interpretation u64: codec save_basic load_basic size_basic "\<lambda>t :: uint64. True"
  by (rule codec_basic) simp

text \<open>\<^verbatim>\<open>uint256\<close> saves the memory of its limbs, which is the little-endian image of its value.\<close>

interpretation h256: codec save_basic load_basic size_basic "\<lambda>t :: uint256. True"
  by (rule codec_basic) simp

section \<open>Compact sizes\<close>

definition save_varint :: "uint64 \<Rightarrow> bytes" where
  "save_varint nValue =
    (if nValue < 0xFD then le_bytes 1 nValue
     else if nValue \<le> 0xFFFF then le_bytes (1 + 2) (push_bit 8 nValue OR 0xFD)
     else if nValue \<le> 0xFFFFFFFF then le_bytes (1 + 4) (push_bit 8 nValue OR 0xFE)
     else [0xFF] @ le_bytes 8 nValue)"

text \<open>The second read stores into the low bytes of \<^verbatim>\<open>nValue\<close>, which still holds the first byte.\<close>

definition load_varint :: "uint64 loader" where
  "load_varint =
    ld_bind (Read 1) (\<lambda>b.
      let nValue = le_word b :: uint64 in
      if nValue \<ge> 0xFD
      then ld_bind (Read (push_bit (unat (nValue - 0xFD)) 2))
             (\<lambda>bs. ld_return (le_word (bs @ drop (length bs) (le_bytes 8 nValue))))
      else ld_return nValue)"

definition size_varint :: "uint64 \<Rightarrow> nat" where
  "size_varint nValue =
    (if nValue < 0xFD then 1
     else if nValue \<le> 0xFFFF then 1 + 2
     else if nValue \<le> 0xFFFFFFFF then 1 + 4
     else 1 + 8)"

lemma take_bit_of_less: "x < 2 ^ n \<Longrightarrow> n < LENGTH('a) \<Longrightarrow> take_bit n x = (x :: 'a::len word)"
proof -
  assume "x < 2 ^ n" "n < LENGTH('a)"
  then have "uint x < 2 ^ n" by (simp add: word_2p_lem word_size)
  then have "take_bit n (uint x) = uint x" by (simp add: take_bit_int_eq_self)
  then show ?thesis by (simp add: word_uint_eq_iff unsigned_take_bit_eq)
qed

lemma le_word_overlay:
  assumes "length bs = k" "1 \<le> k" "k \<le> 8" "take_bit 8 n = (n :: uint64)"
  shows "(le_word (bs @ drop k (le_bytes 8 n)) :: uint64) = le_word bs"
proof (rule bit_eqI)
  fix i
  have "\<not> bit (le_bytes 8 n ! (i div 8)) (i mod 8)" if "k \<le> i div 8" "i div 8 < 8"
  proof -
    have "bit n j \<Longrightarrow> j < 8" for j
      using assms(4) by (metis bit_take_bit_iff)
    then have "\<not> bit n (8 * (i div 8) + i mod 8)"
      using that(1) assms(2) by fastforce
    then show ?thesis
      using that(2) by (simp add: nth_le_bytes bit_simps del: mult_div_mod_eq)
  qed
  then show "bit (le_word (bs @ drop k (le_bytes 8 n)) :: uint64) i \<longleftrightarrow> bit (le_word bs :: uint64) i"
    using assms(1,3) by (auto simp: bit_le_word nth_append)
qed

lemma le_word_le_bytes_take: "8 * k \<le> LENGTH('a) \<Longrightarrow> (le_word (le_bytes k w) :: 'a::len word) = take_bit (8 * k) w"
  by (rule bit_eqI) (auto simp: bit_le_word nth_le_bytes bit_simps less_mult_imp_div_less bit_take_bit_iff)

lemma save_varint_tagged:
  fixes v :: uint64
  assumes "take_bit 56 v = v" "k \<le> 7"
  shows "le_bytes (Suc k) (push_bit 8 v OR ucast (b :: uint8)) = b # le_bytes k v"
proof -
  have "ucast (push_bit 8 v OR ucast b) = b"
    by (rule bit_word_eqI) (simp add: bit_simps)
  moreover have "drop_bit 8 (push_bit 8 v OR ucast b) = v"
  proof (rule bit_word_eqI)
    fix n
    have "bit v n \<Longrightarrow> n < 56"
      using assms(1) by (metis bit_take_bit_iff)
    then show "bit (drop_bit 8 (push_bit 8 v OR ucast b)) n = bit v n"
      by (auto simp: bit_simps dest: bit_imp_le_length)
  qed
  ultimately show ?thesis by simp
qed

lemma load_varint_tagged:
  assumes "k \<le> 2" "length bs = 2 * 2 ^ k"
  shows "load_varint ((0xFD + of_nat k) # bs @ s) = Inr (le_word bs, s)"
proof -
  have "k = 0 \<or> k = 1 \<or> k = 2" using assms(1) by arith
  then have n: "(le_word [0xFD + of_nat k] :: uint64) = 0xFD + of_nat k"
    "(0xFD + of_nat k :: uint64) - 0xFD = of_nat k" "unat (of_nat k :: uint64) = k"
    "(0xFD :: uint64) \<le> 0xFD + of_nat k" "take_bit 8 (0xFD + of_nat k :: uint64) = 0xFD + of_nat k"
    by auto
  have "Read 1 ((0xFD + of_nat k) # bs @ s) = Inr ([0xFD + of_nat k], bs @ s)"
    by (simp add: Read_def)
  moreover have "Read (push_bit k 2) (bs @ s) = Inr (bs, s)"
    using assms by (simp add: Read_append push_bit_eq_mult)
  moreover have "(le_word (bs @ drop (length bs) (le_bytes 8 (0xFD + of_nat k :: uint64))) :: uint64) = le_word bs"
    using assms n(5) \<open>k = 0 \<or> k = 1 \<or> k = 2\<close> by (intro le_word_overlay) auto
  ultimately show ?thesis
    unfolding load_varint_def by (simp only: ld_bind_Inr Let_def n if_True ld_return_apply)
qed

lemma tag_bytes: "ucast (0xFD :: uint8) = (0xFD :: uint64)" "ucast (0xFE :: uint8) = (0xFE :: uint64)"
  by simp_all

lemma load_save_varint: "load_varint (save_varint v @ s) = Inr (v, s)"
proof -
  consider "v < 0xFD" | "0xFD \<le> v" "v \<le> 0xFFFF" | "0xFFFF < v" "v \<le> 0xFFFFFFFF" | "0xFFFFFFFF < v"
    by (meson not_le)
  then show ?thesis
  proof cases
    case 1
    then have "v < 2 ^ 8" by (simp add: word_less_def)
    then have "take_bit 8 v = v" by (intro take_bit_of_less) simp_all
    then have "le_word [ucast v] = v"
      using le_word_le_bytes_take [of 1 v] by simp
    moreover have "\<not> 0xFD \<le> v" using 1 by simp
    ultimately show ?thesis
      using 1 by (simp add: save_varint_def load_varint_def Read_def codec_simps ld_bind_def)
  next
    case 2
    then have "v < 2 ^ 16" "v < 2 ^ 56" by (simp_all add: word_less_def word_le_def)
    then have t: "take_bit 16 v = v" "take_bit 56 v = v" by (simp_all add: take_bit_of_less)
    have "\<not> v < 0xFD" using 2 by simp
    then have "save_varint v = le_bytes (Suc 2) (push_bit 8 v OR ucast (0xFD :: uint8))"
      using 2(2) by (simp only: save_varint_def if_False if_True plus_1_eq_Suc tag_bytes)
    also have "\<dots> = 0xFD # le_bytes 2 v"
      by (rule save_varint_tagged [OF t(2)]) simp
    finally have "save_varint v = 0xFD # le_bytes 2 v" .
    then show ?thesis
      using load_varint_tagged [of 0 "le_bytes 2 v" s] le_word_le_bytes_take [of 2 v] t by simp
  next
    case 3
    then have "v < 2 ^ 32" "v < 2 ^ 56" by (simp_all add: word_less_def word_le_def)
    then have t: "take_bit 32 v = v" "take_bit 56 v = v" by (simp_all add: take_bit_of_less)
    have "\<not> v \<le> 0xFFFF" using 3 by simp
    moreover have "\<not> v < 0xFD" using 3 by (auto simp: word_less_def)
    ultimately have "save_varint v = le_bytes (Suc 4) (push_bit 8 v OR ucast (0xFE :: uint8))"
      using 3(2) by (simp only: save_varint_def if_False if_True plus_1_eq_Suc tag_bytes)
    also have "\<dots> = 0xFE # le_bytes 4 v"
      by (rule save_varint_tagged [OF t(2)]) simp
    finally have "save_varint v = 0xFE # le_bytes 4 v" .
    then show ?thesis
      using load_varint_tagged [of 1 "le_bytes 4 v" s] le_word_le_bytes_take [of 4 v] t by simp
  next
    case 4
    then have "\<not> v < 0xFD" "\<not> v \<le> 0xFFFF" "\<not> v \<le> 0xFFFFFFFF"
      by (auto simp: word_less_def word_le_def)
    then have "save_varint v = 0xFF # le_bytes 8 v"
      by (simp add: save_varint_def)
    then show ?thesis
      using load_varint_tagged [of 2 "le_bytes 8 v" s] le_word_le_bytes [of 8 v] by simp
  qed
qed

interpretation varint: codec save_varint load_varint size_varint "\<lambda>_. True"
proof
  show "load_varint (save_varint a @ s) = Inr (a, s)" for a s
    by (rule load_save_varint)
  show "size_varint a = length (save_varint a)" for a
    by (simp add: size_varint_def save_varint_def)
qed

section \<open>Strings, vectors, pairs and maps\<close>

text \<open>\<^verbatim>\<open>std::string\<close> and \<^verbatim>\<open>std::vector\<close> refuse to grow beyond \<^verbatim>\<open>PTRDIFF_MAX\<close> bytes.\<close>

definition max_size :: nat where
  "max_size = 2 ^ 63 - 1"

definition save_string :: "bytes \<Rightarrow> bytes" where
  "save_string t = save_varint (of_nat (length t)) @ t"

definition load_string :: "bytes loader" where
  "load_string = ld_bind load_varint (\<lambda>nValue.
    if unat nValue > max_size then ld_throw LengthError else Read (unat nValue))"

definition size_string :: "bytes \<Rightarrow> nat" where
  "size_string t = size_varint (of_nat (length t)) + length t"

text \<open>Vectors of a fundamental type are one block of memory; the announced length is compared with
  what is left of the stream, with the product of \<^verbatim>\<open>sizeof(T) * nValue\<close> computed in 64 bits.\<close>

definition save_vector_basic :: "('a::len word) list \<Rightarrow> bytes" where
  "save_vector_basic t =
    save_varint (of_nat (length t)) @ (if length t > 0 then concat (map save_basic t) else [])"

primrec split_basic :: "nat \<Rightarrow> bytes \<Rightarrow> ('a::len word) list" where
  "split_basic 0 bs = []"
| "split_basic (Suc n) bs =
    le_word (take (LENGTH('a) div 8) bs) # split_basic n (drop (LENGTH('a) div 8) bs)"

definition load_vector_basic :: "('a::len word) list loader" where
  "load_vector_basic = ld_bind load_varint (\<lambda>nValue.
    if nValue > 0 then
      \<lambda>s. (let len = of_nat (LENGTH('a) div 8) * nValue in
           if length s < unat len then Inl ReadSizeError
           else if unat nValue * (LENGTH('a) div 8) > max_size then Inl LengthError
           else ld_bind (Read (unat len)) (\<lambda>bs. ld_return (split_basic (unat nValue) bs)) s)
    else ld_return [])"

definition size_vector_basic :: "('a::len word) list \<Rightarrow> nat" where
  "size_vector_basic t =
    size_varint (of_nat (length t)) + (if length t > 0 then LENGTH('a) div 8 * length t else 0)"

text \<open>Vectors of objects save and load one element after the other.\<close>

definition save_vector :: "('a \<Rightarrow> bytes) \<Rightarrow> 'a list \<Rightarrow> bytes" where
  "save_vector sv t = save_varint (of_nat (length t)) @ concat (map sv t)"

primrec load_n :: "'a loader \<Rightarrow> nat \<Rightarrow> 'a list loader" where
  "load_n ld 0 = ld_return []"
| "load_n ld (Suc n) = ld_bind ld (\<lambda>x. ld_bind (load_n ld n) (\<lambda>l. ld_return (x # l)))"

definition load_vector :: "'a loader \<Rightarrow> 'a list loader" where
  "load_vector ld = ld_bind load_varint (\<lambda>nValue. load_n ld (unat nValue))"

definition size_vector :: "('a \<Rightarrow> nat) \<Rightarrow> 'a list \<Rightarrow> nat" where
  "size_vector sz t = size_varint (of_nat (length t)) + sum_list (map sz t)"

definition save_pair :: "('a \<Rightarrow> bytes) \<Rightarrow> ('b \<Rightarrow> bytes) \<Rightarrow> 'a \<times> 'b \<Rightarrow> bytes" where
  "save_pair sa sb t = sa (fst t) @ sb (snd t)"

definition load_pair :: "'a loader \<Rightarrow> 'b loader \<Rightarrow> ('a \<times> 'b) loader" where
  "load_pair la lb = ld_bind la (\<lambda>a. ld_bind lb (\<lambda>b. ld_return (a, b)))"

definition size_pair :: "('a \<Rightarrow> nat) \<Rightarrow> ('b \<Rightarrow> nat) \<Rightarrow> 'a \<times> 'b \<Rightarrow> nat" where
  "size_pair za zb t = za (fst t) + zb (snd t)"

text \<open>Loading a map inserts into the map that is passed in: a key that is present keeps its value.\<close>

definition save_map :: "('k \<times> 'v \<Rightarrow> bytes) \<Rightarrow> ('k, 'v) stdmap \<Rightarrow> bytes" where
  "save_map sv t = save_varint (of_nat (length t)) @ concat (map sv t)"

primrec load_inserts :: "('k \<times> 'v) loader \<Rightarrow> ('k \<Rightarrow> 'v \<Rightarrow> 'm \<Rightarrow> 'm) \<Rightarrow> nat \<Rightarrow> 'm \<Rightarrow> 'm loader" where
  "load_inserts ld ins 0 t = ld_return t"
| "load_inserts ld ins (Suc n) t = ld_bind ld (\<lambda>item. load_inserts ld ins n (ins (fst item) (snd item) t))"

definition load_map :: "('k::linorder \<times> 'v) loader \<Rightarrow> ('k, 'v) stdmap \<Rightarrow> ('k, 'v) stdmap loader" where
  "load_map ld t = ld_bind load_varint (\<lambda>nValue. load_inserts ld map_insert (unat nValue) t)"

definition load_multimap :: "('k::linorder \<times> 'v) loader \<Rightarrow> ('k, 'v) stdmap \<Rightarrow> ('k, 'v) stdmap loader" where
  "load_multimap ld t = ld_bind load_varint (\<lambda>nValue. load_inserts ld multimap_insert (unat nValue) t)"

definition size_map :: "('k \<times> 'v \<Rightarrow> nat) \<Rightarrow> ('k, 'v) stdmap \<Rightarrow> nat" where
  "size_map sz t = size_varint (of_nat (length t)) + sum_list (map sz t)"

section \<open>The contract holds for the composite types\<close>

lemma unat_length: "length t < 2 ^ 64 \<Longrightarrow> unat (of_nat (length t) :: uint64) = length t"
  by (simp add: unat_of_nat)

lemma ld_bind_varint [codec_simps]: "ld_bind load_varint f (save_varint v @ s) = f v s"
  by (rule ld_bind_Inr) (rule load_save_varint)

lemma codec_string: "codec save_string load_string size_string (\<lambda>t. length t \<le> max_size)"
proof
  fix a s :: bytes
  assume a: "length a \<le> max_size"
  then have "unat (of_nat (length a) :: uint64) = length a"
    by (intro unat_length) (simp add: max_size_def)
  with a show "load_string (save_string a @ s) = Inr (a, s)"
    by (simp add: load_string_def save_string_def codec_simps)
qed (simp add: size_string_def save_string_def varint.size_save)

interpretation string: codec save_string load_string size_string "\<lambda>t. length t \<le> max_size"
  by (rule codec_string)

lemma length_concat_save_basic:
  "length (concat (map save_basic (t :: 'a::len word list))) = LENGTH('a) div 8 * length t"
  by (induction t) (simp_all add: save_basic_def)

lemma split_basic_save:
  assumes "8 dvd LENGTH('a::len)"
  shows "split_basic (length t) (concat (map save_basic (t :: 'a word list))) = t"
proof (induction t)
  case (Cons x t)
  have "le_word (save_basic x) = x"
    using assms by (simp add: save_basic_def le_word_le_bytes)
  moreover have "length (save_basic x) = LENGTH('a) div 8"
    by (simp add: save_basic_def)
  ultimately show ?case using Cons by simp
qed simp

lemma codec_vector_basic:
  assumes "8 dvd LENGTH('a::len)"
  shows "codec save_vector_basic load_vector_basic size_vector_basic
    (\<lambda>t :: 'a word list. length t * (LENGTH('a) div 8) \<le> max_size)"
proof
  fix a :: "'a word list" and s
  assume a: "length a * (LENGTH('a) div 8) \<le> max_size"
  have pos: "LENGTH('a) div 8 > 0"
    using assms len_gt_0 [where 'a = 'a] by (metis dvd_div_eq_0_iff gr0I less_irrefl)
  then have "length a \<le> length a * (LENGTH('a) div 8)" by simp
  with a have len: "length a \<le> max_size" by linarith
  then have u: "unat (of_nat (length a) :: uint64) = length a"
    by (intro unat_length) (simp add: max_size_def)
  have "of_nat (LENGTH('a) div 8) * of_nat (length a) = (of_nat (LENGTH('a) div 8 * length a) :: uint64)"
    by simp
  moreover have "LENGTH('a) div 8 * length a < 2 ^ 64"
    using a by (simp add: max_size_def mult.commute)
  ultimately have l: "unat (of_nat (LENGTH('a) div 8) * of_nat (length a) :: uint64) = LENGTH('a) div 8 * length a"
    by (simp only: unat_of_nat) simp
  show "load_vector_basic (save_vector_basic a @ s) = Inr (a, s)"
  proof (cases "a = []")
    case True
    then show ?thesis by (simp add: load_vector_basic_def save_vector_basic_def codec_simps)
  next
    case False
    then have "(0 :: uint64) < of_nat (length a)"
      using u by (metis length_0_conv unat_0 word_gt_0)
    then show ?thesis
      using False a u l
      by (simp add: load_vector_basic_def save_vector_basic_def codec_simps Let_def
          length_concat_save_basic split_basic_save [OF assms])
  qed
qed (auto simp: size_vector_basic_def save_vector_basic_def varint.size_save length_concat_save_basic)

lemma load_n_save:
  assumes "codec sv ld sz v" "list_all v t"
  shows "load_n ld (length t) (concat (map sv t) @ s) = Inr (t, s)"
  using assms(2)
proof (induction t)
  case (Cons x t)
  then have "ld (sv x @ concat (map sv t) @ s) = Inr (x, concat (map sv t) @ s)"
    using codec.load_save [OF assms(1)] by simp
  with Cons show ?case by (simp add: codec_simps)
qed (simp add: codec_simps)

lemma codec_vector:
  assumes "codec sv ld sz v"
  shows "codec (save_vector sv) (load_vector ld) (size_vector sz) (\<lambda>t. length t < 2 ^ 64 \<and> list_all v t)"
proof
  fix a s
  assume a: "length a < 2 ^ 64 \<and> list_all v a"
  then show "load_vector ld (save_vector sv a @ s) = Inr (a, s)"
    by (simp add: load_vector_def save_vector_def codec_simps load_n_save [OF assms] unat_length)
  have "sum_list (map sz a) = length (concat (map sv a))"
    using a codec.size_save [OF assms] by (induction a) auto
  then show "size_vector sz a = length (save_vector sv a)"
    by (simp add: size_vector_def save_vector_def varint.size_save)
qed

lemma codec_pair:
  assumes "codec sa la za va" "codec sb lb zb vb"
  shows "codec (save_pair sa sb) (load_pair la lb) (size_pair za zb) (\<lambda>t. va (fst t) \<and> vb (snd t))"
proof
  fix a s
  assume "va (fst a) \<and> vb (snd a)"
  then show "load_pair la lb (save_pair sa sb a @ s) = Inr (a, s)"
    and "size_pair za zb a = length (save_pair sa sb a)"
    using codec.load_save [OF assms(1)] codec.load_save [OF assms(2)]
      codec.size_save [OF assms(1)] codec.size_save [OF assms(2)]
    by (simp_all add: load_pair_def save_pair_def size_pair_def codec_simps)
qed

lemma load_inserts_save:
  assumes "codec sv ld sz v" "list_all v t"
  shows "load_inserts ld ins (length t) m (concat (map sv t) @ s)
    = Inr (fold (\<lambda>item. ins (fst item) (snd item)) t m, s)"
  using assms(2)
proof (induction t arbitrary: m)
  case (Cons x t)
  then have "ld (sv x @ concat (map sv t) @ s) = Inr (x, concat (map sv t) @ s)"
    using codec.load_save [OF assms(1)] by simp
  with Cons show ?case by (simp add: codec_simps)
qed (simp add: codec_simps)

lemma map_set_snoc: "\<forall>p\<in>set m. fst p < k \<Longrightarrow> map_set k v m = m @ [(k, v)]"
  by (induction k v m rule: map_set.induct) auto

lemma fold_map_insert_ordered:
  assumes "ordered_keys (m @ t)"
  shows "fold (\<lambda>item. map_insert (fst item) (snd item)) t m = m @ t"
  using assms
proof (induction t arbitrary: m)
  case (Cons x t)
  have lt: "\<forall>p\<in>set m. fst p < fst x"
    using Cons.prems by (auto simp: ordered_keys_def sorted_wrt_append)
  then have "map_of m (fst x) = None"
    by (auto simp: map_of_eq_None_iff)
  then have "map_insert (fst x) (snd x) m = m @ [x]"
    using lt by (simp add: map_insert_def map_set_snoc)
  with Cons show ?case by simp
qed simp

lemma codec_map:
  assumes "codec sv ld sz v"
  shows "codec (save_map sv) (load_map ld []) (size_map sz)
    (\<lambda>t. length t < 2 ^ 64 \<and> ordered_keys t \<and> list_all v t)"
proof
  fix a s
  assume a: "length a < 2 ^ 64 \<and> ordered_keys a \<and> list_all v a"
  then show "load_map ld [] (save_map sv a @ s) = Inr (a, s)"
    using fold_map_insert_ordered [of "[]" a]
    by (simp add: load_map_def save_map_def codec_simps load_inserts_save [OF assms] unat_length)
  have "sum_list (map sz a) = length (concat (map sv a))"
    using a codec.size_save [OF assms] by (induction a) auto
  then show "size_map sz a = length (save_map sv a)"
    by (simp add: size_map_def save_map_def varint.size_save)
qed

lemma multimap_insert_snoc: "\<forall>p\<in>set m. fst p \<le> k \<Longrightarrow> multimap_insert k v m = m @ [(k, v)]"
  by (induction k v m rule: multimap_insert.induct) auto

lemma fold_multimap_insert_sorted:
  assumes "sorted (map fst (m @ t))"
  shows "fold (\<lambda>item. multimap_insert (fst item) (snd item)) t m = m @ t"
  using assms
proof (induction t arbitrary: m)
  case (Cons x t)
  have "\<forall>p\<in>set m. fst p \<le> fst x"
    using Cons.prems by (auto simp: sorted_append)
  then have "multimap_insert (fst x) (snd x) m = m @ [x]"
    by (simp add: multimap_insert_snoc)
  with Cons show ?case by simp
qed simp

lemma codec_multimap:
  assumes "codec sv ld sz v"
  shows "codec (save_map sv) (load_multimap ld []) (size_map sz)
    (\<lambda>t. length t < 2 ^ 64 \<and> sorted (map fst t) \<and> list_all v t)"
proof
  fix a s
  assume a: "length a < 2 ^ 64 \<and> sorted (map fst a) \<and> list_all v a"
  then show "load_multimap ld [] (save_map sv a @ s) = Inr (a, s)"
    using fold_multimap_insert_sorted [of "[]" a]
    by (simp add: load_multimap_def save_map_def codec_simps load_inserts_save [OF assms] unat_length)
  have "sum_list (map sz a) = length (concat (map sv a))"
    using a codec.size_save [OF assms] by (induction a) auto
  then show "size_map sz a = length (save_map sv a)"
    by (simp add: size_map_def save_map_def varint.size_save)
qed

section \<open>Destinations\<close>

definition save_dest :: "CDestination \<Rightarrow> bytes" where
  "save_dest d = save_basic (dest_prefix d) @ save_basic (dest_data d)"

definition load_dest :: "CDestination loader" where
  "load_dest = ld_bind load_basic (\<lambda>p. ld_bind load_basic (\<lambda>d. ld_return (CDestination p d)))"

definition size_dest :: "CDestination \<Rightarrow> nat" where
  "size_dest d = size_basic (dest_prefix d) + size_basic (dest_data d)"

interpretation dest: codec save_dest load_dest size_dest "\<lambda>_. True"
  by standard
    (simp_all add: save_dest_def load_dest_def size_dest_def codec_simps u8.load_save h256.load_save
      u8.size_save h256.size_save)

section \<open>Properties\<close>

text \<open>A compact size is loaded back from its 1, 3, 5 or 9 bytes, for every 64-bit value, whatever
  follows in the stream, and \<^verbatim>\<open>GetSerializeSize\<close> announces the number of bytes.\<close>

theorem varint_roundtrip:
  "load_varint (save_varint v @ s) = Inr (v, s) \<and> size_varint v = length (save_varint v)"
  using varint.load_save [of v s] varint.size_save [of v] by simp



end
