(* ===== verification/DataStream.thy ===== *)
theory DataStream
  imports Stream
begin

text \<open>
  The second serializer, \<^verbatim>\<open>CODataStream\<close> and \<^verbatim>\<open>CIDataStream\<close> of \<^verbatim>\<open>src/xengine/stream/datastream.h\<close>, used
  for template parameters and proofs: sizes are plain 64-bit integers, popping checks the
  range, maps refuse duplicate keys. The input stream is the list of the bytes from
  \<^verbatim>\<open>nPosition\<close> on. The extraction of a vector of a fundamental type does not compare the announced size
  with the buffer: the model returns \<open>UndefinedRead\<close> where the code reads past the end.
\<close>

unbundle bit_operations_syntax

section \<open>Output\<close>

definition od_push :: "'a::len word \<Rightarrow> bytes" where
  "od_push data = le_bytes (LENGTH('a) div 8) data"

definition od_vector_basic :: "('a::len word) list \<Rightarrow> bytes" where
  "od_vector_basic data =
    od_push (of_nat (length data) :: uint64) @ (if length data > 0 then concat (map od_push data) else [])"

definition od_vector :: "('a \<Rightarrow> bytes) \<Rightarrow> 'a list \<Rightarrow> bytes" where
  "od_vector sv data = od_push (of_nat (length data) :: uint64) @ concat (map sv data)"

definition od_map :: "('k \<Rightarrow> bytes) \<Rightarrow> ('v \<Rightarrow> bytes) \<Rightarrow> ('k, 'v) stdmap \<Rightarrow> bytes" where
  "od_map sk sv data =
    od_push (of_nat (length data) :: uint64) @ concat (map (\<lambda>it. sk (fst it) @ sv (snd it)) data)"

section \<open>Input\<close>

definition id_pop :: "nat \<Rightarrow> bytes loader" where
  "id_pop n s = (if n > length s then Inl RangeError else Inr (take n s, drop n s))"

definition id_basic :: "('a::len word) loader" where
  "id_basic = ld_bind (id_pop (LENGTH('a) div 8)) (\<lambda>bs. ld_return (le_word bs))"

definition id_vector_basic :: "('a::len word) list loader" where
  "id_vector_basic = ld_bind (id_basic :: uint64 loader) (\<lambda>size s.
    let n = unat size * (LENGTH('a) div 8) in
    if n > length s then Inl UndefinedRead
    else Inr (split_basic (unat size) (take n s), drop n s))"

definition id_vector :: "'a loader \<Rightarrow> 'a list loader" where
  "id_vector ld = ld_bind (id_basic :: uint64 loader) (\<lambda>size. load_n ld (unat size))"

primrec id_map_loop :: "'k::linorder loader \<Rightarrow> 'v loader \<Rightarrow> nat \<Rightarrow> ('k, 'v) stdmap \<Rightarrow> ('k, 'v) stdmap loader" where
  "id_map_loop lk lv 0 data = ld_return data"
| "id_map_loop lk lv (Suc n) data =
    ld_bind lk (\<lambda>k. ld_bind lv (\<lambda>v.
      case map_of data k of
        Some _ \<Rightarrow> ld_throw DataConflict
      | None \<Rightarrow> id_map_loop lk lv n (map_insert k v data)))"

definition id_map :: "'k::linorder loader \<Rightarrow> 'v loader \<Rightarrow> ('k, 'v) stdmap \<Rightarrow> ('k, 'v) stdmap loader" where
  "id_map lk lv data = ld_bind (id_basic :: uint64 loader) (\<lambda>size. id_map_loop lk lv (unat size) data)"

section \<open>Contracts\<close>

lemma codec_od_basic:
  assumes "8 dvd LENGTH('a::len)"
  shows "codec od_push id_basic size_basic (\<lambda>t :: 'a word. True)"
proof
  fix a :: "'a word" and s
  have "le_word (le_bytes (LENGTH('a) div 8) a) = a"
    using assms by (intro le_word_le_bytes) simp
  then show "id_basic (od_push a @ s) = Inr (a, s)"
    by (simp add: id_basic_def od_push_def id_pop_def ld_bind_def codec_simps)
qed (simp add: size_basic_def od_push_def)

interpretation d8: codec od_push id_basic size_basic "\<lambda>t :: uint8. True"
  by (rule codec_od_basic) simp

interpretation d16: codec od_push id_basic size_basic "\<lambda>t :: uint16. True"
  by (rule codec_od_basic) simp

interpretation d32: codec od_push id_basic size_basic "\<lambda>t :: uint32. True"
  by (rule codec_od_basic) simp

interpretation d64: codec od_push id_basic size_basic "\<lambda>t :: uint64. True"
  by (rule codec_od_basic) simp

interpretation d256: codec od_push id_basic size_basic "\<lambda>t :: uint256. True"
  by (rule codec_od_basic) simp

lemma ld_bind_size [codec_simps]: "ld_bind id_basic f (od_push (n :: uint64) @ s) = f n s"
  by (rule ld_bind_Inr) (simp add: d64.load_save)

lemma length_concat_od_push:
  "length (concat (map od_push (t :: 'a::len word list))) = length t * (LENGTH('a) div 8)"
  by (induction t) (simp_all add: od_push_def)

lemma split_basic_od_push:
  assumes "8 dvd LENGTH('a::len)"
  shows "split_basic (length t) (concat (map od_push (t :: 'a word list))) = t"
  using split_basic_save [OF assms, of t] by (simp add: save_basic_def [abs_def] od_push_def [abs_def])

lemma codec_od_vector_basic:
  assumes "8 dvd LENGTH('a::len)"
  shows "codec od_vector_basic id_vector_basic (\<lambda>t. 8 + length t * (LENGTH('a) div 8))
    (\<lambda>t :: 'a word list. length t < 2 ^ 64)"
proof
  fix a :: "'a word list" and s
  assume a: "length a < 2 ^ 64"
  have e: "od_vector_basic a = od_push (of_nat (length a) :: uint64) @ concat (map od_push a)"
    by (simp add: od_vector_basic_def)
  show "id_vector_basic (od_vector_basic a @ s) = Inr (a, s)"
    unfolding e using a split_basic_od_push [OF assms, of a]
    by (simp add: id_vector_basic_def codec_simps unat_length length_concat_od_push Let_def)
  show "8 + length a * (LENGTH('a) div 8) = length (od_vector_basic a)"
    unfolding e by (simp add: length_concat_od_push) (simp add: od_push_def)
qed

lemma codec_od_vector:
  assumes "codec sv ld sz v"
  shows "codec (od_vector sv) (id_vector ld) (\<lambda>t. 8 + sum_list (map sz t))
    (\<lambda>t. length t < 2 ^ 64 \<and> list_all v t)"
proof
  fix a s
  assume a: "length a < 2 ^ 64 \<and> list_all v a"
  then show "id_vector ld (od_vector sv a @ s) = Inr (a, s)"
    by (simp add: id_vector_def od_vector_def codec_simps load_n_save [OF assms] unat_length)
  have "sum_list (map sz a) = length (concat (map sv a))"
    using a codec.size_save [OF assms] by (induction a) auto
  then show "8 + sum_list (map sz a) = length (od_vector sv a)"
    by (simp add: od_vector_def) (simp add: od_push_def)
qed

lemma id_map_loop_save:
  assumes "codec sk lk zk vk" "codec sv lv zv vv"
    and "ordered_keys (m @ t)" "list_all (\<lambda>it. vk (fst it) \<and> vv (snd it)) t"
  shows "id_map_loop lk lv (length t) m (concat (map (\<lambda>it. sk (fst it) @ sv (snd it)) t) @ s) = Inr (m @ t, s)"
  using assms(3,4)
proof (induction t arbitrary: m)
  case (Cons x t)
  let ?r = "concat (map (\<lambda>it. sk (fst it) @ sv (snd it)) t) @ s"
  have "lk (sk (fst x) @ sv (snd x) @ ?r) = Inr (fst x, sv (snd x) @ ?r)" "lv (sv (snd x) @ ?r) = Inr (snd x, ?r)"
    using Cons.prems codec.load_save [OF assms(1)] codec.load_save [OF assms(2)] by simp_all
  moreover have lt: "\<forall>p\<in>set m. fst p < fst x"
    using Cons.prems by (auto simp: ordered_keys_def sorted_wrt_append)
  then have n: "map_of m (fst x) = None"
    by (auto simp: map_of_eq_None_iff)
  moreover have "map_insert (fst x) (snd x) m = m @ [x]"
    using lt n by (simp add: map_insert_def map_set_snoc)
  ultimately show ?case
    using Cons by (simp add: codec_simps)
qed (simp add: codec_simps)

lemma id_map_conflict:
  assumes "codec sk lk zk vk" "codec sv lv zv vv" "vk k" "vv v" "map_of m k \<noteq> None"
  shows "id_map_loop lk lv (Suc n) m (sk k @ sv v @ s) = Inl DataConflict"
  using assms codec.load_save [OF assms(1), of k "sv v @ s"] codec.load_save [OF assms(2), of v s]
  by (auto simp: codec_simps)

section \<open>Properties\<close>

text \<open>What \<^verbatim>\<open>CODataStream\<close> writes for a vector or a map of serializable elements, \<^verbatim>\<open>CIDataStream\<close>
  reads back; reading a map in which a key occurs twice raises the conflict error.\<close>

theorem datastream_roundtrip:
  assumes "codec sk lk zk vk" "codec sv lv zv vv" "length t < 2 ^ 64"
    and "list_all (\<lambda>it. vk (fst it) \<and> vv (snd it)) t" "ordered_keys t"
  shows "id_map lk lv [] (od_map sk sv t @ s) = Inr (t, s)
    \<and> id_vector lk (od_vector sk (map fst t) @ s) = Inr (map fst t, s)
    \<and> (vk k \<longrightarrow> vv v \<longrightarrow> k \<in> fst ` set t \<longrightarrow> id_map_loop lk lv (Suc n) t (sk k @ sv v @ s) = Inl DataConflict)"
proof (intro conjI impI)
  show "id_map lk lv [] (od_map sk sv t @ s) = Inr (t, s)"
    using id_map_loop_save [OF assms(1,2), of "[]" t s] assms(3-5)
    by (simp add: id_map_def od_map_def codec_simps unat_length)
  have "list_all vk (map fst t)"
    using assms(4) by (auto simp: list_all_iff)
  then show "id_vector lk (od_vector sk (map fst t) @ s) = Inr (map fst t, s)"
    using codec.load_save [OF codec_od_vector [OF assms(1)], of "map fst t" s] assms(3) by simp
  show "id_map_loop lk lv (Suc n) t (sk k @ sv v @ s) = Inl DataConflict"
    if "vk k" "vv v" "k \<in> fst ` set t"
    using id_map_conflict [OF assms(1,2) that(1,2)] that(3) by (auto simp: map_of_eq_None_iff)
qed

theorem datastream_roundtrip_witness:
  "id_map id_basic id_basic [] (od_map od_push od_push [(1 :: uint8, 2 :: uint16)] @ [9])
    = Inr ([(1 :: uint8, 2 :: uint16)], [9])"
  using datastream_roundtrip [OF d8.codec_axioms d16.codec_axioms, of "[(1, 2)]" "[9]" 1 2 0] by simp



end
