(* ===== verification/Transaction.thy ===== *)
theory Transaction
  imports DataStream
begin

text \<open>
  Transactions and the records derived from them, \<^verbatim>\<open>src/common/transaction.h\<close>: out points, inputs,
  the transaction with its hash and lock field, outputs, unspent outputs, assembled transactions,
  transaction contexts and the address index. Each class is a record (or a data type, where the
  source orders its values), each \<^verbatim>\<open>Serialize\<close> a save/load/size triple that satisfies the contract
  \<open>codec\<close>. The hash function (BLAKE2b of libsodium) is the parameter \<open>H\<close>. Signed integers are
  words read by \<open>sint\<close>; sums of amounts wrap.
\<close>

unbundle bit_operations_syntax

section \<open>Out points and inputs\<close>

datatype CTxOutPoint = CTxOutPoint (op_hash: uint256) (op_n: uint8)

definition outpoint_SetNull :: CTxOutPoint where
  "outpoint_SetNull = CTxOutPoint 0 (- 1)"

definition outpoint_IsNull :: "CTxOutPoint \<Rightarrow> bool" where
  "outpoint_IsNull o1 \<longleftrightarrow> op_hash o1 = 0 \<and> op_n o1 = - 1"

instantiation CTxOutPoint :: linorder
begin

definition less_CTxOutPoint :: "CTxOutPoint \<Rightarrow> CTxOutPoint \<Rightarrow> bool" where
  "less_CTxOutPoint a b \<longleftrightarrow> op_hash a < op_hash b \<or> (op_hash a = op_hash b \<and> op_n a < op_n b)"

definition less_eq_CTxOutPoint :: "CTxOutPoint \<Rightarrow> CTxOutPoint \<Rightarrow> bool" where
  "less_eq_CTxOutPoint a b \<longleftrightarrow> a < b \<or> a = b"

instance
  by standard (auto simp: less_CTxOutPoint_def less_eq_CTxOutPoint_def intro: CTxOutPoint.expand)

end

definition save_outpoint :: "CTxOutPoint \<Rightarrow> bytes" where
  "save_outpoint o1 = save_basic (op_hash o1) @ save_basic (op_n o1)"

definition load_outpoint :: "CTxOutPoint loader" where
  "load_outpoint = ld_bind load_basic (\<lambda>h. ld_bind load_basic (\<lambda>n. ld_return (CTxOutPoint h n)))"

definition size_outpoint :: "CTxOutPoint \<Rightarrow> nat" where
  "size_outpoint o1 = size_basic (op_hash o1) + size_basic (op_n o1)"

interpretation outpoint: codec save_outpoint load_outpoint size_outpoint "\<lambda>_. True"
  by standard
    (simp_all add: save_outpoint_def load_outpoint_def size_outpoint_def codec_simps u8.load_save
      h256.load_save u8.size_save h256.size_save)

record CTxIn =
  prevout :: CTxOutPoint

definition save_txin :: "CTxIn \<Rightarrow> bytes" where
  "save_txin i = save_outpoint (prevout i)"

definition load_txin :: "CTxIn loader" where
  "load_txin = ld_bind load_outpoint (\<lambda>p. ld_return \<lparr>prevout = p\<rparr>)"

definition size_txin :: "CTxIn \<Rightarrow> nat" where
  "size_txin i = size_outpoint (prevout i)"

interpretation txin: codec save_txin load_txin size_txin "\<lambda>_. True"
  by standard
    (simp_all add: save_txin_def load_txin_def size_txin_def codec_simps outpoint.load_save outpoint.size_save)

interpretation vinput: codec "save_vector save_txin" "load_vector load_txin" "size_vector size_txin"
  "\<lambda>t. length t < 2 ^ 64 \<and> list_all (\<lambda>_. True) t"
  by (rule codec_vector) (rule txin.codec_axioms)

interpretation vch: codec save_vector_basic load_vector_basic size_vector_basic
  "\<lambda>t :: bytes. length t * (LENGTH(8) div 8) \<le> max_size"
  by (rule codec_vector_basic) simp

section \<open>Transactions\<close>

record CTransaction =
  tx_nVersion :: uint16
  tx_nType :: uint16
  tx_nTimeStamp :: uint32
  tx_nLockUntil :: uint32
  tx_hashAnchor :: uint256
  tx_vInput :: "CTxIn list"
  tx_sendTo :: CDestination
  tx_nAmount :: int64
  tx_nTxFee :: int64
  tx_vchData :: bytes
  tx_vchSig :: bytes

definition TX_TOKEN :: uint16 where "TX_TOKEN = 0x0000"
definition TX_CERT :: uint16 where "TX_CERT = 0xff00"
definition TX_GENESIS :: uint16 where "TX_GENESIS = 0x0100"
definition TX_STAKE :: uint16 where "TX_STAKE = 0x0200"
definition TX_WORK :: uint16 where "TX_WORK = 0x0300"
definition TX_DEFI_REWARD :: uint16 where "TX_DEFI_REWARD = 0x0001"
definition TX_DEFI_RELATION :: uint16 where "TX_DEFI_RELATION = 0x0002"
definition TX_DEFI_MINT_HEIGHT :: uint16 where "TX_DEFI_MINT_HEIGHT = 0x0003"

lemmas tx_type_defs = TX_TOKEN_def TX_CERT_def TX_GENESIS_def TX_STAKE_def TX_WORK_def
  TX_DEFI_REWARD_def TX_DEFI_RELATION_def TX_DEFI_MINT_HEIGHT_def

definition tx_SetNull :: CTransaction where
  "tx_SetNull = \<lparr>tx_nVersion = 1, tx_nType = 0, tx_nTimeStamp = 0, tx_nLockUntil = 0, tx_hashAnchor = 0,
     tx_vInput = [], tx_sendTo = dest_SetNull, tx_nAmount = 0, tx_nTxFee = 0, tx_vchData = [], tx_vchSig = []\<rparr>"

definition tx_IsNull :: "CTransaction \<Rightarrow> bool" where
  "tx_IsNull tx \<longleftrightarrow> tx_vInput tx = [] \<and> dest_IsNull (tx_sendTo tx)"

definition IsMintTx :: "CTransaction \<Rightarrow> bool" where
  "IsMintTx tx \<longleftrightarrow> tx_nType tx = TX_GENESIS \<or> tx_nType tx = TX_STAKE \<or> tx_nType tx = TX_WORK"

definition IsDeFiRelation :: "CTransaction \<Rightarrow> bool" where
  "IsDeFiRelation tx \<longleftrightarrow> tx_nType tx = TX_DEFI_RELATION"

definition GetTypeStringStatic :: "uint16 \<Rightarrow> string" where
  "GetTypeStringStatic nTxType =
    (if nTxType = TX_TOKEN then ''token''
     else if nTxType = TX_CERT then ''certification''
     else if nTxType = TX_GENESIS then ''genesis''
     else if nTxType = TX_STAKE then ''stake''
     else if nTxType = TX_WORK then ''work''
     else if nTxType = TX_DEFI_REWARD then ''defi-reward''
     else if nTxType = TX_DEFI_RELATION then ''defi-relation''
     else if nTxType = TX_DEFI_MINT_HEIGHT then ''defi-mint-height''
     else ''undefined'')"

text \<open>The serialization without the signature, which is what is signed, and the full one.\<close>

definition save_tx_unsigned :: "CTransaction \<Rightarrow> bytes" where
  "save_tx_unsigned tx =
    save_basic (tx_nVersion tx) @ save_basic (tx_nType tx) @ save_basic (tx_nTimeStamp tx) @
    save_basic (tx_nLockUntil tx) @ save_basic (tx_hashAnchor tx) @ save_vector save_txin (tx_vInput tx) @
    save_dest (tx_sendTo tx) @ save_basic (tx_nAmount tx) @ save_basic (tx_nTxFee tx) @
    save_vector_basic (tx_vchData tx)"

definition save_tx :: "CTransaction \<Rightarrow> bytes" where
  "save_tx tx =
    save_basic (tx_nVersion tx) @ save_basic (tx_nType tx) @ save_basic (tx_nTimeStamp tx) @
    save_basic (tx_nLockUntil tx) @ save_basic (tx_hashAnchor tx) @ save_vector save_txin (tx_vInput tx) @
    save_dest (tx_sendTo tx) @ save_basic (tx_nAmount tx) @ save_basic (tx_nTxFee tx) @
    save_vector_basic (tx_vchData tx) @ save_vector_basic (tx_vchSig tx)"

definition load_tx :: "CTransaction loader" where
  "load_tx =
    ld_bind load_basic (\<lambda>v. ld_bind load_basic (\<lambda>ty. ld_bind load_basic (\<lambda>ts.
    ld_bind load_basic (\<lambda>lu. ld_bind load_basic (\<lambda>ha. ld_bind (load_vector load_txin) (\<lambda>vi.
    ld_bind load_dest (\<lambda>st. ld_bind load_basic (\<lambda>am. ld_bind load_basic (\<lambda>fe.
    ld_bind load_vector_basic (\<lambda>vd. ld_bind load_vector_basic (\<lambda>vs.
    ld_return \<lparr>tx_nVersion = v, tx_nType = ty, tx_nTimeStamp = ts, tx_nLockUntil = lu, tx_hashAnchor = ha,
      tx_vInput = vi, tx_sendTo = st, tx_nAmount = am, tx_nTxFee = fe, tx_vchData = vd, tx_vchSig = vs\<rparr>)))))))))))"

definition size_tx :: "CTransaction \<Rightarrow> nat" where
  "size_tx tx =
    size_basic (tx_nVersion tx) + size_basic (tx_nType tx) + size_basic (tx_nTimeStamp tx) +
    size_basic (tx_nLockUntil tx) + size_basic (tx_hashAnchor tx) + size_vector size_txin (tx_vInput tx) +
    size_dest (tx_sendTo tx) + size_basic (tx_nAmount tx) + size_basic (tx_nTxFee tx) +
    size_vector_basic (tx_vchData tx) + size_vector_basic (tx_vchSig tx)"

text \<open>The containers of a transaction hold no more elements than the address space allows.\<close>

definition tx_sized :: "CTransaction \<Rightarrow> bool" where
  "tx_sized tx \<longleftrightarrow> length (tx_vInput tx) < 2 ^ 64 \<and> length (tx_vchData tx) \<le> max_size \<and> length (tx_vchSig tx) \<le> max_size"

lemmas stream_load_save = u8.load_save u16.load_save u32.load_save u64.load_save h256.load_save
  dest.load_save varint.load_save

lemmas stream_size_save = u8.size_save u16.size_save u32.size_save u64.size_save h256.size_save
  dest.size_save varint.size_save

interpretation tx: codec save_tx load_tx size_tx tx_sized
proof
  fix tx s
  assume "tx_sized tx"
  then show "load_tx (save_tx tx @ s) = Inr (tx, s)" "size_tx tx = length (save_tx tx)"
    by (simp_all add: tx_sized_def save_tx_def load_tx_def size_tx_def codec_simps stream_load_save stream_size_save
        vinput.load_save vinput.size_save vch.load_save vch.size_save list_all_iff)
qed

definition tx_GetHash :: "(bytes \<Rightarrow> uint256) \<Rightarrow> CTransaction \<Rightarrow> uint256" where
  "tx_GetHash H tx = push_bit 224 (ucast (tx_nTimeStamp tx)) OR take_bit 224 (H (save_tx tx))"

definition GetSignatureHash :: "(bytes \<Rightarrow> uint256) \<Rightarrow> CTransaction \<Rightarrow> uint256" where
  "GetSignatureHash H tx = H (save_tx_unsigned tx)"

definition tx_GetChange :: "CTransaction \<Rightarrow> int64 \<Rightarrow> int64" where
  "tx_GetChange tx nValueIn = nValueIn - tx_nAmount tx - tx_nTxFee tx"

definition GetLockUntil :: "CTransaction \<Rightarrow> uint32 \<Rightarrow> uint32" where
  "GetLockUntil tx n = (if n = drop_bit 31 (tx_nLockUntil tx) then tx_nLockUntil tx AND 0x7FFFFFFF else 0)"

definition SetLockUntil :: "CTransaction \<Rightarrow> uint32 \<Rightarrow> uint32 \<Rightarrow> bool \<times> CTransaction" where
  "SetLockUntil tx nHeight n =
    (if drop_bit 31 nHeight \<noteq> 0 then (False, tx)
     else (True, tx\<lparr>tx_nLockUntil := push_bit 31 n OR nHeight\<rparr>))"

section \<open>Transaction ids\<close>

definition txid_GetTxTime :: "uint256 \<Rightarrow> uint32" where
  "txid_GetTxTime txid = ucast (drop_bit (32 * 7) txid)"

definition txid_GetTxHash :: "uint256 \<Rightarrow> uint224" where
  "txid_GetTxHash txid = ucast txid"

section \<open>Outputs\<close>

record CTxOut =
  out_destTo :: CDestination
  out_nAmount :: int64
  out_nTxTime :: uint32
  out_nLockUntil :: uint32

definition txout_SetNull :: CTxOut where
  "txout_SetNull = \<lparr>out_destTo = dest_SetNull, out_nAmount = 0, out_nTxTime = 0, out_nLockUntil = 0\<rparr>"

definition CTxOut_tx :: "CTransaction \<Rightarrow> CTxOut" where
  "CTxOut_tx tx =
    \<lparr>out_destTo = tx_sendTo tx, out_nAmount = tx_nAmount tx, out_nTxTime = tx_nTimeStamp tx,
     out_nLockUntil = tx_nLockUntil tx\<rparr>"

definition CTxOut_change :: "CTransaction \<Rightarrow> CDestination \<Rightarrow> int64 \<Rightarrow> CTxOut" where
  "CTxOut_change tx destToIn nValueIn =
    \<lparr>out_destTo = destToIn, out_nAmount = tx_GetChange tx nValueIn, out_nTxTime = tx_nTimeStamp tx,
     out_nLockUntil = 0\<rparr>"

definition txout_IsNull :: "CTxOut \<Rightarrow> bool" where
  "txout_IsNull out \<longleftrightarrow> dest_IsNull (out_destTo out) \<or> sint (out_nAmount out) \<le> 0"

text \<open>The height is an \<^verbatim>\<open>int\<close> and the lock field is unsigned, so the comparison is unsigned.\<close>

definition lock_holds :: "uint32 \<Rightarrow> int32 \<Rightarrow> bool" where
  "lock_holds nLockUntil nBlockHeight \<longleftrightarrow> nBlockHeight < (nLockUntil AND 0x7FFFFFFF)"

definition txout_IsLocked :: "CTxOut \<Rightarrow> int32 \<Rightarrow> bool" where
  "txout_IsLocked out nBlockHeight = lock_holds (out_nLockUntil out) nBlockHeight"

definition save_txout :: "CTxOut \<Rightarrow> bytes" where
  "save_txout out =
    save_dest (out_destTo out) @ save_basic (out_nAmount out) @ save_basic (out_nTxTime out) @
    save_basic (out_nLockUntil out)"

definition load_txout :: "CTxOut loader" where
  "load_txout =
    ld_bind load_dest (\<lambda>d. ld_bind load_basic (\<lambda>a. ld_bind load_basic (\<lambda>t. ld_bind load_basic (\<lambda>l.
    ld_return \<lparr>out_destTo = d, out_nAmount = a, out_nTxTime = t, out_nLockUntil = l\<rparr>))))"

definition size_txout :: "CTxOut \<Rightarrow> nat" where
  "size_txout out =
    size_dest (out_destTo out) + size_basic (out_nAmount out) + size_basic (out_nTxTime out) +
    size_basic (out_nLockUntil out)"

interpretation txout: codec save_txout load_txout size_txout "\<lambda>_. True"
  by standard
    (simp_all add: save_txout_def load_txout_def size_txout_def codec_simps stream_load_save stream_size_save)

record CUnspentOut =
  unspent_nAmount :: int64
  unspent_nTxType :: int32
  unspent_nTxTime :: uint32
  unspent_nLockUntil :: uint32
  unspent_nHeight :: int32

definition unspent_SetNull :: CUnspentOut where
  "unspent_SetNull = \<lparr>unspent_nAmount = 0, unspent_nTxType = - 1, unspent_nTxTime = 0, unspent_nLockUntil = 0,
     unspent_nHeight = - 1\<rparr>"

definition CUnspentOut_out :: "CTxOut \<Rightarrow> int32 \<Rightarrow> int32 \<Rightarrow> CUnspentOut" where
  "CUnspentOut_out out nTxTypeIn nHeightIn =
    \<lparr>unspent_nAmount = out_nAmount out, unspent_nTxType = nTxTypeIn, unspent_nTxTime = out_nTxTime out,
     unspent_nLockUntil = out_nLockUntil out, unspent_nHeight = nHeightIn\<rparr>"

definition unspent_IsNull :: "CUnspentOut \<Rightarrow> bool" where
  "unspent_IsNull u \<longleftrightarrow> sint (unspent_nAmount u) \<le> 0"

definition unspent_IsLocked :: "CUnspentOut \<Rightarrow> int32 \<Rightarrow> bool" where
  "unspent_IsLocked u nBlockHeight = lock_holds (unspent_nLockUntil u) nBlockHeight"

definition save_unspent :: "CUnspentOut \<Rightarrow> bytes" where
  "save_unspent u =
    save_basic (unspent_nAmount u) @ save_basic (unspent_nTxType u) @ save_basic (unspent_nTxTime u) @
    save_basic (unspent_nLockUntil u) @ save_basic (unspent_nHeight u)"

definition load_unspent :: "CUnspentOut loader" where
  "load_unspent =
    ld_bind load_basic (\<lambda>a. ld_bind load_basic (\<lambda>ty. ld_bind load_basic (\<lambda>t. ld_bind load_basic (\<lambda>l.
    ld_bind load_basic (\<lambda>h.
    ld_return \<lparr>unspent_nAmount = a, unspent_nTxType = ty, unspent_nTxTime = t, unspent_nLockUntil = l,
      unspent_nHeight = h\<rparr>)))))"

definition size_unspent :: "CUnspentOut \<Rightarrow> nat" where
  "size_unspent u =
    size_basic (unspent_nAmount u) + size_basic (unspent_nTxType u) + size_basic (unspent_nTxTime u) +
    size_basic (unspent_nLockUntil u) + size_basic (unspent_nHeight u)"

interpretation unspent: codec save_unspent load_unspent size_unspent "\<lambda>_. True"
  by standard
    (simp_all add: save_unspent_def load_unspent_def size_unspent_def codec_simps stream_load_save stream_size_save)

record CTxUnspent =
  utxo_point :: CTxOutPoint
  utxo_output :: CTxOut
  utxo_nTxType :: int32
  utxo_nHeight :: int32

definition utxo_SetNull :: CTxUnspent where
  "utxo_SetNull = \<lparr>utxo_point = outpoint_SetNull, utxo_output = txout_SetNull, utxo_nTxType = - 1, utxo_nHeight = - 1\<rparr>"

definition utxo_IsNull :: "CTxUnspent \<Rightarrow> bool" where
  "utxo_IsNull u \<longleftrightarrow> outpoint_IsNull (utxo_point u) \<or> txout_IsNull (utxo_output u)"

section \<open>Assembled transactions and contexts\<close>

record CAssembledTx = CTransaction +
  atx_destIn :: CDestination
  atx_nValueIn :: int64
  atx_nBlockHeight :: int32

definition atx_GetChange :: "CAssembledTx \<Rightarrow> int64" where
  "atx_GetChange tx = atx_nValueIn tx - tx_nAmount tx - tx_nTxFee tx"

definition GetOutput :: "CAssembledTx \<Rightarrow> int \<Rightarrow> CTxOut" where
  "GetOutput tx n =
    (if n = 0 then
       \<lparr>out_destTo = tx_sendTo tx, out_nAmount = tx_nAmount tx, out_nTxTime = tx_nTimeStamp tx,
        out_nLockUntil = GetLockUntil (CTransaction.truncate tx) 0\<rparr>
     else if n = 1 then
       \<lparr>out_destTo = atx_destIn tx, out_nAmount = atx_GetChange tx, out_nTxTime = tx_nTimeStamp tx,
        out_nLockUntil = GetLockUntil (CTransaction.truncate tx) 1\<rparr>
     else txout_SetNull)"

definition save_atx :: "CAssembledTx \<Rightarrow> bytes" where
  "save_atx tx =
    save_tx (CTransaction.truncate tx) @ save_dest (atx_destIn tx) @ save_basic (atx_nValueIn tx) @
    save_basic (atx_nBlockHeight tx)"

definition load_atx :: "CAssembledTx loader" where
  "load_atx =
    ld_bind load_tx (\<lambda>t. ld_bind load_dest (\<lambda>d. ld_bind load_basic (\<lambda>v. ld_bind load_basic (\<lambda>h.
    ld_return (CTransaction.extend t \<lparr>atx_destIn = d, atx_nValueIn = v, atx_nBlockHeight = h\<rparr>)))))"

definition size_atx :: "CAssembledTx \<Rightarrow> nat" where
  "size_atx tx =
    size_tx (CTransaction.truncate tx) + size_dest (atx_destIn tx) + size_basic (atx_nValueIn tx) +
    size_basic (atx_nBlockHeight tx)"

interpretation atx: codec save_atx load_atx size_atx "\<lambda>tx. tx_sized (CTransaction.truncate tx)"
proof
  fix tx :: CAssembledTx and s
  assume v: "tx_sized (CTransaction.truncate tx)"
  have "CTransaction.extend (CTransaction.truncate tx)
      \<lparr>atx_destIn = atx_destIn tx, atx_nValueIn = atx_nValueIn tx, atx_nBlockHeight = atx_nBlockHeight tx\<rparr> = tx"
    by (cases tx) (simp add: CTransaction.defs)
  with v show "load_atx (save_atx tx @ s) = Inr (tx, s)" "size_atx tx = length (save_atx tx)"
    by (simp_all add: save_atx_def load_atx_def size_atx_def codec_simps stream_load_save stream_size_save
        tx.load_save tx.size_save)
qed

record CTxInContxt =
  inctx_nAmount :: int64
  inctx_nTxTime :: uint32
  inctx_nLockUntil :: uint32

definition CTxInContxt_out :: "CTxOut \<Rightarrow> CTxInContxt" where
  "CTxInContxt_out prevOutput =
    \<lparr>inctx_nAmount = out_nAmount prevOutput, inctx_nTxTime = out_nTxTime prevOutput,
     inctx_nLockUntil = out_nLockUntil prevOutput\<rparr>"

definition inctx_IsLocked :: "CTxInContxt \<Rightarrow> int32 \<Rightarrow> bool" where
  "inctx_IsLocked c nBlockHeight = lock_holds (inctx_nLockUntil c) nBlockHeight"

definition save_inctx :: "CTxInContxt \<Rightarrow> bytes" where
  "save_inctx c = save_basic (inctx_nAmount c) @ save_basic (inctx_nTxTime c) @ save_basic (inctx_nLockUntil c)"

definition load_inctx :: "CTxInContxt loader" where
  "load_inctx =
    ld_bind load_basic (\<lambda>a. ld_bind load_basic (\<lambda>t. ld_bind load_basic (\<lambda>l.
    ld_return \<lparr>inctx_nAmount = a, inctx_nTxTime = t, inctx_nLockUntil = l\<rparr>)))"

definition size_inctx :: "CTxInContxt \<Rightarrow> nat" where
  "size_inctx c = size_basic (inctx_nAmount c) + size_basic (inctx_nTxTime c) + size_basic (inctx_nLockUntil c)"

interpretation inctx: codec save_inctx load_inctx size_inctx "\<lambda>_. True"
  by standard
    (simp_all add: save_inctx_def load_inctx_def size_inctx_def codec_simps stream_load_save stream_size_save)

record CTxContxt =
  ctx_destIn :: CDestination
  ctx_vin :: "CTxInContxt list"

definition GetValueIn :: "CTxContxt \<Rightarrow> int64" where
  "GetValueIn c = foldl (\<lambda>nValueIn i. nValueIn + inctx_nAmount i) 0 (ctx_vin c)"

definition save_ctx :: "CTxContxt \<Rightarrow> bytes" where
  "save_ctx c = save_dest (ctx_destIn c) @ save_vector save_inctx (ctx_vin c)"

definition load_ctx :: "CTxContxt loader" where
  "load_ctx =
    ld_bind load_dest (\<lambda>d. ld_bind (load_vector load_inctx) (\<lambda>v. ld_return \<lparr>ctx_destIn = d, ctx_vin = v\<rparr>))"

definition size_ctx :: "CTxContxt \<Rightarrow> nat" where
  "size_ctx c = size_dest (ctx_destIn c) + size_vector size_inctx (ctx_vin c)"

interpretation vinctx: codec "save_vector save_inctx" "load_vector load_inctx" "size_vector size_inctx"
  "\<lambda>t. length t < 2 ^ 64 \<and> list_all (\<lambda>_. True) t"
  by (rule codec_vector) (rule inctx.codec_axioms)

interpretation ctx: codec save_ctx load_ctx size_ctx "\<lambda>c. length (ctx_vin c) < 2 ^ 64"
  by standard
    (simp_all add: save_ctx_def load_ctx_def size_ctx_def codec_simps stream_load_save stream_size_save
      vinctx.load_save vinctx.size_save list_all_iff)

section \<open>Indices\<close>

record CTxIndex =
  txindex_nBlockHeight :: int32
  txindex_nFile :: uint32
  txindex_nOffset :: uint32

definition txindex_SetNull :: CTxIndex where
  "txindex_SetNull = \<lparr>txindex_nBlockHeight = 0, txindex_nFile = 0, txindex_nOffset = 0\<rparr>"

definition txindex_IsNull :: "CTxIndex \<Rightarrow> bool" where
  "txindex_IsNull i \<longleftrightarrow> txindex_nFile i = 0"

datatype CAddrTxIndex = CAddrTxIndex (addr_dest: CDestination) (addr_nHeightSeq: int64) (addr_txid: uint256)

text \<open>\<^verbatim>\<open>(nBlockSeqIn << 24) | nTxSeqIn\<close> is an \<^verbatim>\<open>int\<close>, which is sign-extended to 64 bits.\<close>

definition CAddrTxIndex_seq :: "CDestination \<Rightarrow> int32 \<Rightarrow> int32 \<Rightarrow> int32 \<Rightarrow> uint256 \<Rightarrow> CAddrTxIndex" where
  "CAddrTxIndex_seq destIn nHeightIn nBlockSeqIn nTxSeqIn txidIn =
    CAddrTxIndex destIn (push_bit 32 (scast nHeightIn) OR scast (push_bit 24 nBlockSeqIn OR nTxSeqIn)) txidIn"

definition addr_GetHeight :: "CAddrTxIndex \<Rightarrow> int32" where
  "addr_GetHeight i = ucast (signed_drop_bit 32 (addr_nHeightSeq i))"

definition addr_GetSeq :: "CAddrTxIndex \<Rightarrow> int32" where
  "addr_GetSeq i = ucast (addr_nHeightSeq i AND 0xFFFFFFFF)"

instantiation CAddrTxIndex :: linorder
begin

definition less_CAddrTxIndex :: "CAddrTxIndex \<Rightarrow> CAddrTxIndex \<Rightarrow> bool" where
  "less_CAddrTxIndex a b =
    (if addr_dest a < addr_dest b then True
     else if addr_dest a = addr_dest b then
       (if sint (addr_nHeightSeq a) < sint (addr_nHeightSeq b) then True
        else if addr_nHeightSeq a = addr_nHeightSeq b \<and> addr_txid a < addr_txid b then True
        else False)
     else False)"

definition less_eq_CAddrTxIndex :: "CAddrTxIndex \<Rightarrow> CAddrTxIndex \<Rightarrow> bool" where
  "less_eq_CAddrTxIndex a b \<longleftrightarrow> a < b \<or> a = b"

instance
proof
  fix x y z :: CAddrTxIndex
  have eq: "sint (addr_nHeightSeq x) = sint (addr_nHeightSeq y) \<longleftrightarrow> addr_nHeightSeq x = addr_nHeightSeq y" for x y
    by (auto intro: signed_word_eqI)
  show "x < y \<longleftrightarrow> x \<le> y \<and> \<not> y \<le> x" "x \<le> x" "x \<le> y \<Longrightarrow> y \<le> z \<Longrightarrow> x \<le> z"
    by (auto simp: less_CAddrTxIndex_def less_eq_CAddrTxIndex_def split: if_splits)
  show "x \<le> y \<Longrightarrow> y \<le> x \<Longrightarrow> x = y" "x \<le> y \<or> y \<le> x"
    using eq [of x y]
    by (auto simp: less_CAddrTxIndex_def less_eq_CAddrTxIndex_def split: if_splits intro: CAddrTxIndex.expand)
qed

end

definition save_addrindex :: "CAddrTxIndex \<Rightarrow> bytes" where
  "save_addrindex i = save_dest (addr_dest i) @ save_basic (addr_nHeightSeq i) @ save_basic (addr_txid i)"

definition load_addrindex :: "CAddrTxIndex loader" where
  "load_addrindex =
    ld_bind load_dest (\<lambda>d. ld_bind load_basic (\<lambda>h. ld_bind load_basic (\<lambda>t. ld_return (CAddrTxIndex d h t))))"

definition size_addrindex :: "CAddrTxIndex \<Rightarrow> nat" where
  "size_addrindex i = size_dest (addr_dest i) + size_basic (addr_nHeightSeq i) + size_basic (addr_txid i)"

interpretation addrindex: codec save_addrindex load_addrindex size_addrindex "\<lambda>_. True"
  by standard
    (simp_all add: save_addrindex_def load_addrindex_def size_addrindex_def codec_simps stream_load_save
      stream_size_save)

record CAddrTxInfo =
  info_nDirection :: int32
  info_destPeer :: CDestination
  info_nTxType :: int32
  info_nTimeStamp :: uint32
  info_nLockUntil :: uint32
  info_nAmount :: int64
  info_nTxFee :: int64

definition TXI_DIRECTION_NULL :: int32 where "TXI_DIRECTION_NULL = 0"

definition info_SetNull :: CAddrTxInfo where
  "info_SetNull = \<lparr>info_nDirection = TXI_DIRECTION_NULL, info_destPeer = dest_SetNull, info_nTxType = 0,
     info_nTimeStamp = 0, info_nLockUntil = 0, info_nAmount = 0, info_nTxFee = 0\<rparr>"

definition info_IsNull :: "CAddrTxInfo \<Rightarrow> bool" where
  "info_IsNull i \<longleftrightarrow> info_nDirection i = TXI_DIRECTION_NULL"

definition CAddrTxInfo_tx :: "int32 \<Rightarrow> CDestination \<Rightarrow> CTransaction \<Rightarrow> CAddrTxInfo" where
  "CAddrTxInfo_tx nDirectionIn destPeerIn tx =
    \<lparr>info_nDirection = nDirectionIn, info_destPeer = destPeerIn, info_nTxType = ucast (tx_nType tx),
     info_nTimeStamp = tx_nTimeStamp tx, info_nLockUntil = tx_nLockUntil tx, info_nAmount = tx_nAmount tx,
     info_nTxFee = tx_nTxFee tx\<rparr>"

definition save_info :: "CAddrTxInfo \<Rightarrow> bytes" where
  "save_info i =
    save_basic (info_nDirection i) @ save_dest (info_destPeer i) @ save_basic (info_nTxType i) @
    save_basic (info_nTimeStamp i) @ save_basic (info_nLockUntil i) @ save_basic (info_nAmount i) @
    save_basic (info_nTxFee i)"

definition load_info :: "CAddrTxInfo loader" where
  "load_info =
    ld_bind load_basic (\<lambda>dir. ld_bind load_dest (\<lambda>d. ld_bind load_basic (\<lambda>ty. ld_bind load_basic (\<lambda>ts.
    ld_bind load_basic (\<lambda>l. ld_bind load_basic (\<lambda>a. ld_bind load_basic (\<lambda>f.
    ld_return \<lparr>info_nDirection = dir, info_destPeer = d, info_nTxType = ty, info_nTimeStamp = ts,
      info_nLockUntil = l, info_nAmount = a, info_nTxFee = f\<rparr>)))))))"

definition size_info :: "CAddrTxInfo \<Rightarrow> nat" where
  "size_info i =
    size_basic (info_nDirection i) + size_dest (info_destPeer i) + size_basic (info_nTxType i) +
    size_basic (info_nTimeStamp i) + size_basic (info_nLockUntil i) + size_basic (info_nAmount i) +
    size_basic (info_nTxFee i)"

interpretation txinfo: codec save_info load_info size_info "\<lambda>_. True"
  by standard
    (simp_all add: save_info_def load_info_def size_info_def codec_simps stream_load_save stream_size_save)

section \<open>Lemmas\<close>

text \<open>The hash is assembled with the constructors of \<^verbatim>\<open>uint256.h\<close>: the high limb is replaced.\<close>

lemma u256_replace_high:
  assumes "length pn = 8"
  shows "u256 (uint256_h224 h (uint224_of_256 pn)) = push_bit 224 (ucast h) OR take_bit 224 (u256 pn)"
proof (rule bit_word_eqI)
  fix n
  assume "n < LENGTH(256)"
  then have n: "n < 256" by simp
  show "bit (u256 (uint256_h224 h (uint224_of_256 pn))) n
      = bit (push_bit 224 (ucast h) OR take_bit 224 (u256 pn)) n"
  proof (cases "n < 224")
    case True
    then have "n div 32 < 7" by simp
    with True n assms show ?thesis
      by (simp add: bit_u256 uint256_h224_def uint224_of_256_def nth_append bit_simps)
  next
    case False
    then obtain m where m: "n = 32 * 7 + m" "m < 32"
      using n le_Suc_ex [of 224 n] by auto
    with limb_index [OF m] n assms show ?thesis
      by (simp add: bit_u256 uint256_h224_def uint224_of_256_def nth_append bit_simps)
  qed
qed

lemma txid_time: "txid_GetTxTime (push_bit 224 (ucast t) OR take_bit 224 h) = t"
  by (rule bit_word_eqI) (simp add: txid_GetTxTime_def bit_simps)

lemma take_bit_txid: "take_bit 224 (push_bit 224 x OR take_bit 224 h) = take_bit 224 (h :: uint256)"
  by (rule bit_word_eqI) (auto simp: bit_simps)

lemma take_bit_31: "w AND 0x7FFFFFFF = take_bit 31 w" for w :: uint32
  by (simp add: take_bit_eq_mask mask_eq_exp_minus_1)

lemma lock_pack:
  assumes "drop_bit 31 h = 0" "n = 0 \<or> n = 1"
  shows "drop_bit 31 (push_bit 31 n OR h) = n" "take_bit 31 (push_bit 31 n OR h) = (h :: uint32)"
proof -
  have b: "\<not> bit h i" if "31 \<le> i" for i
    using arg_cong [OF assms(1), of "\<lambda>w. bit w (i - 31)"] that by (simp add: bit_drop_bit_eq)
  show "drop_bit 31 (push_bit 31 n OR h) = n"
    using assms(2) b by (intro bit_word_eqI) (auto simp: bit_simps)
  show "take_bit 31 (push_bit 31 n OR h) = h"
    using b by (intro bit_word_eqI) (auto simp: bit_simps not_less)
qed

lemma save_tx_split: "save_tx tx = save_tx_unsigned tx @ save_vector_basic (tx_vchSig tx)"
  by (simp add: save_tx_def save_tx_unsigned_def)

lemma save_tx_unsigned_sig [simp]: "save_tx_unsigned (tx\<lparr>tx_vchSig := sig\<rparr>) = save_tx_unsigned tx"
  by (simp add: save_tx_unsigned_def)

lemma save_tx_unsigned_inject:
  assumes "tx_sized a" "tx_sized b" "save_tx_unsigned a = save_tx_unsigned b"
  shows "a\<lparr>tx_vchSig := []\<rparr> = b\<lparr>tx_vchSig := []\<rparr>"
proof -
  have "save_tx (a\<lparr>tx_vchSig := []\<rparr>) = save_tx (b\<lparr>tx_vchSig := []\<rparr>)"
    by (simp add: save_tx_split assms(3))
  moreover have "tx_sized (a\<lparr>tx_vchSig := []\<rparr>)" "tx_sized (b\<lparr>tx_vchSig := []\<rparr>)"
    using assms(1,2) by (simp_all add: tx_sized_def)
  ultimately show ?thesis
    by (simp only: tx.save_inject)
qed

lemma sint_as_uint: "sint w = uint w - 2 ^ 32 * of_bool (bit w 31)" for w :: int32
proof -
  have "sint w = signed_take_bit 31 (uint w)"
    by (simp add: sint_uint)
  also have "\<dots> = take_bit 32 (uint w) - 2 ^ 32 * of_bool (bit (uint w) 31)"
    by (simp add: signed_take_bit_eq_take_bit_minus)
  also have "take_bit 32 (uint w) = uint w"
    using uint_lt2p [of w] by (simp add: take_bit_int_eq_self)
  finally show ?thesis by (simp add: bit_simps)
qed

lemma uint_take_bit_31: "uint (take_bit 31 w) < 2 ^ 31" for w :: uint32
  using take_bit_int_less_exp [of 31 "uint w"] by (simp add: unsigned_take_bit_eq)

lemma lock_holds_nonneg: "0 \<le> sint h \<Longrightarrow> lock_holds l h \<longleftrightarrow> sint h < uint (take_bit 31 l)"
  using uint_lt2p [of h]
  by (cases "bit h 31") (simp_all add: lock_holds_def take_bit_31 word_less_def sint_as_uint)

lemma lock_holds_neg: "sint h < 0 \<Longrightarrow> \<not> lock_holds l h"
  using uint_take_bit_31 [of l] sint_ge [of h]
  by (cases "bit h 31") (simp_all add: lock_holds_def take_bit_31 word_less_def sint_as_uint)

lemma SetLockUntil_ok:
  assumes "n = 0 \<or> n = 1" "drop_bit 31 nHeight = 0"
  shows "\<exists>tx'. SetLockUntil tx nHeight n = (True, tx') \<and> GetLockUntil tx' n = nHeight
    \<and> GetLockUntil tx' (1 - n) = 0 \<and> tx'\<lparr>tx_nLockUntil := tx_nLockUntil tx\<rparr> = tx"
  using assms lock_pack [OF assms(2,1)]
  by (auto simp: SetLockUntil_def GetLockUntil_def take_bit_31)

section \<open>Properties\<close>



text \<open>C14: the id of a transaction carries its time stamp, and it binds the transaction: two transactions
  with the same id are equal, or their serializations are a collision of the hash function in its low
  224 bits. What is signed binds everything but the signature, in the same sense.\<close>

theorem transaction_id_binds:
  assumes "tx_sized a" "tx_sized b"
  shows "txid_GetTxTime (tx_GetHash H a) = tx_nTimeStamp a
    \<and> (tx_GetHash H a = tx_GetHash H b \<longrightarrow>
        a = b \<or> (save_tx a \<noteq> save_tx b \<and> take_bit 224 (H (save_tx a)) = take_bit 224 (H (save_tx b))))
    \<and> (GetSignatureHash H a = GetSignatureHash H b \<longrightarrow>
        a\<lparr>tx_vchSig := []\<rparr> = b\<lparr>tx_vchSig := []\<rparr>
        \<or> (save_tx_unsigned a \<noteq> save_tx_unsigned b \<and> H (save_tx_unsigned a) = H (save_tx_unsigned b)))"
proof (intro conjI impI)
  show "txid_GetTxTime (tx_GetHash H a) = tx_nTimeStamp a"
    by (simp add: tx_GetHash_def txid_time)
  show "a = b \<or> (save_tx a \<noteq> save_tx b \<and> take_bit 224 (H (save_tx a)) = take_bit 224 (H (save_tx b)))"
    if "tx_GetHash H a = tx_GetHash H b"
    using arg_cong [OF that, of "take_bit 224", unfolded tx_GetHash_def take_bit_txid] tx.save_inject [OF assms]
    by auto
  show "a\<lparr>tx_vchSig := []\<rparr> = b\<lparr>tx_vchSig := []\<rparr>
      \<or> (save_tx_unsigned a \<noteq> save_tx_unsigned b \<and> H (save_tx_unsigned a) = H (save_tx_unsigned b))"
    if "GetSignatureHash H a = GetSignatureHash H b"
    using that save_tx_unsigned_inject [OF assms] by (auto simp: GetSignatureHash_def)
qed

theorem transaction_id_binds_witness:
  "txid_GetTxTime (tx_GetHash (\<lambda>_. 3) (tx_SetNull\<lparr>tx_nTimeStamp := 9\<rparr>)) = 9"
  using transaction_id_binds [of "tx_SetNull\<lparr>tx_nTimeStamp := 9\<rparr>" tx_SetNull "\<lambda>_. 3"]
  by (simp add: tx_sized_def tx_SetNull_def max_size_def)

text \<open>C15: locking one of the two outputs until a height that fits in 31 bits is read back for that
  output and leaves the other one unlocked; a height that does not fit is refused without a
  change. An output is locked exactly below its height; at a negative height nothing is locked.\<close>

theorem lock_until_correct:
  assumes "n = 0 \<or> n = 1"
  shows "(drop_bit 31 nHeight = 0 \<longrightarrow>
      (\<exists>tx'. SetLockUntil tx nHeight n = (True, tx') \<and> GetLockUntil tx' n = nHeight
        \<and> GetLockUntil tx' (1 - n) = 0 \<and> tx'\<lparr>tx_nLockUntil := tx_nLockUntil tx\<rparr> = tx))
    \<and> (drop_bit 31 nHeight \<noteq> 0 \<longrightarrow> SetLockUntil tx nHeight n = (False, tx))
    \<and> (0 \<le> sint h \<longrightarrow> (lock_holds l h \<longleftrightarrow> sint h < uint (take_bit 31 l)))
    \<and> (sint h < 0 \<longrightarrow> \<not> lock_holds l h)"
  using SetLockUntil_ok [OF assms] lock_holds_nonneg lock_holds_neg
  by (auto simp: SetLockUntil_def)

theorem lock_until_correct_witness:
  "\<exists>tx'. SetLockUntil tx_SetNull 100 1 = (True, tx') \<and> GetLockUntil tx' 1 = 100 \<and> GetLockUntil tx' 0 = 0"
  using lock_until_correct [of 1 100 tx_SetNull 0 0] by auto

lemma not_bit_above:
  assumes "unat w < 2 ^ k" "k \<le> n"
  shows "\<not> bit (w :: 'a::len word) n"
proof -
  have "unat (take_bit k w) = unat w"
    using assms(1) by (simp add: unsigned_take_bit_eq take_bit_nat_eq_self)
  then have "take_bit k w = w" by (simp add: word_unat_eq_iff)
  then show ?thesis
    using assms(2) by (metis bit_take_bit_iff not_le)
qed

lemma signed_word_pack:
  fixes a b :: int32
  assumes "\<not> bit b 31"
  defines "x \<equiv> push_bit 32 (scast a) OR scast b :: int64"
  shows "ucast (signed_drop_bit 32 x) = a" "ucast (x AND 0xFFFFFFFF) = b"
proof -
  have m: "x AND 0xFFFFFFFF = take_bit 32 x"
    by (simp add: take_bit_eq_mask mask_eq_exp_minus_1)
  show "ucast (signed_drop_bit 32 x) = a"
  proof (rule bit_word_eqI)
    fix n
    assume "n < LENGTH(32)"
    then show "bit (ucast (signed_drop_bit 32 x) :: int32) n = bit a n"
      using assms(1) unfolding x_def
      by (cases "n = 31") (auto simp: bit_simps bit_signed_drop_bit_iff min_def)
  qed
  show "ucast (x AND 0xFFFFFFFF) = b"
  proof (rule bit_word_eqI)
    fix n
    assume "n < LENGTH(32)"
    then show "bit (ucast (x AND 0xFFFFFFFF) :: int32) n = bit b n"
      unfolding m unfolding x_def by (cases "n = 31") (auto simp: bit_simps min_def)
  qed
qed

text \<open>The position of a transaction in the address index is packed without loss as long as the block
  sequence is below 128 and the transaction sequence fits in 24 bits: the height and the sequence
  are read back. The two outputs and the fee of an assembled transaction add up to its
  input value modulo \<open>2 ^ 64\<close>.\<close>

theorem address_index_packing:
  assumes "unat nBlockSeq < 128" "unat nTxSeq < 2 ^ 24"
  shows "addr_GetHeight (CAddrTxIndex_seq d nHeight nBlockSeq nTxSeq txid) = nHeight
    \<and> addr_GetSeq (CAddrTxIndex_seq d nHeight nBlockSeq nTxSeq txid) = push_bit 24 nBlockSeq OR nTxSeq
    \<and> out_nAmount (GetOutput tx 0) + out_nAmount (GetOutput tx 1) + tx_nTxFee tx = atx_nValueIn tx"
proof -
  have "\<not> bit nBlockSeq 7" "\<not> bit nTxSeq 31"
    using not_bit_above [of nBlockSeq 7 7] not_bit_above [of nTxSeq 24 31] assms by simp_all
  then have "\<not> bit (push_bit 24 nBlockSeq OR nTxSeq) 31"
    by (simp add: bit_simps)
  then show ?thesis
    by (simp add: CAddrTxIndex_seq_def addr_GetHeight_def addr_GetSeq_def signed_word_pack GetOutput_def atx_GetChange_def)
qed

theorem address_index_packing_witness:
  "addr_GetHeight (CAddrTxIndex_seq dest_SetNull 1000 3 77 5) = 1000"
  using address_index_packing [of 3 77 dest_SetNull 1000 5] by simp

end
