(* ===== verification/Proof.thy ===== *)
theory Proof
  imports Transaction
begin

text \<open>
  The proofs carried by blocks, \<^verbatim>\<open>src/common/proof.h\<close>: the secret-share proof, its extensions by a
  reference block and by proof of work, and the compact view that reads and patches the proof of
  work in the last 43 bytes of a proof without decoding the rest. The lemmas show that saving and
  loading agree and that the two views of a proof of work are the same data.
\<close>

section \<open>Secret share, piggyback, hash work\<close>

record CProofOfSecretShare =
  nWeight :: uint8
  nAgreement :: uint256

definition ss_ToStream :: "'z CProofOfSecretShare_scheme \<Rightarrow> bytes" where
  "ss_ToStream p = od_push (nWeight p) @ od_push (nAgreement p)"

definition ss_FromStream :: "CProofOfSecretShare loader" where
  "ss_FromStream = ld_bind id_basic (\<lambda>w. ld_bind id_basic (\<lambda>a. ld_return \<lparr>nWeight = w, nAgreement = a\<rparr>))"

text \<open>\<^verbatim>\<open>Save\<close> appends to the vector it is given; \<^verbatim>\<open>Load\<close> refuses a vector that is shorter than the proof,
  reads from its start and ignores what follows. The virtual stream functions are arguments.\<close>

definition proof_Save :: "('p \<Rightarrow> bytes) \<Rightarrow> 'p \<Rightarrow> bytes \<Rightarrow> bytes" where
  "proof_Save toStream p vchProof = vchProof @ toStream p"

definition proof_size :: "('p \<Rightarrow> bytes) \<Rightarrow> 'p \<Rightarrow> nat" where
  "proof_size toStream p = length (proof_Save toStream p [])"

definition proof_Load :: "('p \<Rightarrow> bytes) \<Rightarrow> 'p loader \<Rightarrow> 'p \<Rightarrow> bytes \<Rightarrow> 'p option" where
  "proof_Load toStream fromStream p0 vchProof =
    (if length vchProof < proof_size toStream p0 then None
     else case fromStream vchProof of Inl e \<Rightarrow> None | Inr (p, s) \<Rightarrow> Some p)"

record CProofOfPiggyback = CProofOfSecretShare +
  hashRefBlock :: uint256

definition pb_ToStream :: "CProofOfPiggyback \<Rightarrow> bytes" where
  "pb_ToStream p = ss_ToStream p @ od_push (hashRefBlock p)"

definition pb_FromStream :: "CProofOfPiggyback loader" where
  "pb_FromStream = ld_bind ss_FromStream (\<lambda>p. ld_bind id_basic (\<lambda>h.
    ld_return (CProofOfSecretShare.extend p \<lparr>hashRefBlock = h\<rparr>)))"

record CProofOfHashWork = CProofOfSecretShare +
  hw_nAlgo :: uint8
  hw_nBits :: uint8
  hw_destMint :: CDestination
  hw_nNonce :: uint64

definition hw_ToStream :: "CProofOfHashWork \<Rightarrow> bytes" where
  "hw_ToStream p =
    ss_ToStream p @ od_push (hw_nAlgo p) @ od_push (hw_nBits p) @ od_push (dest_prefix (hw_destMint p)) @
    od_push (dest_data (hw_destMint p)) @ od_push (hw_nNonce p)"

definition hw_FromStream :: "CProofOfHashWork loader" where
  "hw_FromStream = ld_bind ss_FromStream (\<lambda>p. ld_bind id_basic (\<lambda>al. ld_bind id_basic (\<lambda>bi.
    ld_bind id_basic (\<lambda>pr. ld_bind id_basic (\<lambda>da. ld_bind id_basic (\<lambda>no.
    ld_return (CProofOfSecretShare.extend p
      \<lparr>hw_nAlgo = al, hw_nBits = bi, hw_destMint = CDestination pr da, hw_nNonce = no\<rparr>)))))))"

section \<open>The compact view\<close>

record CProofOfHashWorkCompact =
  nAlgo :: uint8
  nBits :: uint8
  destMint :: CDestination
  nNonce :: uint64

definition PROOFHASHWORK_SIZE :: nat where
  "PROOFHASHWORK_SIZE = 43"

definition compact_Save :: "CProofOfHashWorkCompact \<Rightarrow> bytes \<Rightarrow> bytes" where
  "compact_Save p vchProof =
    (if length vchProof < PROOFHASHWORK_SIZE then vchProof
     else take (length vchProof - PROOFHASHWORK_SIZE) vchProof @
       [nAlgo p, nBits p, dest_prefix (destMint p)] @ le_bytes 32 (dest_data (destMint p)) @ le_bytes 8 (nNonce p))"

definition compact_Load :: "CProofOfHashWorkCompact \<Rightarrow> bytes \<Rightarrow> CProofOfHashWorkCompact" where
  "compact_Load p0 vchProof =
    (if length vchProof < PROOFHASHWORK_SIZE then p0
     else let p = drop (length vchProof - PROOFHASHWORK_SIZE) vchProof
       in \<lparr>nAlgo = p ! 0, nBits = p ! 1,
           destMint = CDestination (p ! 2) (le_word (take 32 (drop 3 p))),
           nNonce = le_word (take 8 (drop 35 p))\<rparr>)"

section \<open>Lemmas\<close>

lemmas od_load_save = d8.load_save d16.load_save d32.load_save d64.load_save d256.load_save

lemma ss_load_save: "ss_FromStream (ss_ToStream p @ s) = Inr (CProofOfSecretShare.truncate p, s)"
  by (simp add: ss_FromStream_def ss_ToStream_def codec_simps od_load_save CProofOfSecretShare.defs)

interpretation pb: codec pb_ToStream pb_FromStream "\<lambda>_. 65" "\<lambda>_. True"
proof
  fix p :: CProofOfPiggyback and s
  have "CProofOfSecretShare.extend (CProofOfSecretShare.truncate p) \<lparr>hashRefBlock = hashRefBlock p\<rparr> = p"
    by (cases p) (simp add: CProofOfSecretShare.defs)
  then show "pb_FromStream (pb_ToStream p @ s) = Inr (p, s)"
    by (simp add: pb_FromStream_def pb_ToStream_def codec_simps od_load_save ss_load_save)
  show "65 = length (pb_ToStream p)"
    by (simp add: pb_ToStream_def ss_ToStream_def od_push_def)
qed

interpretation hw: codec hw_ToStream hw_FromStream "\<lambda>_. 76" "\<lambda>_. True"
proof
  fix p :: CProofOfHashWork and s
  have "CProofOfSecretShare.extend (CProofOfSecretShare.truncate p)
      \<lparr>hw_nAlgo = hw_nAlgo p, hw_nBits = hw_nBits p, hw_destMint = hw_destMint p, hw_nNonce = hw_nNonce p\<rparr> = p"
    by (cases p) (simp add: CProofOfSecretShare.defs)
  then show "hw_FromStream (hw_ToStream p @ s) = Inr (p, s)"
    by (simp add: hw_FromStream_def hw_ToStream_def codec_simps od_load_save ss_load_save)
  show "76 = length (hw_ToStream p)"
    by (simp add: hw_ToStream_def ss_ToStream_def od_push_def)
qed

lemma proof_Load_Save:
  assumes "codec sv ld (\<lambda>_. n) (\<lambda>_. True)"
  shows "proof_Load sv ld p0 (proof_Save sv p [] @ s) = Some p"
    "length v < n \<Longrightarrow> proof_Load sv ld p0 v = None"
  using codec.load_save [OF assms] codec.size_save [OF assms, of p0] codec.size_save [OF assms, of p]
  by (simp_all add: proof_Load_def proof_Save_def proof_size_def)

lemma compact_Load_Save:
  "PROOFHASHWORK_SIZE \<le> length v \<Longrightarrow> compact_Load p0 (compact_Save p v) = p"
  by (simp add: compact_Load_def compact_Save_def PROOFHASHWORK_SIZE_def Let_def le_word_le_bytes)

definition hw_compact :: "CProofOfHashWork \<Rightarrow> CProofOfHashWorkCompact" where
  "hw_compact p = \<lparr>nAlgo = hw_nAlgo p, nBits = hw_nBits p, destMint = hw_destMint p, nNonce = hw_nNonce p\<rparr>"

lemma hw_ToStream_compact:
  "hw_ToStream p = ss_ToStream p @ [hw_nAlgo p, hw_nBits p, dest_prefix (hw_destMint p)] @
    le_bytes 32 (dest_data (hw_destMint p)) @ le_bytes 8 (hw_nNonce p)"
  by (simp add: hw_ToStream_def od_push_def)

lemma compact_Load_hw: "compact_Load p0 (v @ hw_ToStream p) = hw_compact p"
proof -
  have "length (ss_ToStream p) = 33" by (simp add: ss_ToStream_def od_push_def)
  then show ?thesis
    by (simp add: compact_Load_def hw_ToStream_compact PROOFHASHWORK_SIZE_def Let_def le_word_le_bytes
        hw_compact_def)
qed

lemma compact_Save_hw:
  "compact_Save c (v @ hw_ToStream p) =
    v @ hw_ToStream (p\<lparr>hw_nAlgo := nAlgo c, hw_nBits := nBits c, hw_destMint := destMint c, hw_nNonce := nNonce c\<rparr>)"
proof -
  have "length (ss_ToStream p) = 33" by (simp add: ss_ToStream_def od_push_def)
  then show ?thesis
    by (simp add: compact_Save_def hw_ToStream_compact PROOFHASHWORK_SIZE_def ss_ToStream_def)
qed

lemmas proof_codecs = pb.codec_axioms hw.codec_axioms

text \<open>A saved proof is loaded back whatever follows it, and a vector shorter than the proof is refused:
  65 bytes for the piggyback proof and 76 for the proof of work. The compact view of a saved proof
  of work, behind any prefix, reads exactly the algorithm, bits, destination and nonce of the full
  proof, and patching these through the compact view is the same as saving the full proof with the
  four fields replaced; a vector of fewer than 43 bytes is left alone.\<close>

theorem proof_views_agree:
  "proof_Load pb_ToStream pb_FromStream q0 (proof_Save pb_ToStream q [] @ s) = Some q
    \<and> proof_Load hw_ToStream hw_FromStream p0 (proof_Save hw_ToStream p [] @ s) = Some p
    \<and> (length v < 65 \<longrightarrow> proof_Load pb_ToStream pb_FromStream q0 v = None)
    \<and> (length v < 76 \<longrightarrow> proof_Load hw_ToStream hw_FromStream p0 v = None)
    \<and> compact_Load c0 (proof_Save hw_ToStream p v) = hw_compact p
    \<and> compact_Save c (proof_Save hw_ToStream p v) =
        proof_Save hw_ToStream
          (p\<lparr>hw_nAlgo := nAlgo c, hw_nBits := nBits c, hw_destMint := destMint c, hw_nNonce := nNonce c\<rparr>) v
    \<and> (length v < PROOFHASHWORK_SIZE \<longrightarrow> compact_Save c v = v \<and> compact_Load c0 v = c0)"
  using proof_Load_Save(1) [OF pb.codec_axioms] proof_Load_Save(1) [OF hw.codec_axioms]
    proof_Load_Save(2) [OF pb.codec_axioms] proof_Load_Save(2) [OF hw.codec_axioms]
  by (simp add: proof_Save_def compact_Load_hw compact_Save_hw) (simp add: compact_Save_def compact_Load_def)

theorem proof_views_agree_witness:
  "proof_Load hw_ToStream hw_FromStream
      \<lparr>nWeight = 0, nAgreement = 0, hw_nAlgo = 0, hw_nBits = 0, hw_destMint = CDestination 0 0, hw_nNonce = 0\<rparr>
      (replicate 42 7) = None
    \<and> compact_Save \<lparr>nAlgo = 1, nBits = 2, destMint = CDestination 0 0, nNonce = 3\<rparr> (replicate 42 7) = replicate 42 7"
  using proof_views_agree [of undefined undefined undefined
      "\<lparr>nWeight = 0, nAgreement = 0, hw_nAlgo = 0, hw_nBits = 0, hw_destMint = CDestination 0 0, hw_nNonce = 0\<rparr>"
      undefined "replicate 42 7" undefined "\<lparr>nAlgo = 1, nBits = 2, destMint = CDestination 0 0, nNonce = 3\<rparr>"]
  by (simp add: PROOFHASHWORK_SIZE_def)

end
