(* ===== verification/Block.thy ===== *)
theory Block
  imports Proof
begin

text \<open>
  Blocks and the block index, \<^verbatim>\<open>src/common/block.h\<close>: the block, its kinds, the hash that carries the
  height in its top limb, the Merkle tree of the transactions, serialization, and the in-memory
  index entries that are linked by pointers. Pointers are addresses of an explicit store, because
  \<^verbatim>\<open>IsEquivalent\<close> and \<^verbatim>\<open>GetExtendedSequence\<close> walk the links and compare addresses. The hash function
  (BLAKE2b of libsodium) is the parameter \<open>H\<close>.
\<close>

unbundle bit_operations_syntax

section \<open>Words of a hash\<close>

definition hash_Get32 :: "uint256 \<Rightarrow> nat \<Rightarrow> uint32" where
  "hash_Get32 h n = ucast (drop_bit (32 * n) h)"

definition hash_Get64 :: "uint256 \<Rightarrow> nat \<Rightarrow> uint64" where
  "hash_Get64 h n = ucast (drop_bit (64 * n) h)"

definition CryptoHash2 :: "(bytes \<Rightarrow> uint256) \<Rightarrow> uint256 \<Rightarrow> uint256 \<Rightarrow> uint256" where
  "CryptoHash2 H h1 h2 = H (le_bytes 32 h1 @ le_bytes 32 h2)"

section \<open>Blocks\<close>

record CBlock =
  blk_nVersion :: uint16
  blk_nType :: uint16
  blk_nTimeStamp :: uint32
  blk_hashPrev :: uint256
  blk_hashMerkle :: uint256
  blk_vchProof :: bytes
  blk_txMint :: CTransaction
  blk_vtx :: "CTransaction list"
  blk_vchSig :: bytes

definition BLOCK_GENESIS :: uint16 where "BLOCK_GENESIS = 0xffff"
definition BLOCK_ORIGIN :: uint16 where "BLOCK_ORIGIN = 0xff00"
definition BLOCK_PRIMARY :: uint16 where "BLOCK_PRIMARY = 0x0001"
definition BLOCK_SUBSIDIARY :: uint16 where "BLOCK_SUBSIDIARY = 0x0002"
definition BLOCK_EXTENDED :: uint16 where "BLOCK_EXTENDED = 0x0004"
definition BLOCK_VACANT :: uint16 where "BLOCK_VACANT = 0x0008"

lemmas block_type_defs = BLOCK_GENESIS_def BLOCK_ORIGIN_def BLOCK_PRIMARY_def BLOCK_SUBSIDIARY_def
  BLOCK_EXTENDED_def BLOCK_VACANT_def

definition block_SetNull :: CBlock where
  "block_SetNull =
    \<lparr>blk_nVersion = 1, blk_nType = 0, blk_nTimeStamp = 0, blk_hashPrev = 0, blk_hashMerkle = 0, blk_vchProof = [],
     blk_txMint = tx_SetNull, blk_vtx = [], blk_vchSig = []\<rparr>"

definition block_IsNull :: "CBlock \<Rightarrow> bool" where
  "block_IsNull b \<longleftrightarrow> blk_nType b = 0 \<or> blk_nTimeStamp b = 0 \<or> tx_IsNull (blk_txMint b)"

definition IsGenesis :: "CBlock \<Rightarrow> bool" where
  "IsGenesis b \<longleftrightarrow> blk_nType b = BLOCK_GENESIS"

definition IsOrigin :: "CBlock \<Rightarrow> bool" where
  "IsOrigin b \<longleftrightarrow> drop_bit 15 (blk_nType b) \<noteq> 0"

definition IsPrimary :: "CBlock \<Rightarrow> bool" where
  "IsPrimary b \<longleftrightarrow> blk_nType b AND 1 \<noteq> 0"

definition IsSubsidiary :: "CBlock \<Rightarrow> bool" where
  "IsSubsidiary b \<longleftrightarrow> blk_nType b = BLOCK_SUBSIDIARY"

definition IsExtended :: "CBlock \<Rightarrow> bool" where
  "IsExtended b \<longleftrightarrow> blk_nType b = BLOCK_EXTENDED"

definition IsVacant :: "CBlock \<Rightarrow> bool" where
  "IsVacant b \<longleftrightarrow> blk_nType b = BLOCK_VACANT"

definition IsProofOfWork :: "CBlock \<Rightarrow> bool" where
  "IsProofOfWork b \<longleftrightarrow> tx_nType (blk_txMint b) = TX_WORK"

definition GetBlockHeight :: "CBlock \<Rightarrow> uint32" where
  "GetBlockHeight b =
    (if IsGenesis b then 0
     else if IsExtended b then hash_Get32 (blk_hashPrev b) 7
     else hash_Get32 (blk_hashPrev b) 7 + 1)"

definition save_header :: "CBlock \<Rightarrow> bytes" where
  "save_header b =
    save_basic (blk_nVersion b) @ save_basic (blk_nType b) @ save_basic (blk_nTimeStamp b) @
    save_basic (blk_hashPrev b) @ save_basic (blk_hashMerkle b) @ save_vector_basic (blk_vchProof b) @
    save_tx (blk_txMint b)"

definition block_GetHash :: "(bytes \<Rightarrow> uint256) \<Rightarrow> CBlock \<Rightarrow> uint256" where
  "block_GetHash H b = push_bit 224 (ucast (GetBlockHeight b)) OR take_bit 224 (H (save_header b))"

definition GetTxSerializedOffset :: "CBlock \<Rightarrow> nat" where
  "GetTxSerializedOffset b = 2 + 2 + 4 + 32 + 32 + size_vector_basic (blk_vchProof b)"

definition GetSerializedProofOfWorkData :: "CBlock \<Rightarrow> bytes" where
  "GetSerializedProofOfWorkData b =
    save_basic (blk_nVersion b) @ save_basic (blk_nType b) @ save_basic (blk_nTimeStamp b) @
    save_basic (blk_hashPrev b) @ save_vector_basic (blk_vchProof b)"

definition GetBlockBeacon :: "CBlock \<Rightarrow> int \<Rightarrow> uint64" where
  "GetBlockBeacon b idx = (if blk_vchProof b = [] then hash_Get64 (blk_hashPrev b) (nat (idx AND 3)) else 0)"

definition GetBlockMint_in :: "CBlock \<Rightarrow> int64 \<Rightarrow> int64" where
  "GetBlockMint_in b nValueIn = tx_nAmount (blk_txMint b) - nValueIn"

definition GetBlockMint :: "CBlock \<Rightarrow> int64" where
  "GetBlockMint b = GetBlockMint_in b (foldl (\<lambda>nTotalTxFee tx. nTotalTxFee + tx_nTxFee tx) 0 (blk_vtx b))"

definition GetBlockHeightByHash :: "uint256 \<Rightarrow> uint32" where
  "GetBlockHeightByHash hash = hash_Get32 hash 7"

section \<open>The Merkle tree\<close>

text \<open>The two loops of \<^verbatim>\<open>BuildMerkleTree\<close>: the inner one appends the parents of the level of \<open>nSize\<close> nodes
  that starts at \<open>j\<close>, the outer one goes from level to level.\<close>

function merkle_inner :: "(bytes \<Rightarrow> uint256) \<Rightarrow> nat \<Rightarrow> nat \<Rightarrow> nat \<Rightarrow> uint256 list \<Rightarrow> uint256 list" where
  "merkle_inner H j nSize i vMerkleTree =
    (if i < nSize
     then let i2 = min (i + 1) (nSize - 1)
       in merkle_inner H j nSize (i + 2)
            (vMerkleTree @ [CryptoHash2 H (vMerkleTree ! (j + i)) (vMerkleTree ! (j + i2))])
     else vMerkleTree)"
  by pat_completeness auto
termination by (relation "measure (\<lambda>(H, j, nSize, i, v). nSize - i)") auto

function merkle_outer :: "(bytes \<Rightarrow> uint256) \<Rightarrow> nat \<Rightarrow> nat \<Rightarrow> uint256 list \<Rightarrow> uint256 list" where
  "merkle_outer H j nSize vMerkleTree =
    (if nSize > 1
     then merkle_outer H (j + nSize) ((nSize + 1) div 2) (merkle_inner H j nSize 0 vMerkleTree)
     else vMerkleTree)"
  by pat_completeness auto
termination by (relation "measure (\<lambda>(H, j, nSize, v). nSize)") auto

declare merkle_inner.simps [simp del] merkle_outer.simps [simp del]

definition BuildMerkleTree :: "(bytes \<Rightarrow> uint256) \<Rightarrow> CBlock \<Rightarrow> uint256 list \<times> uint256" where
  "BuildMerkleTree H b =
    (let vMerkleTree = merkle_outer H 0 (length (blk_vtx b)) (map (tx_GetHash H) (blk_vtx b))
     in (vMerkleTree, if vMerkleTree = [] then 0 else last vMerkleTree))"

definition CalcMerkleTreeRoot :: "(bytes \<Rightarrow> uint256) \<Rightarrow> CBlock \<Rightarrow> uint256" where
  "CalcMerkleTreeRoot H b = snd (BuildMerkleTree H b)"

section \<open>Serialization of blocks\<close>

definition save_block :: "CBlock \<Rightarrow> bytes" where
  "save_block b =
    save_basic (blk_nVersion b) @ save_basic (blk_nType b) @ save_basic (blk_nTimeStamp b) @
    save_basic (blk_hashPrev b) @ save_basic (blk_hashMerkle b) @ save_vector_basic (blk_vchProof b) @
    save_tx (blk_txMint b) @ save_vector save_tx (blk_vtx b) @ save_vector_basic (blk_vchSig b)"

definition load_block :: "CBlock loader" where
  "load_block =
    ld_bind load_basic (\<lambda>ve. ld_bind load_basic (\<lambda>ty. ld_bind load_basic (\<lambda>ts. ld_bind load_basic (\<lambda>hp.
    ld_bind load_basic (\<lambda>hm. ld_bind load_vector_basic (\<lambda>pr. ld_bind load_tx (\<lambda>mi.
    ld_bind (load_vector load_tx) (\<lambda>vt. ld_bind load_vector_basic (\<lambda>si.
    ld_return \<lparr>blk_nVersion = ve, blk_nType = ty, blk_nTimeStamp = ts, blk_hashPrev = hp, blk_hashMerkle = hm,
      blk_vchProof = pr, blk_txMint = mi, blk_vtx = vt, blk_vchSig = si\<rparr>)))))))))"

definition size_block :: "CBlock \<Rightarrow> nat" where
  "size_block b =
    size_basic (blk_nVersion b) + size_basic (blk_nType b) + size_basic (blk_nTimeStamp b) +
    size_basic (blk_hashPrev b) + size_basic (blk_hashMerkle b) + size_vector_basic (blk_vchProof b) +
    size_tx (blk_txMint b) + size_vector size_tx (blk_vtx b) + size_vector_basic (blk_vchSig b)"

record CBlockEx = CBlock +
  vTxContxt :: "CTxContxt list"

definition CBlockEx_block :: "CBlock \<Rightarrow> CTxContxt list \<Rightarrow> CBlockEx" where
  "CBlockEx_block b vTxContxtIn = CBlock.extend b \<lparr>vTxContxt = vTxContxtIn\<rparr>"

definition save_blockex :: "CBlockEx \<Rightarrow> bytes" where
  "save_blockex b = save_block (CBlock.truncate b) @ save_vector save_ctx (vTxContxt b)"

definition load_blockex :: "CBlockEx loader" where
  "load_blockex = ld_bind load_block (\<lambda>b. ld_bind (load_vector load_ctx) (\<lambda>v. ld_return (CBlock.extend b \<lparr>vTxContxt = v\<rparr>)))"

definition size_blockex :: "CBlockEx \<Rightarrow> nat" where
  "size_blockex b = size_block (CBlock.truncate b) + size_vector size_ctx (vTxContxt b)"

definition GetBlockTypeStr :: "uint16 \<Rightarrow> uint16 \<Rightarrow> string" where
  "GetBlockTypeStr nType nMintType =
    (if nType = BLOCK_GENESIS then ''genesis''
     else if nType = BLOCK_ORIGIN then ''origin''
     else if nType = BLOCK_EXTENDED then ''extended''
     else let str = (if nType = BLOCK_VACANT then ''vacant''
                     else if nType = BLOCK_SUBSIDIARY then ''subsidiary''
                     else if nType = BLOCK_PRIMARY then ''primary'' else ''undefined'')
       in if nMintType = TX_WORK then str @ ''-pow''
          else if nMintType = TX_STAKE then str @ ''-dpos''
          else str)"

section \<open>The block index\<close>

text \<open>An entry of the index lives at an address of type \<open>'p\<close>; \<^verbatim>\<open>phashBlock\<close> points to the key of the map
  that owns the entry and is read as the hash.\<close>

record 'p CBlockIndex =
  phashBlock :: "uint256 option"
  pOrigin :: 'p
  pPrev :: "'p option"
  pNext :: "'p option"
  txidMint :: uint256
  nMintType :: uint16
  nVersion :: uint16
  nType :: uint16
  nTimeStamp :: uint32
  nHeight :: uint32
  nRandBeacon :: uint64
  nChainTrust :: uint256
  nMoneySupply :: int64
  nProofAlgo :: uint8
  nProofBits :: uint8
  nFile :: uint32
  nOffset :: uint32

type_synonym 'p index_store = "'p \<Rightarrow> 'p CBlockIndex option"

definition CBlockIndex_null :: "'p \<Rightarrow> 'p CBlockIndex" where
  "CBlockIndex_null this =
    \<lparr>phashBlock = None, pOrigin = this, pPrev = None, pNext = None, txidMint = 0, nMintType = 0, nVersion = 0,
     nType = 0, nTimeStamp = 0, nHeight = 0, nRandBeacon = 0, nChainTrust = 0, nMoneySupply = 0, nProofAlgo = 0,
     nProofBits = 0, nFile = 0, nOffset = 0\<rparr>"

definition CBlockIndex_block ::
    "(bytes \<Rightarrow> uint256) \<Rightarrow> CProofOfHashWorkCompact \<Rightarrow> 'p \<Rightarrow> CBlock \<Rightarrow> uint32 \<Rightarrow> uint32 \<Rightarrow> 'p CBlockIndex" where
  "CBlockIndex_block H proof0 this block nFileIn nOffsetIn =
    (let pow = tx_nType (blk_txMint block) = TX_WORK \<and> length (blk_vchProof block) \<ge> PROOFHASHWORK_SIZE;
         proof = compact_Load proof0 (blk_vchProof block)
     in \<lparr>phashBlock = None, pOrigin = this, pPrev = None, pNext = None,
         txidMint = (if IsVacant block then 0 else tx_GetHash H (blk_txMint block)),
         nMintType = tx_nType (blk_txMint block), nVersion = blk_nVersion block, nType = blk_nType block,
         nTimeStamp = blk_nTimeStamp block, nHeight = GetBlockHeight block, nRandBeacon = 0, nChainTrust = 0,
         nMoneySupply = 0,
         nProofAlgo = (if pow then nAlgo proof else 0), nProofBits = (if pow then nBits proof else 0),
         nFile = nFileIn, nOffset = nOffsetIn\<rparr>)"

text \<open>Dereferencing a null or dangling pointer is the value \<open>None\<close>.\<close>

definition index_GetBlockHash :: "'p CBlockIndex \<Rightarrow> uint256 option" where
  "index_GetBlockHash i = phashBlock i"

definition index_GetBlockHeight :: "'p CBlockIndex \<Rightarrow> int32" where
  "index_GetBlockHeight i = nHeight i"

definition GetOriginHash :: "'p index_store \<Rightarrow> 'p CBlockIndex \<Rightarrow> uint256 option" where
  "GetOriginHash st i = Option.bind (st (pOrigin i)) index_GetBlockHash"

definition GetParentHash :: "'p index_store \<Rightarrow> 'p CBlockIndex \<Rightarrow> uint256 option" where
  "GetParentHash st i = Option.bind (st (pOrigin i)) (\<lambda>orig.
    case pPrev orig of None \<Rightarrow> Some 0 | Some p \<Rightarrow> Option.bind (st p) (GetOriginHash st))"

definition GetPrevHash :: "'p index_store \<Rightarrow> 'p CBlockIndex \<Rightarrow> uint256 option" where
  "GetPrevHash st i = (case pPrev i of None \<Rightarrow> Some 0 | Some p \<Rightarrow> Option.bind (st p) index_GetBlockHash)"

definition index_IsOrigin :: "'p CBlockIndex \<Rightarrow> bool" where
  "index_IsOrigin i \<longleftrightarrow> drop_bit 15 (nType i) \<noteq> 0"

definition index_IsPrimary :: "'p CBlockIndex \<Rightarrow> bool" where
  "index_IsPrimary i \<longleftrightarrow> nType i AND 1 \<noteq> 0"

definition index_IsSubsidiary :: "'p CBlockIndex \<Rightarrow> bool" where
  "index_IsSubsidiary i \<longleftrightarrow> nType i = BLOCK_SUBSIDIARY"

definition index_IsExtended :: "'p CBlockIndex \<Rightarrow> bool" where
  "index_IsExtended i \<longleftrightarrow> nType i = BLOCK_EXTENDED"

definition index_IsVacant :: "'p CBlockIndex \<Rightarrow> bool" where
  "index_IsVacant i \<longleftrightarrow> nType i = BLOCK_VACANT"

definition index_IsProofOfWork :: "'p CBlockIndex \<Rightarrow> bool" where
  "index_IsProofOfWork i \<longleftrightarrow> nMintType i = TX_WORK"

text \<open>The loops follow \<^verbatim>\<open>pPrev\<close>; nothing in the types bounds the walk, so they are partial functions and
  that they return is a theorem about chains.\<close>

partial_function (option) IsEquivalent_loop ::
    "'p index_store \<Rightarrow> 'p \<Rightarrow> int32 \<Rightarrow> 'p option \<Rightarrow> bool option" where
  "IsEquivalent_loop st compare nCompareHeight pIndex =
    (case pIndex of
       None \<Rightarrow> Some False
     | Some p \<Rightarrow>
         if p = compare then Some True
         else case st p of
           None \<Rightarrow> None
         | Some i \<Rightarrow>
             if nType i \<noteq> BLOCK_VACANT \<or> sint (index_GetBlockHeight i) \<le> sint nCompareHeight then Some False
             else IsEquivalent_loop st compare nCompareHeight (pPrev i))"

definition IsEquivalent :: "'p index_store \<Rightarrow> 'p \<Rightarrow> 'p option \<Rightarrow> bool option" where
  "IsEquivalent st this pIndexCompare =
    (case pIndexCompare of
       None \<Rightarrow> Some False
     | Some q \<Rightarrow> Option.bind (st q) (\<lambda>i. IsEquivalent_loop st q (index_GetBlockHeight i) (Some this)))"

partial_function (option) GetExtendedSequence_loop :: "'p index_store \<Rightarrow> int32 \<Rightarrow> 'p option \<Rightarrow> int32 option" where
  "GetExtendedSequence_loop st nSeq pIndex =
    (case pIndex of
       None \<Rightarrow> Some nSeq
     | Some p \<Rightarrow>
         (case st p of
           None \<Rightarrow> None
         | Some i \<Rightarrow>
             if index_IsExtended i then GetExtendedSequence_loop st (nSeq + 1) (pPrev i) else Some nSeq))"

definition GetExtendedSequence :: "'p index_store \<Rightarrow> 'p \<Rightarrow> int32 option" where
  "GetExtendedSequence st this = GetExtendedSequence_loop st 0 (Some this)"

section \<open>Outlines and locators\<close>

record 'p CBlockOutline = "'p CBlockIndex" +
  outline_hashBlock :: uint256
  outline_hashPrev :: uint256
  outline_hashOrigin :: uint256

definition CBlockOutline_index :: "'p index_store \<Rightarrow> 'p CBlockIndex \<Rightarrow> 'p CBlockOutline option" where
  "CBlockOutline_index st i =
    Option.bind (index_GetBlockHash i) (\<lambda>hb. Option.bind (GetPrevHash st i) (\<lambda>hp. Option.bind (GetOriginHash st i) (\<lambda>ho.
      Some (CBlockIndex.extend i \<lparr>outline_hashBlock = hb, outline_hashPrev = hp, outline_hashOrigin = ho\<rparr>))))"

definition save_outline :: "'p CBlockOutline \<Rightarrow> bytes" where
  "save_outline o1 =
    save_basic (outline_hashBlock o1) @ save_basic (outline_hashPrev o1) @ save_basic (outline_hashOrigin o1) @
    save_basic (txidMint o1) @ save_basic (nMintType o1) @ save_basic (nVersion o1) @ save_basic (nType o1) @
    save_basic (nTimeStamp o1) @ save_basic (nHeight o1) @ save_basic (nRandBeacon o1) @ save_basic (nChainTrust o1) @
    save_basic (nMoneySupply o1) @ save_basic (nProofAlgo o1) @ save_basic (nProofBits o1) @ save_basic (nFile o1) @
    save_basic (nOffset o1)"

text \<open>Loading fills an outline whose pointers stay what the constructor set.\<close>

definition load_outline :: "'p \<Rightarrow> 'p CBlockOutline loader" where
  "load_outline this =
    ld_bind load_basic (\<lambda>hb. ld_bind load_basic (\<lambda>hp. ld_bind load_basic (\<lambda>ho. ld_bind load_basic (\<lambda>tm.
    ld_bind load_basic (\<lambda>mt. ld_bind load_basic (\<lambda>ve. ld_bind load_basic (\<lambda>ty. ld_bind load_basic (\<lambda>ts.
    ld_bind load_basic (\<lambda>he. ld_bind load_basic (\<lambda>rb. ld_bind load_basic (\<lambda>ct. ld_bind load_basic (\<lambda>ms.
    ld_bind load_basic (\<lambda>pa. ld_bind load_basic (\<lambda>pb. ld_bind load_basic (\<lambda>fi. ld_bind load_basic (\<lambda>off.
    ld_return \<lparr>phashBlock = None, pOrigin = this, pPrev = None, pNext = None, txidMint = tm, nMintType = mt,
      nVersion = ve, nType = ty, nTimeStamp = ts, nHeight = he, nRandBeacon = rb, nChainTrust = ct, nMoneySupply = ms,
      nProofAlgo = pa, nProofBits = pb, nFile = fi, nOffset = off,
      outline_hashBlock = hb, outline_hashPrev = hp, outline_hashOrigin = ho\<rparr>))))))))))))))))"

definition size_outline :: "'p CBlockOutline \<Rightarrow> nat" where
  "size_outline o1 =
    size_basic (outline_hashBlock o1) + size_basic (outline_hashPrev o1) + size_basic (outline_hashOrigin o1) +
    size_basic (txidMint o1) + size_basic (nMintType o1) + size_basic (nVersion o1) + size_basic (nType o1) +
    size_basic (nTimeStamp o1) + size_basic (nHeight o1) + size_basic (nRandBeacon o1) + size_basic (nChainTrust o1) +
    size_basic (nMoneySupply o1) + size_basic (nProofAlgo o1) + size_basic (nProofBits o1) + size_basic (nFile o1) +
    size_basic (nOffset o1)"

text \<open>\<^verbatim>\<open>vBlockHash\<close> is a vector of \<^verbatim>\<open>uint256\<close>, a class type: it is saved element by element.\<close>

record CBlockLocator =
  vBlockHash :: "uint256 list"

definition save_locator :: "CBlockLocator \<Rightarrow> bytes" where
  "save_locator l = save_vector save_basic (vBlockHash l)"

definition load_locator :: "CBlockLocator loader" where
  "load_locator = ld_bind (load_vector load_basic) (\<lambda>v. ld_return \<lparr>vBlockHash = v\<rparr>)"

definition size_locator :: "CBlockLocator \<Rightarrow> nat" where
  "size_locator l = size_vector size_basic (vBlockHash l)"

section \<open>Codecs\<close>

definition block_sized :: "CBlock \<Rightarrow> bool" where
  "block_sized b \<longleftrightarrow>
    length (blk_vchProof b) \<le> max_size \<and> length (blk_vchSig b) \<le> max_size \<and> tx_sized (blk_txMint b) \<and>
    length (blk_vtx b) < 2 ^ 64 \<and> list_all tx_sized (blk_vtx b)"

definition ctx_sized :: "CTxContxt \<Rightarrow> bool" where
  "ctx_sized c \<longleftrightarrow> length (ctx_vin c) < 2 ^ 64"

interpretation vtx: codec "save_vector save_tx" "load_vector load_tx" "size_vector size_tx"
  "\<lambda>t. length t < 2 ^ 64 \<and> list_all tx_sized t"
  by (rule codec_vector) (rule tx.codec_axioms)

interpretation vctx: codec "save_vector save_ctx" "load_vector load_ctx" "size_vector size_ctx"
  "\<lambda>t. length t < 2 ^ 64 \<and> list_all ctx_sized t"
  by (rule codec_vector) (unfold ctx_sized_def, rule ctx.codec_axioms)

interpretation vhash: codec "save_vector save_basic" "load_vector load_basic" "size_vector size_basic"
  "\<lambda>t :: uint256 list. length t < 2 ^ 64 \<and> list_all (\<lambda>_. True) t"
  by (rule codec_vector) (rule h256.codec_axioms)

lemmas block_load_save = stream_load_save tx.load_save vtx.load_save vch.load_save vctx.load_save vhash.load_save
lemmas block_size_save = stream_size_save tx.size_save vtx.size_save vch.size_save vctx.size_save vhash.size_save

interpretation block: codec save_block load_block size_block block_sized
proof
  fix b s
  assume "block_sized b"
  then show "load_block (save_block b @ s) = Inr (b, s)" "size_block b = length (save_block b)"
    by (simp_all add: block_sized_def save_block_def load_block_def size_block_def codec_simps block_load_save
        block_size_save)
qed

interpretation blockex: codec save_blockex load_blockex size_blockex
  "\<lambda>b. block_sized (CBlock.truncate b) \<and> length (vTxContxt b) < 2 ^ 64 \<and> list_all ctx_sized (vTxContxt b)"
proof
  fix b :: CBlockEx and s
  assume v: "block_sized (CBlock.truncate b) \<and> length (vTxContxt b) < 2 ^ 64 \<and> list_all ctx_sized (vTxContxt b)"
  have "CBlock.extend (CBlock.truncate b) \<lparr>vTxContxt = vTxContxt b\<rparr> = b"
    by (cases b) (simp add: CBlock.defs)
  with v show "load_blockex (save_blockex b @ s) = Inr (b, s)" "size_blockex b = length (save_blockex b)"
    by (simp_all add: save_blockex_def load_blockex_def size_blockex_def codec_simps block.load_save block.size_save
        vctx.load_save vctx.size_save)
qed

interpretation outline: codec save_outline "load_outline this" size_outline
  "\<lambda>o1. phashBlock o1 = None \<and> pOrigin o1 = this \<and> pPrev o1 = None \<and> pNext o1 = None"
  by standard
    (auto simp add: save_outline_def load_outline_def size_outline_def codec_simps stream_load_save stream_size_save)

interpretation locator: codec save_locator load_locator size_locator "\<lambda>l. length (vBlockHash l) < 2 ^ 64"
  by standard
    (simp_all add: save_locator_def load_locator_def size_locator_def codec_simps vhash.load_save vhash.size_save
      list_all_iff)

section \<open>Hash and height\<close>

lemma hash_Get32_top: "hash_Get32 (push_bit 224 (ucast t) OR take_bit 224 h) 7 = t"
  by (rule bit_word_eqI) (simp add: hash_Get32_def bit_simps)

lemma height_of_hash: "GetBlockHeightByHash (block_GetHash H b) = GetBlockHeight b"
  by (simp add: GetBlockHeightByHash_def block_GetHash_def hash_Get32_top)

lemma save_header_inject:
  assumes "block_sized a" "block_sized b" "save_header a = save_header b"
  shows "a\<lparr>blk_vtx := [], blk_vchSig := []\<rparr> = b\<lparr>blk_vtx := [], blk_vchSig := []\<rparr>"
proof -
  have save: "save_block (c\<lparr>blk_vtx := [], blk_vchSig := []\<rparr>) =
      save_header c @ save_vector save_tx [] @ save_vector_basic ([] :: bytes)" for c
    by (simp add: save_block_def save_header_def)
  have "block_sized (c\<lparr>blk_vtx := [], blk_vchSig := []\<rparr>)" if "block_sized c" for c
    using that by (simp add: block_sized_def max_size_def)
  with assms(1,2) show ?thesis
    by (subst block.save_inject [symmetric]) (simp_all only: save assms(3))
qed

section \<open>The Merkle tree, level by level\<close>

fun merkle_level :: "(bytes \<Rightarrow> uint256) \<Rightarrow> uint256 list \<Rightarrow> uint256 list" where
  "merkle_level H [] = []"
| "merkle_level H [x] = [CryptoHash2 H x x]"
| "merkle_level H (x # y # xs) = CryptoHash2 H x y # merkle_level H xs"

lemma length_merkle_level [simp]: "length (merkle_level H xs) = (length xs + 1) div 2"
  by (induction H xs rule: merkle_level.induct) auto

function merkle_root :: "(bytes \<Rightarrow> uint256) \<Rightarrow> uint256 list \<Rightarrow> uint256" where
  "merkle_root H [] = 0"
| "merkle_root H [x] = x"
| "merkle_root H (x # y # xs) = merkle_root H (merkle_level H (x # y # xs))"
  by pat_completeness auto
termination by (relation "measure (\<lambda>(H, xs). length xs)") (auto simp del: merkle_level.simps)

lemma merkle_root_step: "length xs \<ge> 2 \<Longrightarrow> merkle_root H xs = merkle_root H (merkle_level H xs)"
  by (cases xs; cases "tl xs") (auto simp del: merkle_level.simps)

lemma merkle_inner_level:
  "merkle_inner H (length pre) (length cur) i (pre @ cur @ acc) = pre @ cur @ acc @ merkle_level H (drop i cur)"
proof (induction "length cur - i" arbitrary: i acc rule: less_induct)
  case less
  show ?case
  proof (cases "i < length cur")
    case True
    let ?i2 = "min (i + 1) (length cur - 1)"
    have "?i2 < length cur" using True by simp
    then have "(pre @ cur @ acc) ! (length pre + i) = cur ! i" "(pre @ cur @ acc) ! (length pre + ?i2) = cur ! ?i2"
      using True \<open>?i2 < length cur\<close> by (simp_all add: nth_append)
    then have "merkle_inner H (length pre) (length cur) i (pre @ cur @ acc) =
        pre @ cur @ (acc @ [CryptoHash2 H (cur ! i) (cur ! ?i2)]) @ merkle_level H (drop (i + 2) cur)"
      using True less [of "i + 2" "acc @ [CryptoHash2 H (cur ! i) (cur ! ?i2)]"]
      by (subst merkle_inner.simps) (simp add: Let_def)
    moreover have "merkle_level H (drop i cur) = CryptoHash2 H (cur ! i) (cur ! ?i2) # merkle_level H (drop (i + 2) cur)"
    proof (cases "i + 1 < length cur")
      case True
      then have "drop i cur = cur ! i # cur ! (i + 1) # drop (i + 2) cur"
        by (metis Cons_nth_drop_Suc Suc_eq_plus1 add_2_eq_Suc' add_lessD1)
      moreover have "?i2 = i + 1" using True by simp
      ultimately show ?thesis by simp
    next
      case False
      with \<open>i < length cur\<close> have "length cur = Suc i" by simp
      then have "drop i cur = [cur ! i]"
        by (metis Cons_nth_drop_Suc drop_all lessI order_refl)
      then show ?thesis using \<open>length cur = Suc i\<close> by simp
    qed
    ultimately show ?thesis by simp
  next
    case False
    then show ?thesis by (subst merkle_inner.simps) simp
  qed
qed

lemma merkle_outer_root:
  "cur \<noteq> [] \<Longrightarrow> merkle_outer H (length pre) (length cur) (pre @ cur) \<noteq> []
    \<and> last (merkle_outer H (length pre) (length cur) (pre @ cur)) = merkle_root H cur"
proof (induction "length cur" arbitrary: pre cur rule: less_induct)
  case less
  show ?case
  proof (cases "length cur > 1")
    case True
    have step: "merkle_outer H (length pre) (length cur) (pre @ cur) =
        merkle_outer H (length (pre @ cur)) (length (merkle_level H cur)) ((pre @ cur) @ merkle_level H cur)"
      using True merkle_inner_level [of H pre cur 0 "[]"] by (subst merkle_outer.simps) simp
    have "length (merkle_level H cur) < length cur" "merkle_level H cur \<noteq> []"
      using True length_merkle_level [of H cur] by (auto simp del: length_merkle_level)
    from less(1) [OF this, of "pre @ cur"] show ?thesis
      using True unfolding step by (simp add: merkle_root_step del: length_merkle_level)
  next
    case False
    then obtain x where "cur = [x]"
      using less(2) by (cases cur) auto
    then show ?thesis by (subst (1 2) merkle_outer.simps) simp
  qed
qed

lemma CalcMerkleTreeRoot_eq: "CalcMerkleTreeRoot H b = merkle_root H (map (tx_GetHash H) (blk_vtx b))"
proof (cases "blk_vtx b = []")
  case True
  then show ?thesis
    by (simp add: CalcMerkleTreeRoot_def BuildMerkleTree_def merkle_outer.simps)
next
  case False
  then show ?thesis
    using merkle_outer_root [of "map (tx_GetHash H) (blk_vtx b)" H "[]"]
    by (simp add: CalcMerkleTreeRoot_def BuildMerkleTree_def Let_def)
qed

text \<open>The pairs of hashes that are hashed while the tree is built.\<close>

fun level_pairs :: "uint256 list \<Rightarrow> (uint256 \<times> uint256) list" where
  "level_pairs [] = []"
| "level_pairs [x] = [(x, x)]"
| "level_pairs (x # y # xs) = (x, y) # level_pairs xs"

function merkle_pairs :: "(bytes \<Rightarrow> uint256) \<Rightarrow> uint256 list \<Rightarrow> (uint256 \<times> uint256) list" where
  "merkle_pairs H xs =
    (if length xs \<ge> 2 then level_pairs xs @ merkle_pairs H (merkle_level H xs) else [])"
  by pat_completeness auto
termination by (relation "measure (\<lambda>(H, xs). length xs)") auto

declare merkle_pairs.simps [simp del]

definition no_collision :: "(bytes \<Rightarrow> uint256) \<Rightarrow> (uint256 \<times> uint256) list \<Rightarrow> (uint256 \<times> uint256) list \<Rightarrow> bool" where
  "no_collision H ps qs \<longleftrightarrow>
    (\<forall>p \<in> set ps. \<forall>q \<in> set qs. CryptoHash2 H (fst p) (snd p) = CryptoHash2 H (fst q) (snd q) \<longrightarrow> p = q)"

lemma no_collision_mono: "no_collision H ps qs \<Longrightarrow> set ps' \<subseteq> set ps \<Longrightarrow> set qs' \<subseteq> set qs \<Longrightarrow> no_collision H ps' qs'"
  by (auto simp: no_collision_def)

lemma merkle_level_inject:
  "length xs = length ys \<Longrightarrow> merkle_level H xs = merkle_level H ys
    \<Longrightarrow> no_collision H (level_pairs xs) (level_pairs ys) \<Longrightarrow> xs = ys"
proof (induction H xs arbitrary: ys rule: merkle_level.induct)
  case (2 H x)
  then obtain u where "ys = [u]" by (cases ys) auto
  with 2 show ?case by (simp add: no_collision_def)
next
  case (3 H x y xs)
  then obtain u v zs where "ys = u # v # zs"
    by (metis length_Suc_conv length_Cons)
  moreover from this 3(4) have "no_collision H (level_pairs xs) (level_pairs zs)"
    by (elim no_collision_mono) auto
  ultimately show ?case using 3 by (simp add: no_collision_def)
qed simp

lemma merkle_root_inject:
  "length xs = length ys \<Longrightarrow> merkle_root H xs = merkle_root H ys
    \<Longrightarrow> no_collision H (merkle_pairs H xs) (merkle_pairs H ys) \<Longrightarrow> xs = ys"
proof (induction "length xs" arbitrary: xs ys rule: less_induct)
  case less
  show ?case
  proof (cases "length xs \<ge> 2")
    case True
    have pairs: "merkle_pairs H xs = level_pairs xs @ merkle_pairs H (merkle_level H xs)"
      "merkle_pairs H ys = level_pairs ys @ merkle_pairs H (merkle_level H ys)"
      using True less(2) by (subst merkle_pairs.simps, simp)+
    have "merkle_level H xs = merkle_level H ys"
    proof (rule less(1))
      show "no_collision H (merkle_pairs H (merkle_level H xs)) (merkle_pairs H (merkle_level H ys))"
        using less(4) by (rule no_collision_mono) (auto simp: pairs)
      show "merkle_root H (merkle_level H xs) = merkle_root H (merkle_level H ys)"
        using less(3) unfolding merkle_root_step [OF True] merkle_root_step [OF True [unfolded less(2)]] .
    qed (use True less(2) in auto)
    moreover have "no_collision H (level_pairs xs) (level_pairs ys)"
      using less(4) by (rule no_collision_mono) (auto simp: pairs)
    ultimately show ?thesis by (rule merkle_level_inject [OF less(2)])
  next
    case False
    then have "length xs = 0 \<or> length xs = 1" by arith
    with less(2,3) show ?thesis
      by (auto simp: length_Suc_conv)
  qed
qed

lemma merkle_level_duplicate:
  "even (length xs) \<Longrightarrow> merkle_level H (xs @ [x, x]) = merkle_level H (xs @ [x])"
  by (induction H xs rule: merkle_level.induct) auto

lemma merkle_root_duplicate:
  assumes "even (length xs)" "xs \<noteq> []"
  shows "merkle_root H (xs @ [x, x]) = merkle_root H (xs @ [x])"
proof -
  have "length xs \<ge> 2" using assms by (cases xs; cases "tl xs") auto
  then show ?thesis
    using merkle_root_step [of "xs @ [x, x]" H] merkle_root_step [of "xs @ [x]" H] merkle_level_duplicate [OF assms(1)]
    by simp
qed

section \<open>Chains of index entries\<close>

text \<open>\<open>chain st p ps\<close>: following \<^verbatim>\<open>pPrev\<close> from \<open>p\<close> visits the addresses \<open>ps\<close> and ends at a null pointer.\<close>

fun chain :: "'p index_store \<Rightarrow> 'p option \<Rightarrow> 'p list \<Rightarrow> bool" where
  "chain st None ps \<longleftrightarrow> ps = []"
| "chain st (Some p) [] \<longleftrightarrow> False"
| "chain st (Some p) (q # ps) \<longleftrightarrow> p = q \<and> (case st p of None \<Rightarrow> False | Some i \<Rightarrow> chain st (pPrev i) ps)"

definition vacant_above :: "'p index_store \<Rightarrow> int32 \<Rightarrow> 'p \<Rightarrow> bool" where
  "vacant_above st h p \<longleftrightarrow> (case st p of None \<Rightarrow> False | Some i \<Rightarrow> nType i = BLOCK_VACANT \<and> sint h < sint (nHeight i))"

definition extended_at :: "'p index_store \<Rightarrow> 'p \<Rightarrow> bool" where
  "extended_at st p \<longleftrightarrow> (case st p of None \<Rightarrow> False | Some i \<Rightarrow> nType i = BLOCK_EXTENDED)"

lemma chain_cases:
  assumes "chain st p ps"
  obtains "p = None" "ps = []"
  | a i qs where "p = Some a" "ps = a # qs" "st a = Some i" "chain st (pPrev i) qs"
  using assms by (cases "(st, p, ps)" rule: chain.cases) (auto split: option.splits)

lemma IsEquivalent_loop_chain:
  "chain st p ps \<Longrightarrow> IsEquivalent_loop st q h p =
    Some (q \<in> set ps \<and> (\<forall>a \<in> set (takeWhile (\<lambda>a. a \<noteq> q) ps). vacant_above st h a))"
proof (induction "length ps" arbitrary: p ps)
  case 0
  from this(2) show ?case by (rule chain_cases) (use 0 in \<open>auto simp: IsEquivalent_loop.simps\<close>)
next
  case (Suc n)
  from Suc(3) obtain a i qs where *: "p = Some a" "ps = a # qs" "st a = Some i" "chain st (pPrev i) qs"
    by (rule chain_cases) (use Suc(2) in auto)
  with Suc(1) [of qs "pPrev i"] Suc(2) show ?case
    by (subst IsEquivalent_loop.simps) (auto simp: vacant_above_def index_GetBlockHeight_def)
qed

lemma GetExtendedSequence_loop_chain:
  "chain st p ps \<Longrightarrow> GetExtendedSequence_loop st n p = Some (n + of_nat (length (takeWhile (extended_at st) ps)))"
proof (induction "length ps" arbitrary: p ps n)
  case 0
  from this(2) show ?case by (rule chain_cases) (use 0 in \<open>auto simp: GetExtendedSequence_loop.simps\<close>)
next
  case (Suc m)
  from Suc(3) obtain a i qs where *: "p = Some a" "ps = a # qs" "st a = Some i" "chain st (pPrev i) qs"
    by (rule chain_cases) (use Suc(2) in auto)
  with Suc(1) [of qs "pPrev i"] Suc(2) show ?case
    by (subst GetExtendedSequence_loop.simps) (simp add: extended_at_def index_IsExtended_def)
qed

section \<open>Properties\<close>

text \<open>C19: Blocks, blocks with transaction contexts, outlines and locators are loaded back from what was
  saved, with the announced number of bytes; the outline of an index entry has the hashes of the entry,
  of its predecessor and of its origin; \<^verbatim>\<open>GetTxSerializedOffset\<close> is the position of the minting
  transaction in the saved block, so loading a transaction there returns it.\<close>

theorem block_roundtrip:
  assumes "block_sized b" "length cs < 2 ^ 64" "list_all ctx_sized cs" "length (vBlockHash l) < 2 ^ 64"
    and "CBlockOutline_index st i = Some o1"
  shows "load_block (save_block b @ s) = Inr (b, s) \<and> size_block b = length (save_block b)
    \<and> load_blockex (save_blockex (CBlockEx_block b cs) @ s) = Inr (CBlockEx_block b cs, s)
    \<and> load_locator (save_locator l @ s) = Inr (l, s)
    \<and> load_outline this (save_outline o1 @ s)
        = Inr (o1\<lparr>phashBlock := None, pOrigin := this, pPrev := None, pNext := None\<rparr>, s)
    \<and> index_GetBlockHash i = Some (outline_hashBlock o1) \<and> GetPrevHash st i = Some (outline_hashPrev o1)
    \<and> GetOriginHash st i = Some (outline_hashOrigin o1)
    \<and> load_tx (drop (GetTxSerializedOffset b) (save_block b))
        = Inr (blk_txMint b, save_vector save_tx (blk_vtx b) @ save_vector_basic (blk_vchSig b))"
proof -
  let ?o = "o1\<lparr>phashBlock := None, pOrigin := this, pPrev := None, pNext := None\<rparr>"
  have "save_outline ?o = save_outline o1" by (simp add: save_outline_def)
  then have o: "load_outline this (save_outline o1 @ s) = Inr (?o, s)"
    using outline.load_save [of ?o this s] by simp
  have ex: "load_blockex (save_blockex (CBlockEx_block b cs) @ s) = Inr (CBlockEx_block b cs, s)"
    using assms by (intro blockex.load_save) (simp add: CBlockEx_block_def CBlock.defs block_sized_def)
  have "length (save_vector_basic (blk_vchProof b)) = size_vector_basic (blk_vchProof b)"
    using assms(1) by (subst vch.size_save) (simp_all add: block_sized_def)
  then have "drop (GetTxSerializedOffset b) (save_block b)
      = save_tx (blk_txMint b) @ save_vector save_tx (blk_vtx b) @ save_vector_basic (blk_vchSig b)"
    by (simp add: GetTxSerializedOffset_def save_block_def save_basic_def)
  moreover have "index_GetBlockHash i = Some (outline_hashBlock o1)" "GetPrevHash st i = Some (outline_hashPrev o1)"
    "GetOriginHash st i = Some (outline_hashOrigin o1)"
    using assms(5) by (auto simp: CBlockOutline_index_def CBlockIndex.defs bind_eq_Some_conv)
  ultimately show ?thesis
    using assms o ex
    by (simp add: block.load_save block.size_save locator.load_save tx.load_save block_sized_def)
qed

theorem block_roundtrip_witness:
  "load_block (save_block block_SetNull @ [1, 2]) = Inr (block_SetNull, [1, 2])"
  using block_roundtrip [of block_SetNull "[]" "\<lparr>vBlockHash = [5]\<rparr>"
      "\<lambda>p :: nat. Some ((CBlockIndex_null p)\<lparr>phashBlock := Some 7\<rparr>)"
      "(CBlockIndex_null (0 :: nat))\<lparr>phashBlock := Some 7\<rparr>" _ "[1, 2]" 0]
  by (simp add: block_SetNull_def block_sized_def tx_SetNull_def tx_sized_def max_size_def CBlockOutline_index_def
      index_GetBlockHash_def GetPrevHash_def GetOriginHash_def CBlockIndex_null_def)

text \<open>C17: The hash of a block carries its height: \<^verbatim>\<open>GetBlockHeightByHash\<close> of the hash is the height, a
  genesis block has height 0, an extended block has the height of its predecessor and every other
  block the successor of it (modulo \<open>2^32\<close>). Two blocks with the same hash agree in everything but
  the transaction list and the signature, or exhibit two header encodings that collide in the low
  224 bits of the hash function.\<close>

theorem block_hash_height:
  assumes "block_sized a" "block_sized b"
  shows "GetBlockHeightByHash (block_GetHash H b) = GetBlockHeight b
    \<and> (IsGenesis b \<longrightarrow> GetBlockHeight b = 0)
    \<and> (blk_hashPrev b = block_GetHash H a \<and> \<not> IsGenesis b \<longrightarrow>
        GetBlockHeight b = (if IsExtended b then GetBlockHeight a else GetBlockHeight a + 1))
    \<and> (block_GetHash H a = block_GetHash H b \<longrightarrow>
        GetBlockHeight a = GetBlockHeight b
        \<and> (a\<lparr>blk_vtx := [], blk_vchSig := []\<rparr> = b\<lparr>blk_vtx := [], blk_vchSig := []\<rparr>
           \<or> save_header a \<noteq> save_header b
             \<and> take_bit 224 (H (save_header a)) = take_bit 224 (H (save_header b))))"
proof (intro conjI impI)
  assume eq: "block_GetHash H a = block_GetHash H b"
  show "GetBlockHeight a = GetBlockHeight b"
    using arg_cong [OF eq, of GetBlockHeightByHash] by (simp add: height_of_hash)
  have "take_bit 224 (H (save_header a)) = take_bit 224 (H (save_header b))"
    using arg_cong [OF eq, of "take_bit 224"] by (simp only: block_GetHash_def take_bit_txid)
  then show "a\<lparr>blk_vtx := [], blk_vchSig := []\<rparr> = b\<lparr>blk_vtx := [], blk_vchSig := []\<rparr>
      \<or> save_header a \<noteq> save_header b \<and> take_bit 224 (H (save_header a)) = take_bit 224 (H (save_header b))"
    using save_header_inject [OF assms] by blast
next
  assume "blk_hashPrev b = block_GetHash H a \<and> \<not> IsGenesis b"
  then show "GetBlockHeight b = (if IsExtended b then GetBlockHeight a else GetBlockHeight a + 1)"
    using height_of_hash [of H a] by (simp add: GetBlockHeight_def [of b] GetBlockHeightByHash_def)
qed (simp_all add: height_of_hash GetBlockHeight_def)

theorem block_hash_height_witness:
  "GetBlockHeight (block_SetNull\<lparr>blk_nType := BLOCK_PRIMARY,
      blk_hashPrev := block_GetHash (\<lambda>_. 9) (block_SetNull\<lparr>blk_nType := BLOCK_GENESIS\<rparr>)\<rparr>) = 1"
  using block_hash_height [of "block_SetNull\<lparr>blk_nType := BLOCK_GENESIS\<rparr>"
      "block_SetNull\<lparr>blk_nType := BLOCK_PRIMARY,
        blk_hashPrev := block_GetHash (\<lambda>_. 9) (block_SetNull\<lparr>blk_nType := BLOCK_GENESIS\<rparr>)\<rparr>" "\<lambda>_. 9"]
  by (simp add: block_SetNull_def block_sized_def tx_SetNull_def tx_sized_def max_size_def IsGenesis_def IsExtended_def
      block_type_defs GetBlockHeight_def [of "\<lparr>blk_nVersion = 1, blk_nType = 0xffff, blk_nTimeStamp = t,
        blk_hashPrev = h, blk_hashMerkle = m, blk_vchProof = p, blk_txMint = c, blk_vtx = v, blk_vchSig = s\<rparr>" for t h m p c v s])

text \<open>C16: The loops of \<^verbatim>\<open>BuildMerkleTree\<close> compute the root of the recursively defined Merkle tree over
  the transaction ids. The root of a list of transactions binds the ids of every list of the same
  length, provided the pairs hashed on the way do not collide. It does not bind the length: when
  the number of transactions is odd, listing the last one twice gives the same root.\<close>

theorem merkle_tree_correct:
  assumes "length (blk_vtx a) = length (blk_vtx b)"
    and "no_collision H (merkle_pairs H (map (tx_GetHash H) (blk_vtx a)))
      (merkle_pairs H (map (tx_GetHash H) (blk_vtx b)))"
    and "even (length xs)" "xs \<noteq> []"
  shows "CalcMerkleTreeRoot H a = merkle_root H (map (tx_GetHash H) (blk_vtx a))
    \<and> (CalcMerkleTreeRoot H a = CalcMerkleTreeRoot H b \<longleftrightarrow>
        map (tx_GetHash H) (blk_vtx a) = map (tx_GetHash H) (blk_vtx b))
    \<and> CalcMerkleTreeRoot H (a\<lparr>blk_vtx := xs @ [x]\<rparr>) = CalcMerkleTreeRoot H (a\<lparr>blk_vtx := xs @ [x, x]\<rparr>)"
  using merkle_root_inject [OF _ _ assms(2)] merkle_root_duplicate [of "map (tx_GetHash H) xs" H "tx_GetHash H x"] assms
  by (auto simp: CalcMerkleTreeRoot_eq)

theorem merkle_tree_correct_witness:
  "CalcMerkleTreeRoot (\<lambda>bs. le_word (take 32 bs)) (block_SetNull\<lparr>blk_vtx := [tx_SetNull, tx_SetNull, tx_SetNull]\<rparr>)
    = CalcMerkleTreeRoot (\<lambda>bs. le_word (take 32 bs))
        (block_SetNull\<lparr>blk_vtx := [tx_SetNull, tx_SetNull, tx_SetNull, tx_SetNull]\<rparr>)"
  using merkle_tree_correct [of block_SetNull block_SetNull "\<lambda>bs. le_word (take 32 bs)" "[tx_SetNull, tx_SetNull]"
      tx_SetNull]
  by (simp add: block_SetNull_def no_collision_def merkle_pairs.simps)

text \<open>C18: On an index entry whose predecessor links end, both walks return. \<^verbatim>\<open>GetExtendedSequence\<close> is the
  number of extended entries the chain starts with; \<^verbatim>\<open>IsEquivalent\<close> holds exactly when the entry
  compared with lies on the chain and everything before it is a vacant block of greater height.\<close>

theorem index_walks_return:
  assumes "chain st (Some p) ps" "st q = Some i"
  shows "GetExtendedSequence st p = Some (of_nat (length (takeWhile (extended_at st) ps)))
    \<and> IsEquivalent st p (Some q) =
        Some (q \<in> set ps \<and> (\<forall>a \<in> set (takeWhile (\<lambda>a. a \<noteq> q) ps). vacant_above st (nHeight i) a))
    \<and> IsEquivalent st p None = Some False"
  using assms GetExtendedSequence_loop_chain [OF assms(1)] IsEquivalent_loop_chain [OF assms(1)]
  by (simp add: GetExtendedSequence_def IsEquivalent_def index_GetBlockHeight_def)

theorem index_walks_return_witness:
  "GetExtendedSequence
      [0 \<mapsto> (CBlockIndex_null 0)\<lparr>nType := BLOCK_PRIMARY\<rparr>,
       1 \<mapsto> (CBlockIndex_null 0)\<lparr>nType := BLOCK_EXTENDED, pPrev := Some 0\<rparr>,
       2 \<mapsto> (CBlockIndex_null 0)\<lparr>nType := BLOCK_EXTENDED, pPrev := Some 1\<rparr>] (2 :: nat) = Some 2"
  using index_walks_return [of "[0 \<mapsto> (CBlockIndex_null 0)\<lparr>nType := BLOCK_PRIMARY\<rparr>,
       1 \<mapsto> (CBlockIndex_null 0)\<lparr>nType := BLOCK_EXTENDED, pPrev := Some 0\<rparr>,
       2 \<mapsto> (CBlockIndex_null 0)\<lparr>nType := BLOCK_EXTENDED, pPrev := Some 1\<rparr>]" "2 :: nat" "[2, 1, 0]" 0]
  by (simp add: CBlockIndex_null_def extended_at_def block_type_defs)

text \<open>C20: The index entry of a block has the height that the block's hash carries, agrees with the block
  on its kind, and for a proof-of-work block whose proof ends with a saved proof of work it holds
  the algorithm and the difficulty bits of that proof.\<close>

theorem block_index_agrees:
  assumes "i = CBlockIndex_block H c0 this b f off"
  shows "index_GetBlockHeight i = GetBlockHeightByHash (block_GetHash H b)
    \<and> (index_IsPrimary i \<longleftrightarrow> IsPrimary b) \<and> (index_IsExtended i \<longleftrightarrow> IsExtended b)
    \<and> (index_IsVacant i \<longleftrightarrow> IsVacant b) \<and> (index_IsProofOfWork i \<longleftrightarrow> IsProofOfWork b)
    \<and> (IsProofOfWork b \<and> blk_vchProof b = proof_Save hw_ToStream p v \<longrightarrow>
        nProofAlgo i = hw_nAlgo p \<and> nProofBits i = hw_nBits p)
    \<and> (\<not> IsProofOfWork b \<longrightarrow> nProofAlgo i = 0 \<and> nProofBits i = 0)"
proof -
  have "PROOFHASHWORK_SIZE \<le> length (proof_Save hw_ToStream p v)"
    using hw.size_save [of p] by (simp add: proof_Save_def PROOFHASHWORK_SIZE_def)
  then show ?thesis
    unfolding assms
    by (auto simp: CBlockIndex_block_def index_GetBlockHeight_def height_of_hash index_IsPrimary_def IsPrimary_def
        index_IsExtended_def IsExtended_def index_IsVacant_def IsVacant_def index_IsProofOfWork_def IsProofOfWork_def
        Let_def proof_Save_def compact_Load_hw hw_compact_def)
qed

theorem block_index_agrees_witness:
  "nProofBits (CBlockIndex_block (\<lambda>_. 0) \<lparr>nAlgo = 0, nBits = 0, destMint = CDestination 0 0, nNonce = 0\<rparr> (0 :: nat)
      (block_SetNull\<lparr>blk_txMint := tx_SetNull\<lparr>tx_nType := TX_WORK\<rparr>,
        blk_vchProof := proof_Save hw_ToStream \<lparr>nWeight = 1, nAgreement = 2, hw_nAlgo = 3, hw_nBits = 32,
          hw_destMint = CDestination 1 5, hw_nNonce = 6\<rparr> []\<rparr>) 0 0) = 32"
  using block_index_agrees [OF refl, of "\<lambda>_. 0" "\<lparr>nAlgo = 0, nBits = 0, destMint = CDestination 0 0, nNonce = 0\<rparr>" "0 :: nat"
      "block_SetNull\<lparr>blk_txMint := tx_SetNull\<lparr>tx_nType := TX_WORK\<rparr>,
        blk_vchProof := proof_Save hw_ToStream \<lparr>nWeight = 1, nAgreement = 2, hw_nAlgo = 3, hw_nBits = 32,
          hw_destMint = CDestination 1 5, hw_nNonce = 6\<rparr> []\<rparr>" 0 0
      "\<lparr>nWeight = 1, nAgreement = 2, hw_nAlgo = 3, hw_nBits = 32, hw_destMint = CDestination 1 5, hw_nNonce = 6\<rparr>" "[]"]
  by (simp add: IsProofOfWork_def)

end
