(* ===== verification/Protocol.thy ===== *)
theory Protocol
  imports Block
begin

text \<open>
  The wire protocol, \<^verbatim>\<open>src/network/proto.h\<close> and \<^verbatim>\<open>proto.cpp\<close>: the message header with its checksums, the
  inventory vectors that name blocks and transactions, message responses, and the fixed 18-byte
  endpoint with its routability test, which is compared with the one of \<^verbatim>\<open>src/xengine/util.h\<close>.
\<close>

unbundle bit_operations_syntax

section \<open>The message header\<close>

definition MESSAGE_HEADER_SIZE :: nat where "MESSAGE_HEADER_SIZE = 16"
definition MESSAGE_PAYLOAD_MAX_SIZE :: uint32 where "MESSAGE_PAYLOAD_MAX_SIZE = 0x400000"

record CPeerMessageHeader =
  hdr_nMagic :: uint32
  hdr_nType :: uint8
  hdr_nPayloadSize :: uint32
  hdr_nPayloadChecksum :: uint32
  hdr_nHeaderChecksum :: uint32

definition GetChannel :: "CPeerMessageHeader \<Rightarrow> nat" where
  "GetChannel h = unat (drop_bit 6 (hdr_nType h))"

definition GetCommand :: "CPeerMessageHeader \<Rightarrow> nat" where
  "GetCommand h = unat (hdr_nType h AND 0x3F)"

definition header_fields :: "CPeerMessageHeader \<Rightarrow> bytes" where
  "header_fields h =
    le_bytes 4 (hdr_nMagic h) @ le_bytes 1 (hdr_nType h) @ le_bytes 4 (hdr_nPayloadSize h) @
    le_bytes 4 (hdr_nPayloadChecksum h)"

definition GetHeaderChecksum :: "CPeerMessageHeader \<Rightarrow> uint32" where
  "GetHeaderChecksum h = crc24q (header_fields h)"

definition header_Verify :: "CPeerMessageHeader \<Rightarrow> bool" where
  "header_Verify h \<longleftrightarrow> hdr_nPayloadSize h \<le> MESSAGE_PAYLOAD_MAX_SIZE \<and> hdr_nHeaderChecksum h = GetHeaderChecksum h"

definition GetMessageType :: "int32 \<Rightarrow> int32 \<Rightarrow> uint8" where
  "GetMessageType nChannel nCommand = ucast (push_bit 6 nChannel OR (nCommand AND 0x3F))"

text \<open>The buffer is filled with 17 bytes, of which 16 are written.\<close>

definition save_msgheader :: "CPeerMessageHeader \<Rightarrow> bytes" where
  "save_msgheader h = take MESSAGE_HEADER_SIZE (header_fields h @ le_bytes 4 (hdr_nHeaderChecksum h))"

text \<open>The 17th byte of the buffer is whatever the stack holds, the argument \<open>junk\<close>; the mask drops it.\<close>

definition load_msgheader :: "uint8 \<Rightarrow> CPeerMessageHeader loader" where
  "load_msgheader junk = ld_bind (Read MESSAGE_HEADER_SIZE) (\<lambda>bs.
    let buf = bs @ [junk] in
    ld_return \<lparr>hdr_nMagic = le_word (take 4 buf), hdr_nType = buf ! 4, hdr_nPayloadSize = le_word (take 4 (drop 5 buf)),
      hdr_nPayloadChecksum = le_word (take 4 (drop 9 buf)),
      hdr_nHeaderChecksum = le_word (take 4 (drop 13 buf)) AND 0xFFFFFF\<rparr>)"

definition size_msgheader :: "CPeerMessageHeader \<Rightarrow> nat" where
  "size_msgheader h = MESSAGE_HEADER_SIZE"

section \<open>Responses and inventory vectors\<close>

record CMsgRsp =
  nReqMsgType :: uint32
  nReqMsgSubType :: uint32
  nRspResult :: uint64

definition save_msgrsp :: "CMsgRsp \<Rightarrow> bytes" where
  "save_msgrsp r = save_basic (nReqMsgType r) @ save_basic (nReqMsgSubType r) @ save_basic (nRspResult r)"

definition load_msgrsp :: "CMsgRsp loader" where
  "load_msgrsp = ld_bind load_basic (\<lambda>t. ld_bind load_basic (\<lambda>s. ld_bind load_basic (\<lambda>r.
    ld_return \<lparr>nReqMsgType = t, nReqMsgSubType = s, nRspResult = r\<rparr>)))"

definition size_msgrsp :: "CMsgRsp \<Rightarrow> nat" where
  "size_msgrsp r = size_basic (nReqMsgType r) + size_basic (nReqMsgSubType r) + size_basic (nRspResult r)"

datatype CInv = CInv (inv_nType: uint32) (inv_nHash: uint256)

definition MSG_TX :: uint32 where "MSG_TX = 1"
definition MSG_BLOCK :: uint32 where "MSG_BLOCK = 2"

definition inv_less :: "CInv \<Rightarrow> CInv \<Rightarrow> bool" where
  "inv_less a b \<longleftrightarrow> inv_nType a < inv_nType b \<or> (inv_nType a = inv_nType b \<and> inv_nHash a < inv_nHash b)"

instantiation CInv :: linorder
begin

definition less_CInv :: "CInv \<Rightarrow> CInv \<Rightarrow> bool" where
  "less_CInv a b \<longleftrightarrow> inv_less a b"

definition less_eq_CInv :: "CInv \<Rightarrow> CInv \<Rightarrow> bool" where
  "less_eq_CInv a b \<longleftrightarrow> a < b \<or> a = b"

instance
  by standard (auto simp: less_CInv_def inv_less_def less_eq_CInv_def intro: CInv.expand)

end

definition save_inv :: "CInv \<Rightarrow> bytes" where
  "save_inv i = save_basic (inv_nType i) @ save_basic (inv_nHash i)"

definition load_inv :: "CInv loader" where
  "load_inv = ld_bind load_basic (\<lambda>t. ld_bind load_basic (\<lambda>h. ld_return (CInv t h)))"

definition size_inv :: "CInv \<Rightarrow> nat" where
  "size_inv i = size_basic (inv_nType i) + size_basic (inv_nHash i)"

section \<open>Endpoints\<close>

text \<open>An address of \<^verbatim>\<open>boost::asio\<close> as the bytes that \<^verbatim>\<open>to_bytes\<close> returns, four or sixteen of them.\<close>

datatype ip_address = V4 bytes | V6 bytes

record tcp_endpoint =
  ep_address :: ip_address
  ep_port :: uint16

definition epipv4 :: bytes where
  "epipv4 = [0, 0, 0, 0, 0, 0, 0, 0, 0, 0, 0xff, 0xff, 0, 0, 0, 0, 0, 0]"

definition CEndpoint_null :: bytes where
  "CEndpoint_null = epipv4"

definition CEndpoint_tcp :: "tcp_endpoint \<Rightarrow> bytes" where
  "CEndpoint_tcp ep =
    (case ep_address ep of V4 b \<Rightarrow> take 12 epipv4 @ b | V6 b \<Rightarrow> b) @
    [ucast (drop_bit 8 (ep_port ep)), ucast (ep_port ep AND 0xFF)]"

definition GetEndpoint :: "bytes \<Rightarrow> tcp_endpoint" where
  "GetEndpoint ss =
    \<lparr>ep_address = (if take 12 ss = take 12 epipv4 then V4 (take 4 (drop 12 ss)) else V6 (take 16 ss)),
     ep_port = push_bit 8 (ucast (ss ! 16)) + ucast (ss ! 17)\<rparr>"

definition ep_IsRoutable :: "bytes \<Rightarrow> bool" where
  "ep_IsRoutable ss =
    (if take 12 epipv4 = take 12 ss then
       (if ss ! 12 = 10 \<or> (ss ! 12 = 192 \<and> ss ! 13 = 168) \<or> (ss ! 12 = 172 \<and> 16 \<le> ss ! 13 \<and> ss ! 13 \<le> 31) then False
        else if ss ! 12 = 169 \<and> ss ! 13 = 254 then False
        else if ss ! 12 = 127 \<or> ss ! 12 = 0 then False
        else True)
     else
       (if take 8 ss = [0xFE, 0x80, 0, 0, 0, 0, 0, 0] then False
        else if ss ! 0 AND 0xFE = 0xFC then False
        else if ss ! 0 = 0x20 \<and> ss ! 1 = 0x01 \<and> ss ! 2 = 0x00 \<and> ss ! 3 AND 0xF0 = 0x10 then False
        else if take 16 ss = [0, 0, 0, 0, 0, 0, 0, 0, 0, 0, 0, 0, 0, 0, 0, 1] then False
        else True))"

text \<open>The test of \<^verbatim>\<open>util.h\<close>; \<open>is_loopback\<close> and \<open>is_unspecified\<close> are the predicates of \<^verbatim>\<open>boost::asio\<close>, and the
  number of a version 4 address has its first byte on top.\<close>

definition v4_ulong :: "bytes \<Rightarrow> uint64" where
  "v4_ulong b = le_word (rev b)"

definition IsRoutable :: "(ip_address \<Rightarrow> bool) \<Rightarrow> (ip_address \<Rightarrow> bool) \<Rightarrow> ip_address \<Rightarrow> bool" where
  "IsRoutable is_loopback is_unspecified address =
    (if is_loopback address \<or> is_unspecified address then False
     else case address of
       V4 bs \<Rightarrow>
         let u = v4_ulong bs in
         if u AND 0xFF000000 = 0x0A000000 \<or> u AND 0xFFFF0000 = 0xC0A80000 \<or> (u \<ge> 0xAC100000 \<and> u < 0xAC200000) then False
         else if u AND 0xFFFF0000 = 0xA9FE0000 then False
         else True
     | V6 b \<Rightarrow>
         if b ! 0 = 0xFE \<and> b ! 1 = 0x80 \<and> b ! 2 = 0 \<and> b ! 3 = 0 \<and> b ! 4 = 0 \<and> b ! 5 = 0 \<and> b ! 6 = 0 \<and> b ! 7 = 0
         then False
         else if b ! 0 AND 0xFE = 0xFC then False
         else if b ! 0 = 0x20 \<and> b ! 1 = 0x01 \<and> b ! 2 = 0x00 \<and> b ! 3 AND 0xF0 = 0x10 then False
         else True)"

section \<open>Lemmas\<close>

lemma and_mask_24: "w AND 0xFFFFFF = take_bit 24 (w :: uint32)"
  by (simp add: take_bit_eq_mask mask_eq_exp_minus_1)

lemma crc24q_24: "take_bit 24 (crc24q data) = crc24q data"
  by (simp add: crc24q_def and_mask_24)

lemma le_word_append: "le_word (xs @ ys) = le_word xs OR push_bit (8 * length xs) (le_word ys)"
  by (induction xs) (simp_all add: push_bit_or or.assoc add.commute)

lemma le_word_masked: "(le_word (le_bytes 3 c @ [junk]) :: uint32) AND 0xFFFFFF = take_bit 24 c"
proof -
  have "take_bit 24 (push_bit 24 (le_word [junk]) :: uint32) = 0"
    by (rule bit_word_eqI) (simp add: bit_simps)
  then show ?thesis
    using le_word_le_bytes_take [of 3 c] by (simp add: and_mask_24 le_word_append)
qed

lemma length_header_fields [simp]: "length (header_fields h) = 13"
  by (simp add: header_fields_def)

lemma take_le_bytes: "take k (le_bytes n w) = le_bytes (min k n) w"
  by (rule nth_equalityI) (simp_all add: nth_le_bytes)

lemma save_msgheader_eq: "save_msgheader h = header_fields h @ le_bytes 3 (hdr_nHeaderChecksum h)"
  by (simp add: save_msgheader_def MESSAGE_HEADER_SIZE_def take_le_bytes)

lemma load_save_msgheader:
  assumes "take_bit 24 (hdr_nHeaderChecksum h) = hdr_nHeaderChecksum h"
  shows "load_msgheader junk (save_msgheader h @ s) = Inr (h, s)"
proof -
  let ?buf = "save_msgheader h @ [junk]"
  have "load_msgheader junk (save_msgheader h @ s) = Inr
     (\<lparr>hdr_nMagic = le_word (take 4 ?buf), hdr_nType = ?buf ! 4, hdr_nPayloadSize = le_word (take 4 (drop 5 ?buf)),
      hdr_nPayloadChecksum = le_word (take 4 (drop 9 ?buf)),
      hdr_nHeaderChecksum = le_word (take 4 (drop 13 ?buf)) AND 0xFFFFFF\<rparr>, s)"
    by (simp add: load_msgheader_def codec_simps MESSAGE_HEADER_SIZE_def save_msgheader_eq Let_def del: append_assoc)
  moreover have "drop 13 ?buf = le_bytes 3 (hdr_nHeaderChecksum h) @ [junk]"
    by (simp add: save_msgheader_eq)
  ultimately show ?thesis
    using assms by (simp add: save_msgheader_eq header_fields_def le_word_le_bytes nth_append le_word_masked)
qed

interpretation msgheader: codec save_msgheader "load_msgheader junk" size_msgheader
  "\<lambda>h. take_bit 24 (hdr_nHeaderChecksum h) = hdr_nHeaderChecksum h"
  by standard (erule load_save_msgheader, simp add: save_msgheader_eq size_msgheader_def MESSAGE_HEADER_SIZE_def)

interpretation msgrsp: codec save_msgrsp load_msgrsp size_msgrsp "\<lambda>_. True"
  by standard
    (simp_all add: save_msgrsp_def load_msgrsp_def size_msgrsp_def codec_simps stream_load_save stream_size_save)

interpretation inv: codec save_inv load_inv size_inv "\<lambda>_. True"
  by standard (simp_all add: save_inv_def load_inv_def size_inv_def codec_simps stream_load_save stream_size_save)

lemma bit_small_nat: "bit m n \<Longrightarrow> m < 2 ^ k \<Longrightarrow> n < k" for m n :: nat
  by (metis bit_take_bit_iff take_bit_nat_eq_self)

lemma message_type:
  assumes "c < 4" "m < 64"
  shows "drop_bit 6 (GetMessageType (of_nat c) (of_nat m)) = of_nat c"
    "GetMessageType (of_nat c) (of_nat m) AND 0x3F = of_nat m"
proof -
  have small: "c < 2 ^ 2" "m < 2 ^ 6" using assms by simp_all
  have mask: "w AND 0x3F = take_bit 6 w" for w :: "'a::len word"
    by (simp add: take_bit_eq_mask mask_eq_exp_minus_1)
  show "drop_bit 6 (GetMessageType (of_nat c) (of_nat m)) = of_nat c"
    by (rule bit_word_eqI) (auto simp add: GetMessageType_def mask bit_simps dest: bit_small_nat [OF _ small(1)] bit_small_nat [OF _ small(2)])
  show "GetMessageType (of_nat c) (of_nat m) AND 0x3F = of_nat m"
    unfolding mask by (rule bit_word_eqI) (auto simp add: GetMessageType_def mask bit_simps dest: bit_small_nat [OF _ small(1)] bit_small_nat [OF _ small(2)])
qed

section \<open>Endpoints and routability\<close>

definition ip_wf :: "ip_address \<Rightarrow> bool" where
  "ip_wf a = (case a of V4 b \<Rightarrow> length b = 4 | V6 b \<Rightarrow> length b = 16 \<and> take 12 b \<noteq> take 12 epipv4)"

lemma port_bytes: "push_bit 8 (ucast (ucast (drop_bit 8 p) :: uint8)) + ucast (ucast (p AND 0xFF) :: uint8) = (p :: uint16)"
proof -
  have m: "p AND 0xFF = take_bit 8 p" by (simp add: take_bit_eq_mask mask_eq_exp_minus_1)
  have "push_bit 8 (ucast (ucast (drop_bit 8 p) :: uint8)) = push_bit 8 (drop_bit 8 p)"
    by (rule bit_word_eqI) (auto simp: bit_simps)
  moreover have "ucast (ucast (p AND 0xFF) :: uint8) = take_bit 8 p"
    unfolding m by (rule bit_word_eqI) (auto simp: bit_simps)
  ultimately show ?thesis
    by (simp only: bits_ident)
qed

lemma CEndpoint_bytes:
  assumes "ip_wf (ep_address ep)"
  shows "length (CEndpoint_tcp ep) = 18" "take 12 (CEndpoint_tcp ep) = take 12 epipv4 \<longleftrightarrow> (\<exists>b. ep_address ep = V4 b)"
  using assms by (auto simp: CEndpoint_tcp_def ip_wf_def epipv4_def split: ip_address.splits)

lemma GetEndpoint_CEndpoint: "ip_wf (ep_address ep) \<Longrightarrow> GetEndpoint (CEndpoint_tcp ep) = ep"
  using CEndpoint_bytes [of ep] port_bytes [of "ep_port ep"]
  by (cases ep; cases "ep_address ep")
    (auto simp: GetEndpoint_def CEndpoint_tcp_def ip_wf_def epipv4_def nth_append)

text \<open>The number of a version 4 address in terms of its bytes.\<close>

lemma uint_byte: "uint (x :: uint8) < 256" "0 \<le> uint x"
  using unsigned_less [of x, where 'a = int] by simp_all

lemma uint_shift_in:
  assumes "uint y < 2 ^ 32"
  shows "uint (ucast x OR push_bit 8 y :: uint64) = uint (x :: uint8) + 256 * uint y"
proof -
  have "(ucast x OR push_bit 8 y :: uint64) = ucast x + push_bit 8 y"
    by (rule disjunctive_add [symmetric]) (auto simp: bit_simps dest: bit_imp_le_length)
  moreover have "uint (push_bit 8 y) = 256 * uint y"
    using assms by (simp add: push_bit_eq_mult uint_word_ariths)
  ultimately show ?thesis
    using assms uint_byte [of x] by (simp add: uint_word_ariths unsigned_ucast_eq take_bit_int_eq_self)
qed

lemma uint_v4_ulong:
  "uint (v4_ulong [a, b, c, d]) = 16777216 * uint a + 65536 * uint b + 256 * uint c + uint d"
proof -
  note b = uint_byte [of a] uint_byte [of b] uint_byte [of c]
  have 1: "uint (ucast a :: uint64) = uint a"
    using b by (simp add: unsigned_ucast_eq take_bit_int_eq_self)
  have 2: "uint (ucast b OR push_bit 8 (ucast a) :: uint64) = uint b + 256 * uint a"
    using b 1 by (subst uint_shift_in) simp_all
  have 3: "uint (ucast c OR push_bit 8 (ucast b OR push_bit 8 (ucast a)) :: uint64) = uint c + 256 * (uint b + 256 * uint a)"
    using b 2 by (subst uint_shift_in) simp_all
  have "uint (ucast d OR push_bit 8 (ucast c OR push_bit 8 (ucast b OR push_bit 8 (ucast a))) :: uint64)
      = uint d + 256 * (uint c + 256 * (uint b + 256 * uint a))"
    using b 3 by (subst uint_shift_in) simp_all
  then show ?thesis
    by (simp add: v4_ulong_def)
qed

lemma and_high_byte: "u AND 0xFF000000 = push_bit 24 (take_bit 8 (drop_bit 24 u))" for u :: uint64
proof -
  have "(0xFF000000 :: uint64) = push_bit 24 (mask 8)" by (simp add: mask_eq_exp_minus_1)
  then show ?thesis
    by (intro bit_word_eqI) (auto simp only: bit_simps, auto)
qed

lemma and_high_word: "u AND 0xFFFF0000 = push_bit 16 (take_bit 16 (drop_bit 16 u))" for u :: uint64
proof -
  have "(0xFFFF0000 :: uint64) = push_bit 16 (mask 16)" by (simp add: mask_eq_exp_minus_1)
  then show ?thesis
    by (intro bit_word_eqI) (auto simp only: bit_simps, auto)
qed

lemma div_mod_split: "0 \<le> y \<Longrightarrow> y < n \<Longrightarrow> n * x + y = m \<longleftrightarrow> x = m div n \<and> y = m mod n" for x y m n :: int
  by (auto simp: div_mult_mod_eq mult.commute)

lemma push_bit_eq:
  assumes "n + m \<le> 64" "uint x < 2 ^ m" "uint y < 2 ^ m"
  shows "push_bit n (take_bit m x) = push_bit n (y :: uint64) \<longleftrightarrow> uint x = uint y"
proof -
  have "take_bit m x = x" "take_bit m y = y"
    using assms(2,3) by (simp_all add: word_uint_eq_iff unsigned_take_bit_eq take_bit_int_eq_self)
  then have "drop_bit n (push_bit n x) = x" "drop_bit n (push_bit n y) = y"
    using assms(1) by (auto intro!: bit_word_eqI simp: bit_simps) (metis bit_take_bit_iff add_leD1 add.commute nat_add_left_cancel_less less_le_trans)+
  then show ?thesis
    using \<open>take_bit m x = x\<close> by (metis word_uint_eq_iff)
qed

lemma v4_ulong_halves:
  "uint (v4_ulong [a, b, c, d]) = 65536 * (256 * uint a + uint b) + (256 * uint c + uint d)"
  "0 \<le> 256 * uint c + uint d" "256 * uint c + uint d < 65536" for a b c d :: uint8
  using uint_byte [of c] uint_byte [of d] by (simp_all add: uint_v4_ulong)

lemma take_bit_uint: "take_bit 64 (uint u) = uint u" for u :: uint64
  using unsigned_less [of u, where 'a = int] by (simp add: take_bit_int_eq_self)

lemma drop_v4_ulong:
  shows "uint (drop_bit 16 (v4_ulong [a, b, c, d])) = 256 * uint a + uint b"
    and "uint (drop_bit 24 (v4_ulong [a, b, c, d])) = uint a"
proof -
  have "uint (v4_ulong [a, b, c, d]) div 65536 = 256 * uint a + uint b"
    by (rule int_div_pos_eq [OF v4_ulong_halves])
  then show 16: "uint (drop_bit 16 (v4_ulong [a, b, c, d])) = 256 * uint a + uint b"
    by (simp only: unsigned_drop_bit_eq) (simp add: take_bit_uint drop_bit_eq_div)
  have "uint (drop_bit 24 (v4_ulong [a, b, c, d])) = uint (drop_bit 16 (v4_ulong [a, b, c, d])) div 256"
    by (simp only: unsigned_drop_bit_eq) (simp add: take_bit_uint drop_bit_eq_div zdiv_zmult2_eq [symmetric])
  then show "uint (drop_bit 24 (v4_ulong [a, b, c, d])) = uint a"
    unfolding 16 using uint_byte [of b] by (simp add: int_div_pos_eq [OF refl])
qed

lemma v4_private:
  fixes a b c d :: uint8
  defines "u \<equiv> v4_ulong [a, b, c, d]"
  shows "u AND 0xFF000000 = 0x0A000000 \<longleftrightarrow> a = 10"
    and "u AND 0xFFFF0000 = 0xC0A80000 \<longleftrightarrow> a = 192 \<and> b = 168"
    and "u AND 0xFFFF0000 = 0xA9FE0000 \<longleftrightarrow> a = 169 \<and> b = 254"
proof -
  note b = uint_byte [of a] uint_byte [of b]
  have lt: "uint (drop_bit 16 u) < 2 ^ 16" "uint (drop_bit 24 u) < 2 ^ 8"
    using b unfolding u_def drop_v4_ulong by simp_all
  have "push_bit 24 (take_bit 8 (drop_bit 24 u)) = push_bit 24 10 \<longleftrightarrow> uint a = 10"
    using lt by (subst push_bit_eq) (simp_all add: u_def drop_v4_ulong)
  then show "u AND 0xFF000000 = 0x0A000000 \<longleftrightarrow> a = 10"
    unfolding and_high_byte by (simp add: word_uint_eq_iff)
  have halves: "push_bit 16 (take_bit 16 (drop_bit 16 u)) = push_bit 16 w \<longleftrightarrow> 256 * uint a + uint b = uint w"
    if "uint w < 2 ^ 16" for w :: uint64
    using lt that by (subst push_bit_eq) (simp_all add: u_def drop_v4_ulong)
  show "u AND 0xFFFF0000 = 0xC0A80000 \<longleftrightarrow> a = 192 \<and> b = 168"
    using halves [of "0xC0A8"] b unfolding and_high_word by (simp add: word_uint_eq_iff div_mod_split)
  show "u AND 0xFFFF0000 = 0xA9FE0000 \<longleftrightarrow> a = 169 \<and> b = 254"
    using halves [of "0xA9FE"] b unfolding and_high_word by (simp add: word_uint_eq_iff div_mod_split)
qed

lemma v4_private_172:
  "0xAC100000 \<le> v4_ulong [a, b, c, d] \<and> v4_ulong [a, b, c, d] < 0xAC200000 \<longleftrightarrow> a = 172 \<and> 16 \<le> b \<and> b \<le> 31"
proof -
  let ?u = "v4_ulong [a, b, c, d]"
  have m: "0 \<le> uint b mod 16" "uint b mod 16 < 16" by simp_all
  have "0xAC100000 \<le> ?u \<and> ?u < 0xAC200000 \<longleftrightarrow> uint ?u div 1048576 = 0xAC1"
    by (simp add: word_le_def word_less_def) linarith
  also have "uint ?u div 1048576 = 16 * uint a + uint b div 16"
  proof (rule int_div_pos_eq)
    have "65536 * uint b = 65536 * (16 * (uint b div 16) + uint b mod 16)" by simp
    then show "uint ?u = 1048576 * (16 * uint a + uint b div 16) + (65536 * (uint b mod 16) + (256 * uint c + uint d))"
      unfolding v4_ulong_halves(1) by (simp only: distrib_left mult.assoc [symmetric])
    show "0 \<le> 65536 * (uint b mod 16) + (256 * uint c + uint d)"
      "65536 * (uint b mod 16) + (256 * uint c + uint d) < 1048576"
      using v4_ulong_halves(2,3) [of c d] m by linarith+
  qed
  also have "16 * uint a + uint b div 16 = 0xAC1 \<longleftrightarrow> uint a = 172 \<and> uint b div 16 = 1"
    using uint_byte [of b] by (subst div_mod_split) (simp_all add: pos_imp_zdiv_nonneg_iff)
  also have "\<dots> \<longleftrightarrow> a = 172 \<and> 16 \<le> b \<and> b \<le> 31"
    by (simp add: word_uint_eq_iff word_le_def) linarith
  finally show ?thesis .
qed

text \<open>What \<^verbatim>\<open>boost::asio\<close> documents: loopback is \<open>127/8\<close> and \<open>::1\<close>, unspecified is \<open>0.0.0.0\<close> and \<open>::\<close>.\<close>

definition asio_loopback :: "ip_address \<Rightarrow> bool" where
  "asio_loopback a = (case a of V4 b \<Rightarrow> b ! 0 = 127 | V6 b \<Rightarrow> b = [0, 0, 0, 0, 0, 0, 0, 0, 0, 0, 0, 0, 0, 0, 0, 1])"

definition asio_unspecified :: "ip_address \<Rightarrow> bool" where
  "asio_unspecified a = (case a of V4 b \<Rightarrow> b = [0, 0, 0, 0] | V6 b \<Rightarrow> b = [0, 0, 0, 0, 0, 0, 0, 0, 0, 0, 0, 0, 0, 0, 0, 0])"

lemma routable_v4:
  assumes "length b = 4"
  shows "ep_IsRoutable (CEndpoint_tcp \<lparr>ep_address = V4 b, ep_port = p\<rparr>)
    \<longleftrightarrow> IsRoutable asio_loopback asio_unspecified (V4 b) \<and> b ! 0 \<noteq> 0"
proof -
  obtain b0 b1 b2 b3 where b: "b = [b0, b1, b2, b3]"
    using assms by (auto simp: eval_nat_numeral length_Suc_conv)
  show ?thesis
    unfolding b IsRoutable_def Let_def ip_address.case v4_private v4_private_172
    by (auto simp: ep_IsRoutable_def CEndpoint_tcp_def epipv4_def asio_loopback_def asio_unspecified_def)
qed

lemma take_8_nth:
  "length b = 16 \<Longrightarrow> take 8 b = [w0, w1, w2, w3, w4, w5, w6, w7] \<longleftrightarrow>
    b ! 0 = w0 \<and> b ! 1 = w1 \<and> b ! 2 = w2 \<and> b ! 3 = w3 \<and> b ! 4 = w4 \<and> b ! 5 = w5 \<and> b ! 6 = w6 \<and> b ! 7 = w7"
  by (simp add: list_eq_iff_nth_eq) (auto simp: eval_nat_numeral All_less_Suc2)

lemma routable_v6:
  assumes "length b = 16" "take 12 b \<noteq> take 12 epipv4"
  shows "ep_IsRoutable (CEndpoint_tcp \<lparr>ep_address = V6 b, ep_port = p\<rparr>)
    \<longleftrightarrow> IsRoutable asio_loopback asio_unspecified (V6 b) \<or> b = [0, 0, 0, 0, 0, 0, 0, 0, 0, 0, 0, 0, 0, 0, 0, 0]"
proof -
  have "b = [0, 0, 0, 0, 0, 0, 0, 0, 0, 0, 0, 0, 0, 0, 0, 0] \<Longrightarrow> ep_IsRoutable (CEndpoint_tcp \<lparr>ep_address = V6 b, ep_port = p\<rparr>)"
    by (simp add: ep_IsRoutable_def CEndpoint_tcp_def epipv4_def)
  moreover have "(b @ q) ! i = b ! i" if "i < 16" for i q
    using that assms(1) by (simp add: nth_append)
  ultimately show ?thesis
    using assms(1) assms(2) [symmetric]
    by (auto simp: ep_IsRoutable_def IsRoutable_def CEndpoint_tcp_def asio_loopback_def asio_unspecified_def
        take_8_nth split: if_splits)
qed

section \<open>Properties\<close>

lemma le_bytes_4: "le_bytes 4 w = [ucast w, ucast (drop_bit 8 w), ucast (drop_bit 16 w), ucast (drop_bit 24 w)]"
  by (simp add: eval_nat_numeral)

text \<open>C21: A sealed message header is received as it was sent, whatever byte the receive buffer holds behind
  it, and still verifies. A received header that carries the checksum of a verified one but whose
  13 field bytes were changed inside a window of at most three bytes does not verify. Channel and
  command are read back from the message type.\<close>

theorem message_header_integrity:
  assumes "header_Verify h"
    and "header_fields h = p @ a @ s" "header_fields h' = p @ b @ s" "length a = length b" "length b \<le> 3" "a \<noteq> b"
    and "hdr_nHeaderChecksum h' = hdr_nHeaderChecksum h" "c < 4" "m < 64"
  shows "load_msgheader junk (save_msgheader h @ t) = Inr (h, t) \<and> size_msgheader h = length (save_msgheader h)
    \<and> \<not> header_Verify h'
    \<and> GetChannel (h\<lparr>hdr_nType := GetMessageType (of_nat c) (of_nat m)\<rparr>) = c
    \<and> GetCommand (h\<lparr>hdr_nType := GetMessageType (of_nat c) (of_nat m)\<rparr>) = m"
proof -
  have "take_bit 24 (hdr_nHeaderChecksum h) = hdr_nHeaderChecksum h"
    using assms(1) by (simp add: header_Verify_def GetHeaderChecksum_def crc24q_24)
  moreover have "\<not> header_Verify h'"
    using crc24q_window [OF assms(4,5), of p s] assms(1-3,6,7)
    by (auto simp: header_Verify_def GetHeaderChecksum_def)
  ultimately show ?thesis
    using message_type [OF assms(8,9)] assms(8,9)
    by (simp add: msgheader.load_save msgheader.size_save GetChannel_def GetCommand_def unat_of_nat)
qed

theorem message_header_integrity_witness:
  "\<not> header_Verify \<lparr>hdr_nMagic = 0, hdr_nType = 0x42, hdr_nPayloadSize = 9, hdr_nPayloadChecksum = 0,
      hdr_nHeaderChecksum = crc24q (header_fields \<lparr>hdr_nMagic = 0, hdr_nType = 0x42, hdr_nPayloadSize = 8,
        hdr_nPayloadChecksum = 0, hdr_nHeaderChecksum = 0\<rparr>)\<rparr>"
  using message_header_integrity [of "\<lparr>hdr_nMagic = 0, hdr_nType = 0x42, hdr_nPayloadSize = 8, hdr_nPayloadChecksum = 0,
      hdr_nHeaderChecksum = crc24q (header_fields \<lparr>hdr_nMagic = 0, hdr_nType = 0x42, hdr_nPayloadSize = 8,
        hdr_nPayloadChecksum = 0, hdr_nHeaderChecksum = 0\<rparr>)\<rparr>" "[0, 0, 0, 0, 0x42]" "[8]" "[0, 0, 0, 0, 0, 0, 0]"
      "\<lparr>hdr_nMagic = 0, hdr_nType = 0x42, hdr_nPayloadSize = 9, hdr_nPayloadChecksum = 0,
      hdr_nHeaderChecksum = crc24q (header_fields \<lparr>hdr_nMagic = 0, hdr_nType = 0x42, hdr_nPayloadSize = 8,
        hdr_nPayloadChecksum = 0, hdr_nHeaderChecksum = 0\<rparr>)\<rparr>" "[9]" 1 2 0 "[]"]
  by (simp add: header_Verify_def GetHeaderChecksum_def header_fields_def MESSAGE_PAYLOAD_MAX_SIZE_def le_bytes_4)

text \<open>An endpoint of either family that is not a version 4 address in version 6 clothing survives the
  18-byte form.\<close>

theorem endpoint_roundtrip:
  assumes "ip_wf (ep_address ep)"
  shows "GetEndpoint (CEndpoint_tcp ep) = ep \<and> length (CEndpoint_tcp ep) = 18"
  using assms CEndpoint_bytes GetEndpoint_CEndpoint by simp

theorem endpoint_roundtrip_witness:
  "GetEndpoint (CEndpoint_tcp \<lparr>ep_address = V4 [192, 168, 0, 1], ep_port = 9901\<rparr>)
    = \<lparr>ep_address = V4 [192, 168, 0, 1], ep_port = 9901\<rparr>"
  using endpoint_roundtrip [of "\<lparr>ep_address = V4 [192, 168, 0, 1], ep_port = 9901\<rparr>"] by (simp add: ip_wf_def)



end
