(* ===== verification/Orphan.thy ===== *)
theory Orphan
  imports Protocol
begin

text \<open>
  The orphan pool \<^verbatim>\<open>COrphan\<close> of \<^verbatim>\<open>src/bigbang/schedule.h\<close> and \<^verbatim>\<open>schedule.cpp\<close>: a multimap from a missing
  predecessor to the hashes that wait for it. \<^verbatim>\<open>RemoveBranch\<close> collects, breadth first and in place,
  everything that depends on a hash; the lemmas show that it terminates, returns exactly the
  descendants, and never outgrows the reserved vector, so that the reference into the vector it
  holds across the insertions stays valid.
\<close>

type_synonym orphans = "(uint256 \<times> uint256) list"

definition orphan_GetSize :: "orphans \<Rightarrow> nat" where
  "orphan_GetSize m = length m"

definition orphan_AddNew :: "uint256 \<Rightarrow> uint256 \<Rightarrow> orphans \<Rightarrow> orphans" where
  "orphan_AddNew prev hash m = multimap_insert prev hash m"

fun orphan_Remove :: "uint256 \<Rightarrow> orphans \<Rightarrow> orphans" where
  "orphan_Remove hash [] = []"
| "orphan_Remove hash (it # m) =
    (if snd it = hash then orphan_Remove hash m else it # orphan_Remove hash m)"

definition orphan_GetNext :: "orphans \<Rightarrow> uint256 \<Rightarrow> uint256 list \<Rightarrow> uint256 list" where
  "orphan_GetNext m prev vNext = vNext @ multimap_range prev m"

fun GetNext_loop :: "uint256 list \<Rightarrow> uint256 list \<Rightarrow> uint256 list \<Rightarrow> uint256 list \<times> uint256 list" where
  "GetNext_loop [] vNext setHash = (vNext, setHash)"
| "GetNext_loop (h # hs) vNext setHash =
    (if h \<in> set setHash then GetNext_loop hs vNext setHash
     else GetNext_loop hs (vNext @ [h]) (set_insert h setHash))"

definition orphan_GetNext_set ::
    "orphans \<Rightarrow> uint256 \<Rightarrow> uint256 list \<Rightarrow> uint256 list \<Rightarrow> uint256 list \<times> uint256 list" where
  "orphan_GetNext_set m prev vNext setHash = GetNext_loop (multimap_range prev m) vNext setHash"

lemma GetNext_loop_spec:
  assumes "GetNext_loop hs v s = (v', s')" "set s = set v" "distinct v"
  shows "set v' = set v \<union> set hs \<and> set s' = set v' \<and> distinct v' \<and> length v' \<le> length v + length hs
    \<and> take (length v) v' = v"
  using assms
proof (induction hs v s rule: GetNext_loop.induct)
  case (2 h hs v s)
  show ?case
  proof (cases "h \<in> set s")
    case True
    then show ?thesis using 2 by auto
  next
    case False
    with 2(3-5) have "set v' = set (v @ [h]) \<union> set hs \<and> set s' = set v' \<and> distinct v'
        \<and> length v' \<le> length (v @ [h]) + length hs \<and> take (length (v @ [h])) v' = v @ [h]"
      by (intro 2(2)) auto
    moreover have "take (length v) v' = take (length v) (take (length (v @ [h])) v')"
      by (simp add: min_def)
    ultimately show ?thesis by auto
  qed
qed simp

lemma length_GetNext_loop: "length (fst (GetNext_loop hs v s)) \<le> length v + length hs"
  by (induction hs v s rule: GetNext_loop.induct) auto

lemma length_map_erase_range: "length (map_erase k m) + length (multimap_range k m) = length m"
  by (induction m) (auto simp: map_erase_def multimap_range_def)

function RemoveBranch_loop ::
    "orphans \<Rightarrow> uint256 list \<Rightarrow> uint256 list \<Rightarrow> nat \<Rightarrow> uint256 list \<times> orphans" where
  "RemoveBranch_loop m vBranch setBranch i =
    (if i < length vBranch
     then let hash = vBranch ! i;
              r = orphan_GetNext_set m hash vBranch setBranch
       in RemoveBranch_loop (map_erase hash m) (fst r) (snd r) (i + 1)
     else (vBranch, m))"
  by pat_completeness auto
termination
proof (relation "measure (\<lambda>(m, v, s, i). length m + (length v - i))", goal_cases)
  case (2 m v s i hash r)
  have "length (fst r) \<le> length v + length (multimap_range hash m)"
    using length_GetNext_loop [of "multimap_range hash m" v s] 2(3) by (simp add: orphan_GetNext_set_def)
  with 2(1) length_map_erase_range [of hash m] show ?case by simp
qed simp

declare RemoveBranch_loop.simps [simp del]

definition RemoveBranch :: "uint256 \<Rightarrow> orphans \<Rightarrow> uint256 list \<times> orphans" where
  "RemoveBranch root m =
    (let r = orphan_GetNext_set m root [] [] in RemoveBranch_loop (map_erase root m) (fst r) (snd r) 0)"

section \<open>Lemmas\<close>

lemma orphan_Remove_filter: "orphan_Remove hash m = filter (\<lambda>it. snd it \<noteq> hash) m"
  by (induction m) auto

text \<open>The descendants of a hash in the pool.\<close>

definition descendants :: "orphans \<Rightarrow> uint256 \<Rightarrow> uint256 set" where
  "descendants m root = {h. (root, h) \<in> (set m)\<^sup>+}"

definition branch_inv :: "orphans \<Rightarrow> uint256 \<Rightarrow> orphans \<Rightarrow> uint256 list \<Rightarrow> uint256 list \<Rightarrow> nat \<Rightarrow> bool" where
  "branch_inv m0 root m v s i \<longleftrightarrow>
    i \<le> length v \<and> distinct v \<and> set s = set v \<and> set v \<subseteq> descendants m0 root
    \<and> m = filter (\<lambda>p. fst p \<notin> insert root (set (take i v))) m0
    \<and> (\<forall>a \<in> insert root (set (take i v)). \<forall>b. (a, b) \<in> set m0 \<longrightarrow> b \<in> set v)"

lemma closed_descendants:
  assumes "\<forall>a \<in> insert root S. \<forall>b. (a, b) \<in> set m \<longrightarrow> b \<in> S" "S \<subseteq> descendants m root"
  shows "S = descendants m root"
proof -
  have "(root, h) \<in> (set m)\<^sup>+ \<Longrightarrow> h \<in> S" for h
    by (induction rule: trancl_induct) (use assms(1) in auto)
  with assms(2) show ?thesis by (auto simp: descendants_def)
qed

lemma branch_inv_step:
  assumes inv: "branch_inv m0 root m v s i" and i: "i < length v"
    and r: "orphan_GetNext_set m (v ! i) v s = (v', s')"
  shows "branch_inv m0 root (map_erase (v ! i) m) v' s' (i + 1)"
proof -
  let ?h = "v ! i"
  have spec: "set v' = set v \<union> set (multimap_range ?h m)" "set s' = set v'" "distinct v'" "take (length v) v' = v"
    "length v \<le> length v'"
    using GetNext_loop_spec [of "multimap_range ?h m" v s v' s'] r inv
    by (auto simp: orphan_GetNext_set_def branch_inv_def dest: arg_cong [where f = length])
  have "take (i + 1) v' = take (i + 1) (take (length v) v')"
    using i by (simp add: min_def)
  then have take: "take (i + 1) v' = take i v @ [?h]"
    using spec(4) i by (simp add: take_Suc_conv_app_nth)
  have h: "?h \<in> descendants m0 root" "\<And>b. (?h, b) \<in> set m \<Longrightarrow> (?h, b) \<in> set m0"
    using inv i by (auto simp: branch_inv_def)
  then have "set (multimap_range ?h m) \<subseteq> descendants m0 root"
    by (auto simp: set_multimap_range descendants_def intro: trancl_into_trancl)
  moreover have "(?h, b) \<in> set m0 \<Longrightarrow> b \<in> set v'" for b
    using inv by (cases "?h \<in> insert root (set (take i v))")
      (auto simp: branch_inv_def spec(1) set_multimap_range)
  ultimately show ?thesis
    using inv i spec unfolding branch_inv_def take
    by (auto simp: map_erase_def intro!: filter_cong)
qed

lemma branch_inv_loop:
  "branch_inv m0 root m v s i \<Longrightarrow> RemoveBranch_loop m v s i = (v', m') \<Longrightarrow>
    set v' = descendants m0 root \<and> distinct v' \<and> m' = filter (\<lambda>p. fst p \<notin> insert root (descendants m0 root)) m0"
proof (induction m v s i rule: RemoveBranch_loop.induct)
  case (1 m v s i)
  show ?case
  proof (cases "i < length v")
    case True
    let ?r = "orphan_GetNext_set m (v ! i) v s"
    have "branch_inv m0 root (map_erase (v ! i) m) (fst ?r) (snd ?r) (i + 1)"
      by (rule branch_inv_step [OF 1(2) True]) simp
    from 1(1) [OF True refl refl this] 1(3) True show ?thesis
      by (subst (asm) RemoveBranch_loop.simps) (simp add: Let_def)
  next
    case False
    with 1(2) have *: "distinct v" "set v = descendants m0 root" "m = filter (\<lambda>p. fst p \<notin> insert root (set v)) m0"
      by (auto simp: branch_inv_def intro!: closed_descendants)
    from False 1(3) have "v' = v" "m' = m"
      by (subst (asm) RemoveBranch_loop.simps, simp)+
    with * show ?thesis by simp
  qed
qed

lemma RemoveBranch_spec:
  assumes "RemoveBranch root m = (v, m')"
  shows "set v = descendants m root" "distinct v" "m' = filter (\<lambda>p. fst p \<notin> insert root (descendants m root)) m"
proof -
  obtain v0 s0 where r: "orphan_GetNext_set m root [] [] = (v0, s0)" by fastforce
  have "branch_inv m root (map_erase root m) v0 s0 0"
    using GetNext_loop_spec [OF r [unfolded orphan_GetNext_set_def]]
    by (auto simp: branch_inv_def map_erase_def set_multimap_range descendants_def)
  from branch_inv_loop [OF this] assms r
  show "set v = descendants m root" "distinct v" "m' = filter (\<lambda>p. fst p \<notin> insert root (descendants m root)) m"
    by (simp_all add: RemoveBranch_def)
qed

lemma descendants_values: "descendants m root \<subseteq> snd ` set m"
proof
  fix h
  assume "h \<in> descendants m root"
  then have "(root, h) \<in> (set m)\<^sup>+" by (simp add: descendants_def)
  then obtain a where "(a, h) \<in> set m" by (meson tranclE)
  then show "h \<in> snd ` set m" by force
qed

section \<open>Properties\<close>

text \<open>C30: \<^verbatim>\<open>RemoveBranch\<close> returns, without repetition, exactly the hashes that depend on the root directly or
  through other orphans, and leaves exactly the entries that wait for neither the root nor one of
  these. The vector never holds more elements than the pool had entries, which is what
  \<^verbatim>\<open>reserve\<close> sets aside: the element reference held across \<^verbatim>\<open>push_back\<close> is never invalidated.\<close>

theorem remove_branch_descendants:
  assumes "RemoveBranch root m = (vBranch, m')"
  shows "set vBranch = descendants m root \<and> distinct vBranch \<and> length vBranch \<le> orphan_GetSize m
    \<and> (\<forall>p. p \<in> set m' \<longleftrightarrow> p \<in> set m \<and> fst p \<noteq> root \<and> fst p \<notin> set vBranch)"
proof -
  note spec = RemoveBranch_spec [OF assms]
  have "length vBranch = card (set vBranch)"
    using spec(2) by (simp add: distinct_card)
  also have "\<dots> \<le> card (set (map snd m))"
    using spec(1) descendants_values [of m root] by (intro card_mono) auto
  also have "\<dots> \<le> orphan_GetSize m"
    using card_length [of "map snd m"] by (simp add: orphan_GetSize_def)
  finally show ?thesis
    using spec by auto
qed

theorem remove_branch_descendants_witness:
  "set (fst (RemoveBranch 1 [(1, 2), (1, 3), (2, 4), (5, 6)])) = descendants [(1, 2), (1, 3), (2, 4), (5, 6)] 1
    \<and> snd (RemoveBranch 1 [(1, 2), (1, 3), (2, 4), (5, 6)]) = [(5, 6)]"
proof -
  have r: "RemoveBranch 1 [(1, 2), (1, 3), (2, 4), (5, 6)] = ([2, 3, 4], [(5, 6)])"
    by (simp add: RemoveBranch_def RemoveBranch_loop.simps orphan_GetNext_set_def multimap_range_def map_erase_def
        insort_insert_key_def)
  show ?thesis
    using remove_branch_descendants [OF r] by (simp add: r)
qed

end
