(* ===== verification/Schedule.thy ===== *)
theory Schedule
  imports Orphan
begin

text \<open>
  The inventory scheduler of a fork, \<^verbatim>\<open>src/bigbang/schedule.h\<close> and \<^verbatim>\<open>schedule.cpp\<close>: which peer has
  announced which block or transaction, which peer each of them is requested from, what has been
  received, which blocks wait for a predecessor or a reference block, and the cache of
  proof-of-work blocks by height. Every member function of \<^verbatim>\<open>CInvPeer\<close> and \<^verbatim>\<open>CSchedule\<close> is a definition
  that takes the state and returns it updated, together with the results it returns or assigns to
  its reference parameters. The clock (\<^verbatim>\<open>GetTime\<close>) is the argument \<open>nTime\<close>.
\<close>

unbundle bit_operations_syntax

section \<open>Peers\<close>

record CInvPeerState =
  listKnown :: "uint256 list"
  setAssigned :: "uint256 list"
  nNextGetBlocksTime :: int
  mapRepeat :: "(uint32, uint256 list) stdmap"

definition CInvPeerState_null :: CInvPeerState where
  "CInvPeerState_null = \<lparr>listKnown = [], setAssigned = [], nNextGetBlocksTime = 0, mapRepeat = []\<rparr>"

text \<open>The array \<^verbatim>\<open>invKnown\<close> has the indices 0 and 1, of transactions and of blocks.\<close>

record CInvPeer =
  invKnown :: "uint32 \<Rightarrow> CInvPeerState"
  hashGetBlockLocatorDepth :: uint256
  nInvHeight :: int
  hashInvBlock :: uint256

definition CInvPeer_null :: CInvPeer where
  "CInvPeer_null =
    \<lparr>invKnown = (\<lambda>_. CInvPeerState_null), hashGetBlockLocatorDepth = 0, nInvHeight = 0, hashInvBlock = 0\<rparr>"

definition GetKnownList :: "CInvPeer \<Rightarrow> uint32 \<Rightarrow> uint256 list" where
  "GetKnownList peer type = listKnown (invKnown peer (type - MSG_TX))"

definition GetAssigned :: "CInvPeer \<Rightarrow> uint32 \<Rightarrow> uint256 list" where
  "GetAssigned peer type = setAssigned (invKnown peer (type - MSG_TX))"

definition upd_known :: "uint32 \<Rightarrow> (CInvPeerState \<Rightarrow> CInvPeerState) \<Rightarrow> CInvPeer \<Rightarrow> CInvPeer" where
  "upd_known type f peer = peer\<lparr>invKnown := (invKnown peer)(type - MSG_TX := f (invKnown peer (type - MSG_TX)))\<rparr>"

definition peer_Empty :: "CInvPeer \<Rightarrow> uint32 \<Rightarrow> bool" where
  "peer_Empty peer type \<longleftrightarrow> GetKnownList peer type = []"

definition peer_GetCount :: "CInvPeer \<Rightarrow> uint32 \<Rightarrow> nat" where
  "peer_GetCount peer type = length (GetKnownList peer type)"

definition GetKnownInv :: "CInvPeer \<Rightarrow> CInv list" where
  "GetKnownInv peer =
    map (CInv MSG_BLOCK) (listKnown (invKnown peer 1)) @ map (CInv MSG_TX) (listKnown (invKnown peer 0))"

definition peer_AddNewInv :: "CInv \<Rightarrow> CInvPeer \<Rightarrow> CInvPeer" where
  "peer_AddNewInv iv = upd_known (inv_nType iv) (\<lambda>k. k\<lparr>listKnown := filter (\<lambda>h. h \<noteq> inv_nHash iv) (listKnown k) @ [inv_nHash iv]\<rparr>)"

definition erase_repeat :: "uint256 \<Rightarrow> CInvPeerState \<Rightarrow> CInvPeerState" where
  "erase_repeat hash k =
    (let height = GetBlockHeightByHash hash in
     case map_of (mapRepeat k) height of
       None \<Rightarrow> k
     | Some s \<Rightarrow>
         let s' = set_erase hash s
         in k\<lparr>mapRepeat := (if s' = [] then map_erase height (mapRepeat k) else map_set height s' (mapRepeat k))\<rparr>)"

definition peer_RemoveInv :: "CInv \<Rightarrow> CInvPeer \<Rightarrow> CInvPeer" where
  "peer_RemoveInv iv peer =
    (let peer1 = upd_known (inv_nType iv) (\<lambda>k. k\<lparr>listKnown := filter (\<lambda>h. h \<noteq> inv_nHash iv) (listKnown k),
                   setAssigned := set_erase (inv_nHash iv) (setAssigned k)\<rparr>) peer
     in if inv_nType iv = MSG_BLOCK then upd_known MSG_BLOCK (erase_repeat (inv_nHash iv)) peer1 else peer1)"

definition KnownInvExists :: "CInvPeer \<Rightarrow> CInv \<Rightarrow> bool" where
  "KnownInvExists peer iv \<longleftrightarrow> inv_nHash iv \<in> set (GetKnownList peer (inv_nType iv))"

definition peer_Assign :: "CInv \<Rightarrow> CInvPeer \<Rightarrow> CInvPeer" where
  "peer_Assign iv = upd_known (inv_nType iv) (\<lambda>k. k\<lparr>setAssigned := set_insert (inv_nHash iv) (setAssigned k)\<rparr>)"

definition peer_Completed :: "CInv \<Rightarrow> CInvPeer \<Rightarrow> CInvPeer" where
  "peer_Completed iv = upd_known (inv_nType iv) (\<lambda>k. k\<lparr>setAssigned := set_erase (inv_nHash iv) (setAssigned k)\<rparr>)"

definition peer_IsAssigned :: "CInvPeer \<Rightarrow> bool" where
  "peer_IsAssigned peer \<longleftrightarrow> setAssigned (invKnown peer 0) \<noteq> [] \<or> setAssigned (invKnown peer 1) \<noteq> []"

definition peer_GetBlockLocatorDepth :: "CInvPeer \<Rightarrow> uint256" where
  "peer_GetBlockLocatorDepth peer = hashGetBlockLocatorDepth peer"

definition peer_SetBlockLocatorDepth :: "uint256 \<Rightarrow> CInvPeer \<Rightarrow> CInvPeer" where
  "peer_SetBlockLocatorDepth hashDepth peer = peer\<lparr>hashGetBlockLocatorDepth := hashDepth\<rparr>"

text \<open>The result is the height and, when the hash is assigned, the hash.\<close>

definition peer_GetLocatorInvBlockHash :: "CInvPeer \<Rightarrow> int \<times> uint256 option" where
  "peer_GetLocatorInvBlockHash peer =
    (if nInvHeight peer \<le> 0 \<or> hashInvBlock peer = 0 then (- 1, None) else (nInvHeight peer, Some (hashInvBlock peer)))"

definition peer_SetLocatorInvBlockHash :: "int \<Rightarrow> uint256 \<Rightarrow> uint256 \<Rightarrow> CInvPeer \<Rightarrow> CInvPeer" where
  "peer_SetLocatorInvBlockHash nHeight0 hashBlock hashNext peer =
    (if nHeight0 \<ge> nInvHeight peer then peer\<lparr>nInvHeight := nHeight0, hashInvBlock := hashBlock\<rparr>
     else if hashNext = 0 \<and> hashInvBlock peer = 0 then peer\<lparr>nInvHeight := nHeight0, hashInvBlock := hashBlock\<rparr>
     else peer\<lparr>nInvHeight := nInvHeight peer - 1, hashInvBlock := 0\<rparr>)"

definition peer_SetNextGetBlocksTime :: "int \<Rightarrow> int \<Rightarrow> CInvPeer \<Rightarrow> CInvPeer" where
  "peer_SetNextGetBlocksTime nTime nWaitTime = upd_known MSG_BLOCK (\<lambda>k. k\<lparr>nNextGetBlocksTime := nTime + nWaitTime\<rparr>)"

definition peer_CheckNextGetBlocksTime :: "int \<Rightarrow> CInvPeer \<Rightarrow> bool" where
  "peer_CheckNextGetBlocksTime nTime peer \<longleftrightarrow> nTime \<ge> nNextGetBlocksTime (invKnown peer (MSG_BLOCK - MSG_TX))"

definition peer_AddRepeatBlock :: "uint256 \<Rightarrow> CInvPeer \<Rightarrow> nat \<times> CInvPeer" where
  "peer_AddRepeatBlock hash peer =
    (if KnownInvExists peer (CInv MSG_BLOCK hash)
     then let rep = mapRepeat (invKnown peer (MSG_BLOCK - MSG_TX));
              height = GetBlockHeightByHash hash;
              setHash = set_insert hash (map_get [] rep height)
       in (length setHash, upd_known MSG_BLOCK (\<lambda>k. k\<lparr>mapRepeat := map_set height setHash rep\<rparr>) peer)
     else (0, peer))"

section \<open>The state of the scheduler\<close>

datatype CInvObject = CNil | ObjBlock CBlock | ObjTx CTransaction

record CInvState =
  nAssigned :: uint64
  objReceived :: CInvObject
  setKnownPeer :: "uint64 list"
  nRecvInvTime :: int
  nRecvObjTime :: int
  nClearObjTime :: int
  nGetDataCount :: nat
  fRepeatMintBlock :: bool
  fVerifyPowBlock :: bool
  st_hashRefBlock :: uint256

definition CInvState_null :: CInvState where
  "CInvState_null =
    \<lparr>nAssigned = 0, objReceived = CNil, setKnownPeer = [], nRecvInvTime = 0, nRecvObjTime = 0, nClearObjTime = 0,
     nGetDataCount = 0, fRepeatMintBlock = False, fVerifyPowBlock = False, st_hashRefBlock = 0\<rparr>"

definition IsReceived :: "CInvState \<Rightarrow> bool" where
  "IsReceived st \<longleftrightarrow> objReceived st \<noteq> CNil"

definition MAX_INV_COUNT :: nat where "MAX_INV_COUNT = 1024 * 256"
definition MAX_PEER_BLOCK_INV_COUNT :: nat where "MAX_PEER_BLOCK_INV_COUNT = 1024"
definition MAX_PEER_TX_INV_COUNT :: nat where "MAX_PEER_TX_INV_COUNT = 1024 * 256"
definition MAX_REGETDATA_COUNT :: nat where "MAX_REGETDATA_COUNT = 10"
definition MAX_INV_WAIT_TIME :: int where "MAX_INV_WAIT_TIME = 3600"
definition MAX_OBJ_WAIT_TIME :: int where "MAX_OBJ_WAIT_TIME = 7200"
definition MAX_REPEAT_BLOCK_TIME :: int where "MAX_REPEAT_BLOCK_TIME = 180"
definition MAX_REPEAT_BLOCK_COUNT :: nat where "MAX_REPEAT_BLOCK_COUNT = 4"
definition MAX_SUBMIT_POW_TIMEOUT :: int where "MAX_SUBMIT_POW_TIMEOUT = 10"
definition CACHE_POW_BLOCK_TYPE_LOCAL :: int where "CACHE_POW_BLOCK_TYPE_LOCAL = 0"
definition CACHE_POW_BLOCK_TYPE_REMOTE :: int where "CACHE_POW_BLOCK_TYPE_REMOTE = 1"

record CSchedule =
  orphanBlock :: orphans
  orphanTx :: orphans
  mapPeer :: "(uint64, CInvPeer) stdmap"
  mapState :: "(CInv, CInvState) stdmap"
  setMissPrevTxInv :: "CInv list"
  mapRefBlock :: "(uint256, (uint256, uint256) stdmap) stdmap"
  mapHeightBlock :: "(int, (uint256 \<times> int) list) stdmap"
  mapKcPowBlock :: "(int, CBlock) stdmap"

definition CSchedule_null :: CSchedule where
  "CSchedule_null =
    \<lparr>orphanBlock = [], orphanTx = [], mapPeer = [], mapState = [], setMissPrevTxInv = [], mapRefBlock = [],
     mapHeightBlock = [], mapKcPowBlock = []\<rparr>"

text \<open>\<^verbatim>\<open>mapPeer[nPeerNonce]\<close> creates a missing peer; \<open>peer_at\<close> reads, \<open>upd_peer\<close> modifies through the reference.\<close>

definition peer_at :: "CSchedule \<Rightarrow> uint64 \<Rightarrow> CInvPeer" where
  "peer_at s nPeerNonce = map_get CInvPeer_null (mapPeer s) nPeerNonce"

definition upd_peer :: "uint64 \<Rightarrow> (CInvPeer \<Rightarrow> CInvPeer) \<Rightarrow> CSchedule \<Rightarrow> CSchedule" where
  "upd_peer nPeerNonce f s = s\<lparr>mapPeer := map_set nPeerNonce (f (peer_at s nPeerNonce)) (mapPeer s)\<rparr>"

definition upd_state :: "CInv \<Rightarrow> CInvState \<Rightarrow> CSchedule \<Rightarrow> CSchedule" where
  "upd_state iv st s = s\<lparr>mapState := map_set iv st (mapState s)\<rparr>"

section \<open>Removing\<close>

definition Exists :: "CSchedule \<Rightarrow> CInv \<Rightarrow> bool" where
  "Exists s iv \<longleftrightarrow> map_of (mapState s) iv \<noteq> None"

definition CheckPrevTxInv :: "CInv \<Rightarrow> CSchedule \<Rightarrow> bool \<times> CSchedule" where
  "CheckPrevTxInv iv s =
    (case map_of (mapState s) iv of
       Some st \<Rightarrow> (True, if \<not> IsReceived st then s\<lparr>setMissPrevTxInv := set_insert iv (setMissPrevTxInv s)\<rparr> else s)
     | None \<Rightarrow> (False, s\<lparr>setMissPrevTxInv := set_insert iv (setMissPrevTxInv s)\<rparr>))"

definition GetKnownPeer :: "CSchedule \<Rightarrow> CInv \<Rightarrow> uint64 list \<Rightarrow> uint64 list" where
  "GetKnownPeer s iv knownPeer = (case map_of (mapState s) iv of Some st \<Rightarrow> setKnownPeer st | None \<Rightarrow> knownPeer)"

definition RemoveOrphan :: "CInv \<Rightarrow> CSchedule \<Rightarrow> CSchedule" where
  "RemoveOrphan iv s =
    (if inv_nType iv = MSG_TX then s\<lparr>orphanTx := orphan_Remove (inv_nHash iv) (orphanTx s)\<rparr>
     else if inv_nType iv = MSG_BLOCK then s\<lparr>orphanBlock := orphan_Remove (inv_nHash iv) (orphanBlock s)\<rparr>
     else s)"

primrec RemoveHeightBlock_loop :: "uint256 \<Rightarrow> nat \<Rightarrow> (uint256 \<times> int) list \<Rightarrow> (uint256 \<times> int) list" where
  "RemoveHeightBlock_loop hash 0 v = v"
| "RemoveHeightBlock_loop hash (Suc i) v =
    RemoveHeightBlock_loop hash i (if fst (v ! i) = hash then take i v @ drop (Suc i) v else v)"

definition RemoveHeightBlock :: "int \<Rightarrow> uint256 \<Rightarrow> CSchedule \<Rightarrow> CSchedule" where
  "RemoveHeightBlock nHeight0 hash s =
    (case map_of (mapHeightBlock s) nHeight0 of
       None \<Rightarrow> s
     | Some v \<Rightarrow>
         let v' = RemoveHeightBlock_loop hash (length v) v
         in s\<lparr>mapHeightBlock := (if v' = [] then map_erase nHeight0 (mapHeightBlock s)
                                 else map_set nHeight0 v' (mapHeightBlock s))\<rparr>)"

fun RemoveRefBlock_loop ::
    "uint256 \<Rightarrow> (uint256, (uint256, uint256) stdmap) stdmap \<Rightarrow> (uint256, (uint256, uint256) stdmap) stdmap" where
  "RemoveRefBlock_loop hashForkBlock [] = []"
| "RemoveRefBlock_loop hashForkBlock ((k, md) # m) =
    (let md' = map_erase hashForkBlock md
     in if md' = [] then RemoveRefBlock_loop hashForkBlock m else (k, md') # RemoveRefBlock_loop hashForkBlock m)"

definition RemoveRefBlock :: "uint256 \<Rightarrow> CSchedule \<Rightarrow> CSchedule" where
  "RemoveRefBlock hashForkBlock s =
    (let ref = (case map_of (mapState s) (CInv MSG_BLOCK hashForkBlock) of None \<Rightarrow> 0 | Some st \<Rightarrow> st_hashRefBlock st)
     in if ref \<noteq> 0 then
          (case map_of (mapRefBlock s) ref of
             None \<Rightarrow> s
           | Some md \<Rightarrow>
               let md' = map_erase hashForkBlock md
               in s\<lparr>mapRefBlock := (if md' = [] then map_erase ref (mapRefBlock s) else map_set ref md' (mapRefBlock s))\<rparr>)
        else s\<lparr>mapRefBlock := RemoveRefBlock_loop hashForkBlock (mapRefBlock s)\<rparr>)"

definition RemoveInvState :: "CInv \<Rightarrow> CSchedule \<Rightarrow> CSchedule" where
  "RemoveInvState iv s =
    (let s1 = RemoveOrphan iv s;
         s2 = (if inv_nType iv = MSG_TX then s1\<lparr>setMissPrevTxInv := set_erase iv (setMissPrevTxInv s1)\<rparr>
               else if inv_nType iv = MSG_BLOCK
               then RemoveRefBlock (inv_nHash iv)
                      (RemoveHeightBlock (sint (GetBlockHeightByHash (inv_nHash iv))) (inv_nHash iv) s1)
               else s1)
     in s2\<lparr>mapState := map_erase iv (mapState s2)\<rparr>)"

text \<open>One round of the loop of \<^verbatim>\<open>RemovePeer\<close> over the inventory the peer knows.\<close>

definition RemovePeer_step :: "uint64 \<Rightarrow> CInv \<Rightarrow> CSchedule \<times> uint64 list \<Rightarrow> CSchedule \<times> uint64 list" where
  "RemovePeer_step nPeerNonce iv = (\<lambda>(s, setSchedPeer).
    case map_of (mapState s) iv of
      None \<Rightarrow> (s, setSchedPeer)
    | Some st0 \<Rightarrow>
        let st = st0\<lparr>setKnownPeer := set_erase nPeerNonce (setKnownPeer st0)\<rparr>;
            s1 = upd_state iv st s
        in if setKnownPeer st = [] then (RemoveInvState iv s1, setSchedPeer)
           else if nAssigned st = nPeerNonce
           then (upd_state iv (st\<lparr>nAssigned := 0, objReceived := CNil\<rparr>) s1, set_insert_all (setKnownPeer st) setSchedPeer)
           else (s1, setSchedPeer))"

definition RemovePeer :: "uint64 \<Rightarrow> uint64 list \<Rightarrow> CSchedule \<Rightarrow> CSchedule \<times> uint64 list" where
  "RemovePeer nPeerNonce setSchedPeer s =
    (case map_of (mapPeer s) nPeerNonce of
       None \<Rightarrow> (s, setSchedPeer)
     | Some peer \<Rightarrow>
         (case fold (RemovePeer_step nPeerNonce) (GetKnownInv peer) (s, setSchedPeer) of
            (s', sched) \<Rightarrow> (s'\<lparr>mapPeer := map_erase nPeerNonce (mapPeer s')\<rparr>, sched)))"

definition RemoveInv :: "CInv \<Rightarrow> uint64 list \<Rightarrow> CSchedule \<Rightarrow> bool \<times> uint64 list \<times> CSchedule" where
  "RemoveInv iv knownPeer s =
    (case map_of (mapState s) iv of
       None \<Rightarrow> (False, knownPeer, s)
     | Some st \<Rightarrow>
         let s1 = fold (\<lambda>nPeerNonce. upd_peer nPeerNonce (peer_RemoveInv iv)) (setKnownPeer st) s
         in (True, set_insert_all (setKnownPeer st) knownPeer, RemoveInvState iv s1))"

section \<open>Announcing and receiving\<close>

definition CheckAddInvIdleLocation :: "uint64 \<Rightarrow> uint32 \<Rightarrow> CSchedule \<Rightarrow> bool \<times> CSchedule" where
  "CheckAddInvIdleLocation nPeerNonce nInvType s =
    (if length (mapState s) < MAX_INV_COUNT
     then (peer_GetCount (peer_at s nPeerNonce) nInvType
             < (if nInvType = MSG_TX then MAX_PEER_TX_INV_COUNT else MAX_PEER_BLOCK_INV_COUNT),
           upd_peer nPeerNonce (\<lambda>peer. peer) s)
     else (False, s))"

definition AddNewInv :: "int \<Rightarrow> CInv \<Rightarrow> uint64 \<Rightarrow> CSchedule \<Rightarrow> bool \<times> CSchedule" where
  "AddNewInv nTime iv nPeerNonce s =
    (case CheckAddInvIdleLocation nPeerNonce (inv_nType iv) s of
       (False, s1) \<Rightarrow> (False, s1)
     | (True, s1) \<Rightarrow>
         let st = map_get CInvState_null (mapState s1) iv;
             st' = st\<lparr>setKnownPeer := set_insert nPeerNonce (setKnownPeer st),
                      nRecvInvTime := (if nRecvInvTime st = 0 then nTime else nRecvInvTime st)\<rparr>
         in (True, upd_peer nPeerNonce (peer_AddNewInv iv) (upd_state iv st' s1)))"

definition received :: "int \<Rightarrow> CInvObject \<Rightarrow> CInvState \<Rightarrow> CInvState" where
  "received nTime obj st = st\<lparr>objReceived := obj, nRecvObjTime := nTime, nClearObjTime := nTime + MAX_OBJ_WAIT_TIME\<rparr>"

definition ReceiveBlock ::
    "int \<Rightarrow> uint64 \<Rightarrow> uint256 \<Rightarrow> CBlock \<Rightarrow> uint64 list \<Rightarrow> CSchedule \<Rightarrow> bool \<times> uint64 list \<times> CSchedule" where
  "ReceiveBlock nTime nPeerNonce hash block setSchedPeer s =
    (let iv = CInv MSG_BLOCK hash in
     case map_of (mapState s) iv of
       None \<Rightarrow> (False, setSchedPeer, s)
     | Some st \<Rightarrow>
         if nAssigned st = nPeerNonce \<and> \<not> IsReceived st
         then let s1 = upd_peer nPeerNonce (peer_Completed iv) (upd_state iv (received nTime (ObjBlock block) st) s);
                  height = sint (GetBlockHeight block);
                  s2 = (if IsPrimary block \<and> IsProofOfWork block
                        then s1\<lparr>mapHeightBlock := map_set height
                               (map_get [] (mapHeightBlock s1) height @ [(hash, CACHE_POW_BLOCK_TYPE_REMOTE)]) (mapHeightBlock s1)\<rparr>
                        else s1)
           in (True, set_insert_all (setKnownPeer st) setSchedPeer, s2)
         else (False, setSchedPeer, s))"

definition ReceiveTx ::
    "int \<Rightarrow> uint64 \<Rightarrow> uint256 \<Rightarrow> CTransaction \<Rightarrow> uint64 list \<Rightarrow> CSchedule \<Rightarrow> bool \<times> uint64 list \<times> CSchedule" where
  "ReceiveTx nTime nPeerNonce txid tx setSchedPeer s =
    (let iv = CInv MSG_TX txid in
     case map_of (mapState s) iv of
       None \<Rightarrow> (False, setSchedPeer, s)
     | Some st \<Rightarrow>
         if nAssigned st = nPeerNonce \<and> \<not> IsReceived st
         then let s1 = upd_peer nPeerNonce (peer_Completed iv) (upd_state iv (received nTime (ObjTx tx) st) s)
           in (True, set_insert_all (setKnownPeer st) setSchedPeer,
               s1\<lparr>setMissPrevTxInv := set_erase iv (setMissPrevTxInv s1)\<rparr>)
         else (False, setSchedPeer, s))"

text \<open>\<^verbatim>\<open>boost::get\<close> of the wrong alternative throws \<^verbatim>\<open>bad_get\<close>.\<close>

datatype schedule_error = BadGet

definition GetBlock :: "CSchedule \<Rightarrow> uint256 \<Rightarrow> schedule_error + (CBlock \<times> uint64) option" where
  "GetBlock s hash =
    (case map_of (mapState s) (CInv MSG_BLOCK hash) of
       None \<Rightarrow> Inr None
     | Some st \<Rightarrow>
         if IsReceived st
         then (case objReceived st of ObjBlock b \<Rightarrow> Inr (Some (b, nAssigned st)) | _ \<Rightarrow> Inl BadGet)
         else Inr None)"

definition GetTransaction :: "CSchedule \<Rightarrow> uint256 \<Rightarrow> schedule_error + (CTransaction \<times> uint64) option" where
  "GetTransaction s txid =
    (case map_of (mapState s) (CInv MSG_TX txid) of
       None \<Rightarrow> Inr None
     | Some st \<Rightarrow>
         if IsReceived st
         then (case objReceived st of ObjTx tx \<Rightarrow> Inr (Some (tx, nAssigned st)) | _ \<Rightarrow> Inl BadGet)
         else Inr None)"

section \<open>Orphans\<close>

definition AddOrphanBlockPrev :: "uint256 \<Rightarrow> uint256 \<Rightarrow> CSchedule \<Rightarrow> CSchedule" where
  "AddOrphanBlockPrev hash prev s = s\<lparr>orphanBlock := orphan_AddNew prev hash (orphanBlock s)\<rparr>"

definition AddOrphanTxPrev :: "uint256 \<Rightarrow> uint256 \<Rightarrow> CSchedule \<Rightarrow> CSchedule" where
  "AddOrphanTxPrev txid prev s = s\<lparr>orphanTx := orphan_AddNew prev txid (orphanTx s)\<rparr>"

definition GetNextBlock :: "CSchedule \<Rightarrow> uint256 \<Rightarrow> uint256 list \<Rightarrow> uint256 list" where
  "GetNextBlock s hash vNext = orphan_GetNext (orphanBlock s) hash vNext"

definition GetNextTx :: "CSchedule \<Rightarrow> uint256 \<Rightarrow> uint256 list \<Rightarrow> uint256 list \<Rightarrow> uint256 list \<times> uint256 list" where
  "GetNextTx s txid vNext setTx = orphan_GetNext_set (orphanTx s) txid vNext setTx"

definition RemoveInvs :: "uint32 \<Rightarrow> uint256 list \<Rightarrow> uint64 list \<times> CSchedule \<Rightarrow> uint64 list \<times> CSchedule" where
  "RemoveInvs type vInvalid = fold (\<lambda>hash (peers, s). snd (RemoveInv (CInv type hash) peers s)) vInvalid"

definition InvalidateBlock :: "uint256 \<Rightarrow> uint64 list \<Rightarrow> CSchedule \<Rightarrow> uint64 list \<times> CSchedule" where
  "InvalidateBlock hash setMisbehavePeer s =
    (case RemoveBranch hash (orphanBlock s) of
       (vInvalid, m) \<Rightarrow>
         case RemoveInvs MSG_BLOCK vInvalid (setMisbehavePeer, s\<lparr>orphanBlock := m\<rparr>) of
           (peers, s1) \<Rightarrow> snd (RemoveInv (CInv MSG_BLOCK hash) peers s1))"

definition InvalidateTx :: "uint256 \<Rightarrow> uint64 list \<Rightarrow> CSchedule \<Rightarrow> uint64 list \<times> CSchedule" where
  "InvalidateTx txid setMisbehavePeer s =
    (case RemoveBranch txid (orphanTx s) of
       (vInvalid, m) \<Rightarrow>
         case RemoveInvs MSG_TX vInvalid (setMisbehavePeer, s\<lparr>orphanTx := m\<rparr>) of
           (peers, s1) \<Rightarrow> snd (RemoveInv (CInv MSG_TX txid) peers s1))"

section \<open>Scheduling\<close>

definition inv_timeout :: "int \<Rightarrow> CInvState \<Rightarrow> bool" where
  "inv_timeout nCurTime st \<longleftrightarrow>
    nGetDataCount st \<ge> MAX_REGETDATA_COUNT
    \<or> (nGetDataCount st \<ge> 1 \<and> nCurTime - nRecvInvTime st \<ge> MAX_INV_WAIT_TIME)
    \<or> nCurTime - nRecvInvTime st \<ge> MAX_INV_WAIT_TIME * 12"

definition assign_inv :: "uint64 \<Rightarrow> CInv \<Rightarrow> CInvState \<Rightarrow> CSchedule \<Rightarrow> CSchedule" where
  "assign_inv nPeerNonce iv st s =
    upd_peer nPeerNonce (peer_Assign iv)
      (upd_state iv (st\<lparr>nAssigned := nPeerNonce, nGetDataCount := nGetDataCount st + 1\<rparr>) s)"

text \<open>The loop over the transactions that others wait for; the accumulators are \<^verbatim>\<open>vInv\<close> and \<^verbatim>\<open>setRemoveInv\<close>.\<close>

fun MissPrev_loop ::
    "uint64 \<Rightarrow> int \<Rightarrow> nat \<Rightarrow> CInv list \<Rightarrow> CInv list \<Rightarrow> CInv list \<Rightarrow> CSchedule \<Rightarrow> CInv list \<times> CInv list \<times> CSchedule" where
  "MissPrev_loop nPeerNonce nCurTime nMaxCount [] vInv rm s = (vInv, rm, s)"
| "MissPrev_loop nPeerNonce nCurTime nMaxCount (iv # mt) vInv rm s =
    (case map_of (mapState s) iv of
       None \<Rightarrow> MissPrev_loop nPeerNonce nCurTime nMaxCount mt vInv rm
                (s\<lparr>setMissPrevTxInv := set_erase iv (setMissPrevTxInv s)\<rparr>)
     | Some st \<Rightarrow>
         if nAssigned st = 0 \<and> KnownInvExists (peer_at s nPeerNonce) iv
         then if inv_timeout nCurTime st then MissPrev_loop nPeerNonce nCurTime nMaxCount mt vInv (set_insert iv rm) s
              else let vInv' = vInv @ [iv]; s' = assign_inv nPeerNonce iv st s
                in if length vInv' \<ge> nMaxCount then (vInv', rm, s')
                   else MissPrev_loop nPeerNonce nCurTime nMaxCount mt vInv' rm s'
         else MissPrev_loop nPeerNonce nCurTime nMaxCount mt vInv rm s)"

text \<open>The loop over the list of the peer; the accumulators are \<^verbatim>\<open>vInv\<close>, \<^verbatim>\<open>setRemoveInv\<close>, \<^verbatim>\<open>setRemovePeerInv\<close> and
  \<^verbatim>\<open>nReceived\<close>.\<close>

fun KnownInv_loop ::
    "uint64 \<Rightarrow> int \<Rightarrow> nat \<Rightarrow> uint32 \<Rightarrow> uint256 list \<Rightarrow> CInv list \<Rightarrow> CInv list \<Rightarrow> CInv list \<Rightarrow> nat \<Rightarrow> CSchedule
      \<Rightarrow> CInv list \<times> CInv list \<times> CInv list \<times> nat \<times> CSchedule" where
  "KnownInv_loop nPeerNonce nCurTime nMaxCount type [] vInv rm rmPeer nReceived s = (vInv, rm, rmPeer, nReceived, s)"
| "KnownInv_loop nPeerNonce nCurTime nMaxCount type (hash # hs) vInv rm rmPeer nReceived s =
    (let iv = CInv type hash in
     case map_of (mapState s) iv of
       None \<Rightarrow> KnownInv_loop nPeerNonce nCurTime nMaxCount type hs vInv rm (set_insert iv rmPeer) nReceived s
     | Some st \<Rightarrow>
         if nAssigned st = 0
         then if inv_timeout nCurTime st
              then KnownInv_loop nPeerNonce nCurTime nMaxCount type hs vInv (set_insert iv rm) rmPeer nReceived s
              else let vInv' = vInv @ [iv]; s' = assign_inv nPeerNonce iv st s
                in if length vInv' \<ge> nMaxCount then (vInv', rm, rmPeer, nReceived, s')
                   else KnownInv_loop nPeerNonce nCurTime nMaxCount type hs vInv' rm rmPeer nReceived s'
         else if IsReceived st
         then if nCurTime \<ge> nClearObjTime st
              then KnownInv_loop nPeerNonce nCurTime nMaxCount type hs vInv (set_insert iv rm) rmPeer nReceived s
              else KnownInv_loop nPeerNonce nCurTime nMaxCount type hs vInv rm rmPeer (nReceived + 1) s
         else KnownInv_loop nPeerNonce nCurTime nMaxCount type hs vInv rm rmPeer nReceived s)"

record known_result =
  kr_ret :: bool
  kr_vInv :: "CInv list"
  kr_fReceivedAll :: bool

definition ScheduleKnownInv :: "int \<Rightarrow> uint64 \<Rightarrow> uint32 \<Rightarrow> nat \<Rightarrow> CSchedule \<Rightarrow> known_result \<times> CSchedule" where
  "ScheduleKnownInv nCurTime nPeerNonce type nMaxCount s =
    (let (vInv1, rm1, s1) =
           (if type = MSG_TX \<and> setMissPrevTxInv s \<noteq> []
            then MissPrev_loop nPeerNonce nCurTime nMaxCount (setMissPrevTxInv s) [] [] s
            else ([], [], s));
         (vInv, rm, rmPeer, nReceived, s2) =
           (if length vInv1 < nMaxCount
            then KnownInv_loop nPeerNonce nCurTime nMaxCount type (GetKnownList (peer_at s1 nPeerNonce) type) vInv1 rm1 [] 0 s1
            else (vInv1, rm1, [], 0, s1));
         s3 = fold (\<lambda>iv s. snd (snd (RemoveInv iv [] s))) rm s2;
         s4 = fold (\<lambda>iv. upd_peer nPeerNonce (peer_RemoveInv iv)) rmPeer s3;
         known = GetKnownList (peer_at s4 nPeerNonce) type
     in (\<lparr>kr_ret = (vInv \<noteq> [] \<or> known = []), kr_vInv = vInv,
          kr_fReceivedAll = (nReceived = length known \<and> nReceived \<noteq> 0)\<rparr>, s4))"

record sched_block_result =
  sb_ret :: bool
  sb_vInv :: "CInv list"
  sb_fMissingPrev :: bool
  sb_fEmpty :: bool

text \<open>When the scheduler is not entered, \<^verbatim>\<open>vInv\<close> keeps the value \<open>vInv0\<close> that the caller passes.\<close>

definition ScheduleBlockInv :: "int \<Rightarrow> uint64 \<Rightarrow> CInv list \<Rightarrow> nat \<Rightarrow> CSchedule \<Rightarrow> sched_block_result \<times> CSchedule" where
  "ScheduleBlockInv nTime nPeerNonce vInv0 nMaxCount s =
    (case map_of (mapPeer s) nPeerNonce of
       None \<Rightarrow> (\<lparr>sb_ret = True, sb_vInv = vInv0, sb_fMissingPrev = False, sb_fEmpty = True\<rparr>, s)
     | Some peer \<Rightarrow>
         let fEmpty = peer_Empty peer MSG_BLOCK in
         if peer_IsAssigned peer
         then (\<lparr>sb_ret = True, sb_vInv = vInv0, sb_fMissingPrev = False, sb_fEmpty = fEmpty\<rparr>, s)
         else
           let (r, s1) = ScheduleKnownInv nTime nPeerNonce MSG_BLOCK nMaxCount s; peer1 = peer_at s1 nPeerNonce in
           if \<not> kr_ret r
           then
             let (idle, s2) = (if kr_fReceivedAll r \<and> peer_CheckNextGetBlocksTime nTime peer1
                               then CheckAddInvIdleLocation nPeerNonce MSG_BLOCK s1 else (False, s1))
             in (\<lparr>sb_ret = (\<not> kr_fReceivedAll r \<or> peer_GetCount peer1 MSG_BLOCK < MAX_PEER_BLOCK_INV_COUNT),
                  sb_vInv = kr_vInv r, sb_fMissingPrev = idle, sb_fEmpty = fEmpty\<rparr>, s2)
           else (\<lparr>sb_ret = True, sb_vInv = kr_vInv r,
                  sb_fMissingPrev = (fEmpty \<and> peer_CheckNextGetBlocksTime nTime peer1), sb_fEmpty = fEmpty\<rparr>, s1))"

record sched_tx_result =
  sx_ret :: bool
  sx_vInv :: "CInv list"
  sx_fReceivedAll :: bool

definition ScheduleTxInv ::
    "int \<Rightarrow> uint64 \<Rightarrow> CInv list \<Rightarrow> nat \<Rightarrow> bool \<Rightarrow> CSchedule \<Rightarrow> sched_tx_result \<times> CSchedule" where
  "ScheduleTxInv nTime nPeerNonce vInv0 nMaxCount fReceivedAll0 s =
    (case map_of (mapPeer s) nPeerNonce of
       None \<Rightarrow> (\<lparr>sx_ret = True, sx_vInv = vInv0, sx_fReceivedAll = fReceivedAll0\<rparr>, s)
     | Some peer \<Rightarrow>
         if peer_IsAssigned peer then (\<lparr>sx_ret = True, sx_vInv = vInv0, sx_fReceivedAll = fReceivedAll0\<rparr>, s)
         else
           let (r, s1) = ScheduleKnownInv nTime nPeerNonce MSG_TX nMaxCount s; peer1 = peer_at s1 nPeerNonce in
           if \<not> kr_ret r
           then (\<lparr>sx_ret = (\<not> kr_fReceivedAll r \<or> peer_GetCount peer1 MSG_TX < MAX_PEER_TX_INV_COUNT),
                  sx_vInv = kr_vInv r, sx_fReceivedAll = kr_fReceivedAll r\<rparr>, s1)
           else (\<lparr>sx_ret = True, sx_vInv = kr_vInv r,
                  sx_fReceivedAll = (if peer_Empty peer1 MSG_TX then True else kr_fReceivedAll r)\<rparr>, s1))"

definition CancelAssignedInv :: "uint64 \<Rightarrow> CInv \<Rightarrow> CSchedule \<Rightarrow> bool \<times> CSchedule" where
  "CancelAssignedInv nPeerNonce iv s =
    (case map_of (mapState s) iv of
       None \<Rightarrow> (False, s)
     | Some st \<Rightarrow>
         if nAssigned st \<noteq> nPeerNonce then (False, s)
         else if IsReceived st then (True, s)
         else
           let st' = st\<lparr>nAssigned := 0, setKnownPeer := set_erase nPeerNonce (setKnownPeer st)\<rparr>;
               s1 = upd_state iv st' s;
               s2 = (if setKnownPeer st' = [] then RemoveInvState iv s1 else s1)
           in (True, case map_of (mapPeer s2) nPeerNonce of
                       None \<Rightarrow> s2
                     | Some peer \<Rightarrow> upd_peer nPeerNonce (peer_RemoveInv iv) s2))"

section \<open>Locators, repeated blocks, reference blocks\<close>

definition GetLocatorDepthHash :: "CSchedule \<Rightarrow> uint64 \<Rightarrow> uint256 option" where
  "GetLocatorDepthHash s nPeerNonce = map_option peer_GetBlockLocatorDepth (map_of (mapPeer s) nPeerNonce)"

definition SetLocatorDepthHash :: "uint64 \<Rightarrow> uint256 \<Rightarrow> CSchedule \<Rightarrow> CSchedule" where
  "SetLocatorDepthHash nPeerNonce hashDepth = upd_peer nPeerNonce (peer_SetBlockLocatorDepth hashDepth)"

definition GetLocatorInvBlockHash :: "CSchedule \<Rightarrow> uint64 \<Rightarrow> int \<times> uint256 option" where
  "GetLocatorInvBlockHash s nPeerNonce =
    (case map_of (mapPeer s) nPeerNonce of Some peer \<Rightarrow> peer_GetLocatorInvBlockHash peer | None \<Rightarrow> (- 1, None))"

definition SetLocatorInvBlockHash :: "uint64 \<Rightarrow> int \<Rightarrow> uint256 \<Rightarrow> uint256 \<Rightarrow> CSchedule \<Rightarrow> CSchedule" where
  "SetLocatorInvBlockHash nPeerNonce nHeight0 hashBlock hashNext =
    upd_peer nPeerNonce (peer_SetLocatorInvBlockHash nHeight0 hashBlock hashNext)"

definition SetNextGetBlocksTime :: "int \<Rightarrow> uint64 \<Rightarrow> int \<Rightarrow> CSchedule \<Rightarrow> CSchedule" where
  "SetNextGetBlocksTime nTime nPeerNonce nWaitTime = upd_peer nPeerNonce (peer_SetNextGetBlocksTime nTime nWaitTime)"

definition SetRepeatBlock :: "int \<Rightarrow> uint64 \<Rightarrow> uint256 \<Rightarrow> CSchedule \<Rightarrow> bool \<times> CSchedule" where
  "SetRepeatBlock nTime nPeerNonce hash s =
    (let iv = CInv MSG_BLOCK hash;
         s1 = (case map_of (mapState s) iv of
                 None \<Rightarrow> s
               | Some st \<Rightarrow> upd_state iv (st\<lparr>fRepeatMintBlock := True, nClearObjTime := nTime + MAX_REPEAT_BLOCK_TIME\<rparr>) s);
         r = peer_AddRepeatBlock hash (peer_at s1 nPeerNonce)
     in (\<not> fst r \<ge> MAX_REPEAT_BLOCK_COUNT, upd_peer nPeerNonce (\<lambda>_. snd r) s1))"

definition IsRepeatBlock :: "CSchedule \<Rightarrow> uint256 \<Rightarrow> bool" where
  "IsRepeatBlock s hash =
    (case map_of (mapState s) (CInv MSG_BLOCK hash) of None \<Rightarrow> False | Some st \<Rightarrow> IsReceived st \<and> fRepeatMintBlock st)"

definition AddRefBlock :: "uint256 \<Rightarrow> uint256 \<Rightarrow> uint256 \<Rightarrow> CSchedule \<Rightarrow> CSchedule" where
  "AddRefBlock hashRef hashFork hashBlock s =
    (if hashRef = 0 then s
     else let md = map_get [] (mapRefBlock s) hashRef;
              md' = (case map_of md hashBlock of
                       None \<Rightarrow> map_insert hashBlock hashFork md
                     | Some fork \<Rightarrow> if fork \<noteq> hashFork then map_set hashBlock hashFork md else md);
              s1 = s\<lparr>mapRefBlock := map_set hashRef md' (mapRefBlock s)\<rparr>
       in (case map_of (mapState s1) (CInv MSG_BLOCK hashBlock) of
             None \<Rightarrow> s1
           | Some st \<Rightarrow> upd_state (CInv MSG_BLOCK hashBlock) (st\<lparr>st_hashRefBlock := hashRef\<rparr>) s1))"

definition GetNextRefBlock :: "CSchedule \<Rightarrow> uint256 \<Rightarrow> (uint256 \<times> uint256) list \<Rightarrow> (uint256 \<times> uint256) list" where
  "GetNextRefBlock s hashRef vNext =
    (case map_of (mapRefBlock s) hashRef of
       None \<Rightarrow> vNext
     | Some md \<Rightarrow> vNext @ map (\<lambda>vd. (snd vd, fst vd)) md)"

definition SetDelayedClear :: "int \<Rightarrow> CInv \<Rightarrow> int \<Rightarrow> CSchedule \<Rightarrow> bool \<times> CSchedule" where
  "SetDelayedClear nTime iv nDelayedTime s =
    (case map_of (mapState s) iv of
       None \<Rightarrow> (False, s)
     | Some st \<Rightarrow> (True, upd_state iv (st\<lparr>nClearObjTime := nTime + nDelayedTime\<rparr>) s))"

section \<open>The cache of proof-of-work blocks\<close>

record CConsensusParam =
  cp_hashPrev :: uint256
  cp_nPrevTime :: int
  cp_nPrevHeight :: int
  cp_nPrevMintType :: uint16
  cp_nWaitTime :: int
  cp_fPow :: bool
  cp_ret :: bool

fun GetSubmitCachePowBlock_loop ::
    "CConsensusParam \<Rightarrow> (int, (uint256 \<times> int) list) stdmap \<Rightarrow> (uint256 \<times> int) list \<Rightarrow> (uint256 \<times> int) list" where
  "GetSubmitCachePowBlock_loop consParam [] vPowBlockHash = vPowBlockHash"
| "GetSubmitCachePowBlock_loop consParam ((height, v) # m) vPowBlockHash =
    GetSubmitCachePowBlock_loop consParam m
      (if height \<le> cp_nPrevHeight consParam then vPowBlockHash @ v
       else if height = cp_nPrevHeight consParam + 1
       then (if cp_ret consParam \<and>
                (cp_fPow consParam \<or> (cp_nWaitTime consParam < 0 \<and> \<bar>cp_nWaitTime consParam\<bar> > MAX_SUBMIT_POW_TIMEOUT))
             then vPowBlockHash @ v else vPowBlockHash)
       else (if cp_nWaitTime consParam < 0 \<and> \<bar>cp_nWaitTime consParam\<bar> > MAX_SUBMIT_POW_TIMEOUT * 7
             then vPowBlockHash @ v else vPowBlockHash))"

definition GetSubmitCachePowBlock :: "CSchedule \<Rightarrow> CConsensusParam \<Rightarrow> (uint256 \<times> int) list \<Rightarrow> (uint256 \<times> int) list" where
  "GetSubmitCachePowBlock s consParam vPowBlockHash = GetSubmitCachePowBlock_loop consParam (mapHeightBlock s) vPowBlockHash"

definition GetFirstCachePowBlock :: "CSchedule \<Rightarrow> int \<Rightarrow> uint256 option" where
  "GetFirstCachePowBlock s nHeight0 =
    (case map_of (mapHeightBlock s) nHeight0 of Some (chash # v) \<Rightarrow> Some (fst chash) | _ \<Rightarrow> None)"

text \<open>The loop at the start of \<^verbatim>\<open>AddCacheLocalPowBlock\<close> drops what is 32 or more below the new height.\<close>

fun DropOldLocal_loop :: "(bytes \<Rightarrow> uint256) \<Rightarrow> int \<Rightarrow> (int, CBlock) stdmap \<Rightarrow> CSchedule \<Rightarrow> CSchedule" where
  "DropOldLocal_loop H nHeight0 [] s = s"
| "DropOldLocal_loop H nHeight0 ((height, block) # mt) s =
    (if height > nHeight0 - 32 then s
     else let s1 = RemoveHeightBlock height (block_GetHash H block) s
       in DropOldLocal_loop H nHeight0 mt (s1\<lparr>mapKcPowBlock := map_erase height (mapKcPowBlock s1)\<rparr>))"

text \<open>The results are the return value and \<^verbatim>\<open>fFirst\<close>, if it is assigned.\<close>

definition AddCacheLocalPowBlock ::
    "(bytes \<Rightarrow> uint256) \<Rightarrow> CBlock \<Rightarrow> CSchedule \<Rightarrow> bool \<times> bool option \<times> CSchedule" where
  "AddCacheLocalPowBlock H block s =
    (let nHeight0 = sint (GetBlockHeight block);
         s1 = DropOldLocal_loop H nHeight0 (mapKcPowBlock s) s
     in case map_of (mapKcPowBlock s1) nHeight0 of
          Some _ \<Rightarrow> (False, None, s1)
        | None \<Rightarrow>
            let vb = map_get [] (mapHeightBlock s1) nHeight0
            in (True, Some (vb = []),
                s1\<lparr>mapKcPowBlock := map_insert nHeight0 block (mapKcPowBlock s1),
                   mapHeightBlock := map_set nHeight0 (vb @ [(block_GetHash H block, CACHE_POW_BLOCK_TYPE_LOCAL)])
                     (mapHeightBlock s1)\<rparr>))"

definition CheckCacheLocalPowBlock :: "CSchedule \<Rightarrow> int \<Rightarrow> bool" where
  "CheckCacheLocalPowBlock s nHeight0 \<longleftrightarrow> map_of (mapKcPowBlock s) nHeight0 \<noteq> None"

definition GetCacheLocalPowBlock :: "(bytes \<Rightarrow> uint256) \<Rightarrow> CSchedule \<Rightarrow> uint256 \<Rightarrow> CBlock option" where
  "GetCacheLocalPowBlock H s hash =
    (case map_of (mapKcPowBlock s) (sint (GetBlockHeightByHash hash)) of
       Some block \<Rightarrow> if block_GetHash H block = hash then Some block else None
     | None \<Rightarrow> None)"

definition RemoveCacheLocalPowBlock :: "(bytes \<Rightarrow> uint256) \<Rightarrow> uint256 \<Rightarrow> CSchedule \<Rightarrow> CSchedule" where
  "RemoveCacheLocalPowBlock H hash s =
    (let height = sint (GetBlockHeightByHash hash) in
     case map_of (mapKcPowBlock s) height of
       Some block \<Rightarrow>
         if block_GetHash H block = hash
         then let s1 = RemoveHeightBlock height (block_GetHash H block) s
           in s1\<lparr>mapKcPowBlock := map_erase height (mapKcPowBlock s1)\<rparr>
         else s
     | None \<Rightarrow> s)"

definition GetCachePowBlock :: "(bytes \<Rightarrow> uint256) \<Rightarrow> CSchedule \<Rightarrow> uint256 \<Rightarrow> schedule_error + CBlock option" where
  "GetCachePowBlock H s hash =
    (case map_of (mapHeightBlock s) (sint (GetBlockHeightByHash hash)) of
       Some (chash # v) \<Rightarrow>
         if snd chash = CACHE_POW_BLOCK_TYPE_REMOTE
         then (if fst chash = hash
               then (case GetBlock s hash of Inl e \<Rightarrow> Inl e | Inr r \<Rightarrow> Inr (map_option fst r))
               else Inr None)
         else Inr (GetCacheLocalPowBlock H s hash)
     | _ \<Rightarrow> Inr None)"

fun CheckCache_loop :: "CSchedule \<Rightarrow> uint256 \<Rightarrow> (uint256 \<times> int) list \<Rightarrow> schedule_error + bool" where
  "CheckCache_loop s hash [] = Inr False"
| "CheckCache_loop s hash (vd # v) =
    (if snd vd = CACHE_POW_BLOCK_TYPE_REMOTE
     then (if fst vd = hash
           then (case GetBlock s hash of
                   Inl e \<Rightarrow> Inl e
                 | Inr None \<Rightarrow> CheckCache_loop s hash v
                 | Inr (Some r) \<Rightarrow> Inr True)
           else CheckCache_loop s hash v)
     else if fst vd = hash then Inr True else CheckCache_loop s hash v)"

definition CheckCachePowBlockState :: "CSchedule \<Rightarrow> uint256 \<Rightarrow> schedule_error + bool" where
  "CheckCachePowBlockState s hash =
    (case map_of (mapHeightBlock s) (sint (GetBlockHeightByHash hash)) of
       Some v \<Rightarrow> CheckCache_loop s hash v
     | None \<Rightarrow> Inr False)"

definition GetPowBlockState :: "CSchedule \<Rightarrow> uint256 \<Rightarrow> bool option" where
  "GetPowBlockState s hash =
    (case map_of (mapState s) (CInv MSG_BLOCK hash) of
       Some st \<Rightarrow> if IsReceived st then Some (fVerifyPowBlock st) else None
     | None \<Rightarrow> None)"

definition SetPowBlockVerifyState :: "uint256 \<Rightarrow> bool \<Rightarrow> CSchedule \<Rightarrow> CSchedule" where
  "SetPowBlockVerifyState hash fVerifyPowBlockIn s =
    (case map_of (mapState s) (CInv MSG_BLOCK hash) of
       Some st \<Rightarrow> if IsReceived st then upd_state (CInv MSG_BLOCK hash) (st\<lparr>fVerifyPowBlock := fVerifyPowBlockIn\<rparr>) s else s
     | None \<Rightarrow> s)"

end
