(* ===== verification/ScheduleInv.thy ===== *)
theory ScheduleInv
  imports Schedule
begin

text \<open>
  The invariant of the inventory scheduler: the two indexes it keeps, from peers to what they
  announced and from announcements to the peers that made them, are inverse to each other; what is
  marked as requested from a peer is exactly what is assigned to it and not yet received; received
  objects have the kind their inventory vector names; the announced bounds hold. Every operation
  preserves it, so it holds in every reachable state of the step relation at the end.
\<close>

named_theorems sched_simps \<open>effects of the scheduler's primitive updates\<close>

section \<open>Effects of the primitive updates\<close>

abbreviation KL :: "CSchedule \<Rightarrow> uint64 \<Rightarrow> uint32 \<Rightarrow> uint256 list" where
  "KL s n ty \<equiv> GetKnownList (peer_at s n) ty"

abbreviation AL :: "CSchedule \<Rightarrow> uint64 \<Rightarrow> uint32 \<Rightarrow> uint256 list" where
  "AL s n ty \<equiv> GetAssigned (peer_at s n) ty"

abbreviation state_of :: "CSchedule \<Rightarrow> CInv \<rightharpoonup> CInvState" where
  "state_of s \<equiv> map_of (mapState s)"

lemma peer_at_upd_peer [sched_simps]: "peer_at (upd_peer n f s) m = (if m = n then f (peer_at s n) else peer_at s m)"
  by (simp add: peer_at_def upd_peer_def map_get_def)

lemma upd_peer_fields [sched_simps]:
  "mapState (upd_peer n f s) = mapState s" "mapHeightBlock (upd_peer n f s) = mapHeightBlock s"
  "mapKcPowBlock (upd_peer n f s) = mapKcPowBlock s" "ordered_keys (mapPeer s) \<Longrightarrow> ordered_keys (mapPeer (upd_peer n f s))"
  "setMissPrevTxInv (upd_peer n f s) = setMissPrevTxInv s"
  by (simp_all add: upd_peer_def)

lemma upd_state_fields [sched_simps]:
  "state_of (upd_state iv st s) = (state_of s)(iv \<mapsto> st)" "mapPeer (upd_state iv st s) = mapPeer s"
  "mapHeightBlock (upd_state iv st s) = mapHeightBlock s" "mapKcPowBlock (upd_state iv st s) = mapKcPowBlock s"
  "ordered_keys (mapState s) \<Longrightarrow> ordered_keys (mapState (upd_state iv st s))"
  "ordered_keys (mapState s) \<Longrightarrow>
    length (mapState (upd_state iv st s)) = (if state_of s iv = None then Suc (length (mapState s)) else length (mapState s))"
  "setMissPrevTxInv (upd_state iv st s) = setMissPrevTxInv s"
  by (simp_all add: upd_state_def length_map_set)

lemma peer_at_cong: "mapPeer s = mapPeer t \<Longrightarrow> peer_at s = peer_at t"
  by (rule ext) (simp add: peer_at_def)

lemma peer_at_upd_state [sched_simps]: "peer_at (upd_state iv st s) = peer_at s"
  by (rule peer_at_cong) (simp add: upd_state_fields)

lemma upd_known_lists [sched_simps]:
  "GetKnownList (upd_known t f p) ty = (if ty = t then listKnown (f (invKnown p (t - MSG_TX))) else GetKnownList p ty)"
  "GetAssigned (upd_known t f p) ty = (if ty = t then setAssigned (f (invKnown p (t - MSG_TX))) else GetAssigned p ty)"
  by (auto simp: upd_known_def GetKnownList_def GetAssigned_def)

lemma peer_null_lists [simp]: "GetKnownList CInvPeer_null ty = []" "GetAssigned CInvPeer_null ty = []"
  by (simp_all add: GetKnownList_def GetAssigned_def CInvPeer_null_def CInvPeerState_null_def)

lemma erase_repeat_lists [sched_simps]:
  "listKnown (erase_repeat h k) = listKnown k" "setAssigned (erase_repeat h k) = setAssigned k"
  by (simp_all add: erase_repeat_def Let_def split: option.split)

lemma peer_RemoveInv_lists [sched_simps]:
  "GetKnownList (peer_RemoveInv iv p) ty =
    (if ty = inv_nType iv then filter (\<lambda>h. h \<noteq> inv_nHash iv) (GetKnownList p ty) else GetKnownList p ty)"
  "GetAssigned (peer_RemoveInv iv p) ty =
    (if ty = inv_nType iv then set_erase (inv_nHash iv) (GetAssigned p ty) else GetAssigned p ty)"
  by (simp_all add: peer_RemoveInv_def upd_known_lists Let_def erase_repeat_lists)
    (simp_all add: upd_known_def GetKnownList_def GetAssigned_def)

lemma peer_update_lists [sched_simps]:
  "GetKnownList (peer_AddNewInv iv p) ty =
    (if ty = inv_nType iv then filter (\<lambda>h. h \<noteq> inv_nHash iv) (GetKnownList p ty) @ [inv_nHash iv] else GetKnownList p ty)"
  "GetAssigned (peer_AddNewInv iv p) ty = GetAssigned p ty"
  "GetKnownList (peer_Assign iv p) ty = GetKnownList p ty"
  "GetAssigned (peer_Assign iv p) ty =
    (if ty = inv_nType iv then set_insert (inv_nHash iv) (GetAssigned p ty) else GetAssigned p ty)"
  "GetKnownList (peer_Completed iv p) ty = GetKnownList p ty"
  "GetAssigned (peer_Completed iv p) ty =
    (if ty = inv_nType iv then set_erase (inv_nHash iv) (GetAssigned p ty) else GetAssigned p ty)"
  by (simp_all add: peer_AddNewInv_def peer_Assign_def peer_Completed_def upd_known_lists)
    (simp_all add: GetKnownList_def GetAssigned_def)

lemma peer_inert_lists [sched_simps]:
  "GetKnownList (peer_SetBlockLocatorDepth h p) ty = GetKnownList p ty"
  "GetAssigned (peer_SetBlockLocatorDepth h p) ty = GetAssigned p ty"
  "GetKnownList (peer_SetLocatorInvBlockHash k h h' p) ty = GetKnownList p ty"
  "GetAssigned (peer_SetLocatorInvBlockHash k h h' p) ty = GetAssigned p ty"
  "GetKnownList (peer_SetNextGetBlocksTime t w p) ty = GetKnownList p ty"
  "GetAssigned (peer_SetNextGetBlocksTime t w p) ty = GetAssigned p ty"
  "GetKnownList (snd (peer_AddRepeatBlock h p)) ty = GetKnownList p ty"
  "GetAssigned (snd (peer_AddRepeatBlock h p)) ty = GetAssigned p ty"
  by (simp_all add: peer_SetBlockLocatorDepth_def peer_SetLocatorInvBlockHash_def peer_SetNextGetBlocksTime_def
      peer_AddRepeatBlock_def upd_known_def GetKnownList_def GetAssigned_def Let_def)

lemma RemoveOrphan_fields [sched_simps]:
  "mapPeer (RemoveOrphan iv s) = mapPeer s" "mapState (RemoveOrphan iv s) = mapState s"
  "mapHeightBlock (RemoveOrphan iv s) = mapHeightBlock s" "mapKcPowBlock (RemoveOrphan iv s) = mapKcPowBlock s"
  "setMissPrevTxInv (RemoveOrphan iv s) = setMissPrevTxInv s"
  by (simp_all add: RemoveOrphan_def)

lemma RemoveHeightBlock_fields [sched_simps]:
  "mapPeer (RemoveHeightBlock k h s) = mapPeer s" "mapState (RemoveHeightBlock k h s) = mapState s"
  "mapKcPowBlock (RemoveHeightBlock k h s) = mapKcPowBlock s"
  "setMissPrevTxInv (RemoveHeightBlock k h s) = setMissPrevTxInv s"
  by (simp_all add: RemoveHeightBlock_def Let_def split: option.split)

lemma RemoveRefBlock_fields [sched_simps]:
  "mapPeer (RemoveRefBlock h s) = mapPeer s" "mapState (RemoveRefBlock h s) = mapState s"
  "mapHeightBlock (RemoveRefBlock h s) = mapHeightBlock s" "mapKcPowBlock (RemoveRefBlock h s) = mapKcPowBlock s"
  "setMissPrevTxInv (RemoveRefBlock h s) = setMissPrevTxInv s"
  by (simp_all add: RemoveRefBlock_def Let_def split: option.split)

lemma RemoveInvState_fields [sched_simps]:
  "mapPeer (RemoveInvState iv s) = mapPeer s" "mapState (RemoveInvState iv s) = map_erase iv (mapState s)"
  "mapKcPowBlock (RemoveInvState iv s) = mapKcPowBlock s"
  by (simp_all add: RemoveInvState_def Let_def sched_simps)

lemma peer_at_RemoveInvState [sched_simps]: "peer_at (RemoveInvState iv s) = peer_at s"
  by (rule peer_at_cong) (simp add: sched_simps)

text \<open>Removing an inventory vector from a list of peers.\<close>

lemma fold_RemoveInv_lists [sched_simps]:
  "KL (fold (\<lambda>n. upd_peer n (peer_RemoveInv iv)) ns s) m ty =
    (if m \<in> set ns \<and> ty = inv_nType iv then filter (\<lambda>h. h \<noteq> inv_nHash iv) (KL s m ty) else KL s m ty)"
  "AL (fold (\<lambda>n. upd_peer n (peer_RemoveInv iv)) ns s) m ty =
    (if m \<in> set ns \<and> ty = inv_nType iv then set_erase (inv_nHash iv) (AL s m ty) else AL s m ty)"
  by (induction ns arbitrary: s) (auto simp: sched_simps set_erase_def intro!: filter_cong)

lemma fold_RemoveInv_fields [sched_simps]:
  "mapState (fold (\<lambda>n. upd_peer n (peer_RemoveInv iv)) ns s) = mapState s"
  "mapHeightBlock (fold (\<lambda>n. upd_peer n (peer_RemoveInv iv)) ns s) = mapHeightBlock s"
  "mapKcPowBlock (fold (\<lambda>n. upd_peer n (peer_RemoveInv iv)) ns s) = mapKcPowBlock s"
  "ordered_keys (mapPeer s) \<Longrightarrow> ordered_keys (mapPeer (fold (\<lambda>n. upd_peer n (peer_RemoveInv iv)) ns s))"
  by (induction ns arbitrary: s) (simp_all add: sched_simps)

section \<open>The invariant\<close>

definition known_bound :: "uint32 \<Rightarrow> nat" where
  "known_bound ty = (if ty = MSG_TX then MAX_PEER_TX_INV_COUNT else MAX_PEER_BLOCK_INV_COUNT)"

definition object_ok :: "CInv \<Rightarrow> CInvObject \<Rightarrow> bool" where
  "object_ok iv obj =
    (case obj of CNil \<Rightarrow> True | ObjBlock b \<Rightarrow> inv_nType iv = MSG_BLOCK | ObjTx tx \<Rightarrow> inv_nType iv = MSG_TX)"

definition state_ok :: "CInv \<Rightarrow> CInvState \<Rightarrow> bool" where
  "state_ok iv st \<longleftrightarrow>
    inv_nType iv \<in> {MSG_TX, MSG_BLOCK} \<and> setKnownPeer st \<noteq> [] \<and> 0 \<notin> set (setKnownPeer st)
    \<and> (nAssigned st \<noteq> 0 \<longrightarrow> nAssigned st \<in> set (setKnownPeer st))
    \<and> (IsReceived st \<longrightarrow> nAssigned st \<noteq> 0) \<and> object_ok iv (objReceived st)"

definition knows :: "CSchedule \<Rightarrow> uint64 \<Rightarrow> CInv \<Rightarrow> bool" where
  "knows s n iv \<longleftrightarrow> inv_nHash iv \<in> set (KL s n (inv_nType iv))"

definition requested :: "CSchedule \<Rightarrow> uint64 \<Rightarrow> CInv \<Rightarrow> bool" where
  "requested s n iv \<longleftrightarrow> inv_nHash iv \<in> set (AL s n (inv_nType iv))"

definition maps_ok :: "CSchedule \<Rightarrow> bool" where
  "maps_ok s \<longleftrightarrow>
    ordered_keys (mapPeer s) \<and> ordered_keys (mapState s) \<and> length (mapState s) \<le> MAX_INV_COUNT
    \<and> (\<forall>n ty. distinct (KL s n ty) \<and> length (KL s n ty) \<le> known_bound ty)"

definition states_ok :: "CSchedule \<Rightarrow> bool" where
  "states_ok s \<longleftrightarrow> (\<forall>iv st. state_of s iv = Some st \<longrightarrow> state_ok iv st)"

text \<open>Both indexes, seen from peer \<open>n\<close>.\<close>

definition linked :: "CSchedule \<Rightarrow> uint64 \<Rightarrow> CInv \<Rightarrow> bool" where
  "linked s n iv \<longleftrightarrow>
    (knows s n iv \<longleftrightarrow> (\<exists>st. state_of s iv = Some st \<and> n \<in> set (setKnownPeer st)))
    \<and> (requested s n iv \<longleftrightarrow> (\<exists>st. state_of s iv = Some st \<and> nAssigned st = n \<and> n \<noteq> 0 \<and> \<not> IsReceived st))"

definition sched_ok :: "CSchedule \<Rightarrow> bool" where
  "sched_ok s \<longleftrightarrow> maps_ok s \<and> states_ok s \<and> (\<forall>n iv. linked s n iv)"

lemmas sched_ok_defs = sched_ok_def maps_ok_def states_ok_def linked_def knows_def requested_def

lemma sched_ok_null: "sched_ok CSchedule_null"
  by (simp add: sched_ok_defs CSchedule_null_def peer_at_def map_get_def)

lemma sched_ok_cong:
  "sched_ok s \<Longrightarrow> mapPeer t = mapPeer s \<Longrightarrow> mapState t = mapState s \<Longrightarrow> sched_ok t"
  using peer_at_cong [of t s] by (simp add: sched_ok_defs)

lemma sched_ok_stateD: "sched_ok s \<Longrightarrow> state_of s iv = Some st \<Longrightarrow> state_ok iv st"
  by (simp add: sched_ok_def states_ok_def)

lemma sched_ok_knows: "sched_ok s \<Longrightarrow> knows s n iv \<longleftrightarrow> (\<exists>st. state_of s iv = Some st \<and> n \<in> set (setKnownPeer st))"
  by (simp add: sched_ok_def linked_def)

lemma sched_ok_requested:
  "sched_ok s \<Longrightarrow> requested s n iv \<longleftrightarrow> (\<exists>st. state_of s iv = Some st \<and> nAssigned st = n \<and> n \<noteq> 0 \<and> \<not> IsReceived st)"
  by (simp add: sched_ok_def linked_def)

lemma IsReceived_CNil [simp]: "\<not> IsReceived (st\<lparr>objReceived := CNil\<rparr>)"
  by (simp add: IsReceived_def)

section \<open>Preservation: updates in place\<close>

lemma sched_ok_upd_peer_inert:
  assumes "sched_ok s" "\<And>ty. GetKnownList (f (peer_at s n)) ty = KL s n ty" "\<And>ty. GetAssigned (f (peer_at s n)) ty = AL s n ty"
  shows "sched_ok (upd_peer n f s)"
  using assms by (auto simp: sched_ok_defs sched_simps)

lemma sched_ok_upd_state_inert:
  assumes "sched_ok s" "state_of s iv = Some st" "setKnownPeer st' = setKnownPeer st" "nAssigned st' = nAssigned st"
    "objReceived st' = objReceived st"
  shows "sched_ok (upd_state iv st' s)"
  using assms by (auto simp: sched_ok_defs sched_simps state_ok_def IsReceived_def)

lemma sched_ok_assign:
  assumes "sched_ok s" "state_of s iv = Some st" "nAssigned st = 0" "knows s n iv"
  shows "sched_ok (assign_inv n iv st s)"
proof -
  have st: "state_ok iv st" "n \<in> set (setKnownPeer st)" "\<not> IsReceived st" "n \<noteq> 0"
    using assms sched_ok_stateD [OF assms(1,2)] sched_ok_knows [OF assms(1)] by (auto simp: state_ok_def)
  have "linked (assign_inv n iv st s) m jv" for m jv
  proof -
    have "linked s m jv" using assms(1) by (simp add: sched_ok_def)
    with assms(2,3) st show ?thesis
      by (cases "jv = iv"; cases "m = n"; cases iv; cases jv)
        (auto simp: linked_def knows_def requested_def assign_inv_def sched_simps IsReceived_def)
  qed
  moreover have "maps_ok (assign_inv n iv st s)"
    using assms(1,2) by (simp add: sched_ok_def maps_ok_def assign_inv_def sched_simps)
  moreover have "states_ok (assign_inv n iv st s)"
    using assms(1) st by (auto simp: sched_ok_def states_ok_def assign_inv_def sched_simps state_ok_def IsReceived_def)
  ultimately show ?thesis by (simp add: sched_ok_def)
qed

lemma sched_ok_receive:
  assumes "sched_ok s" "state_of s iv = Some st" "nAssigned st = n" "\<not> IsReceived st" "n \<noteq> 0"
    and "object_ok iv obj" "obj \<noteq> CNil"
  shows "sched_ok (upd_peer n (peer_Completed iv) (upd_state iv (received t obj st) s))"
    (is "sched_ok ?s")
proof -
  have st: "state_ok iv st" "state_ok iv (received t obj st)"
    using sched_ok_stateD [OF assms(1,2)] assms by (auto simp: state_ok_def received_def)
  have "linked ?s m jv" for m jv
  proof -
    have "linked s m jv" using assms(1) by (simp add: sched_ok_def)
    with assms st show ?thesis
      by (cases "jv = iv"; cases "m = n"; cases iv; cases jv)
        (auto simp: linked_def knows_def requested_def sched_simps IsReceived_def received_def)
  qed
  moreover have "maps_ok ?s"
    using assms(1,2) by (simp add: sched_ok_def maps_ok_def sched_simps)
  moreover have "states_ok ?s"
    using assms(1) st by (auto simp: sched_ok_def states_ok_def sched_simps)
  ultimately show ?thesis by (simp add: sched_ok_def)
qed

section \<open>Preservation: announcing and removing\<close>

lemma CheckAddInvIdleLocation_cases:
  assumes "CheckAddInvIdleLocation n ty s = (b, s1)"
  shows "s1 = s \<and> \<not> b \<or> s1 = upd_peer n (\<lambda>p. p) s \<and> length (mapState s) < MAX_INV_COUNT
      \<and> (b \<longleftrightarrow> length (KL s n ty) < known_bound ty)"
  using assms by (auto simp: CheckAddInvIdleLocation_def peer_GetCount_def known_bound_def split: if_splits)

lemma sched_ok_CheckAdd: "sched_ok s \<Longrightarrow> sched_ok (snd (CheckAddInvIdleLocation n ty s))"
  by (auto simp: CheckAddInvIdleLocation_def intro!: sched_ok_upd_peer_inert)

lemma length_filter_neq: "distinct xs \<Longrightarrow> length (filter (\<lambda>h. h \<noteq> x) xs @ [x]) = (if x \<in> set xs then length xs else Suc (length xs))"
  by (induction xs) (auto simp: filter_id_conv)

lemma sched_ok_announce:
  assumes ok: "sched_ok s" and ty: "inv_nType iv \<in> {MSG_TX, MSG_BLOCK}" and n: "n \<noteq> 0"
    and room: "length (mapState s) < MAX_INV_COUNT" "length (KL s n (inv_nType iv)) < known_bound (inv_nType iv)"
    and st: "st = map_get CInvState_null (mapState s) iv"
      "setKnownPeer st' = set_insert n (setKnownPeer st)" "nAssigned st' = nAssigned st" "objReceived st' = objReceived st"
  shows "sched_ok (upd_peer n (peer_AddNewInv iv) (upd_state iv st' s))" (is "sched_ok ?s")
proof -
  have st0: "state_of s iv = Some st \<or> state_of s iv = None \<and> st = CInvState_null"
    using st(1) by (auto simp: map_get_def split: option.splits)
  have "state_ok iv st'"
    using st0 sched_ok_stateD [OF ok, of iv st] ty n st(2-4)
    by (auto simp: state_ok_def IsReceived_def CInvState_null_def object_ok_def)
      (metis list.set_intros(1) set_set_insert empty_iff empty_set insert_not_empty)+
  then have "states_ok ?s"
    using ok by (auto simp: sched_ok_def states_ok_def sched_simps)
  moreover have "linked ?s m jv" for m jv
  proof -
    have "linked s m jv" using ok by (simp add: sched_ok_def)
    with st0 st show ?thesis
      by (cases "jv = iv"; cases "m = n"; cases iv; cases jv)
        (auto simp: linked_def knows_def requested_def sched_simps IsReceived_def CInvState_null_def)
  qed
  moreover have "maps_ok ?s"
  proof -
    have "maps_ok s" using ok by (simp add: sched_ok_def)
    moreover from this have "length (filter (\<lambda>h. h \<noteq> inv_nHash iv) (KL s n (inv_nType iv)) @ [inv_nHash iv]) \<le> known_bound (inv_nType iv)"
      using room(2) by (subst length_filter_neq) (auto simp: maps_ok_def)
    ultimately show ?thesis
      using room(1) by (auto simp: maps_ok_def sched_simps)
  qed
  ultimately show ?thesis by (simp add: sched_ok_def)
qed

lemma sched_ok_AddNewInv:
  assumes "sched_ok s" "inv_nType iv \<in> {MSG_TX, MSG_BLOCK}" "n \<noteq> 0"
  shows "sched_ok (snd (AddNewInv t iv n s))"
proof -
  obtain b s1 where c: "CheckAddInvIdleLocation n (inv_nType iv) s = (b, s1)" by fastforce
  have s1: "sched_ok s1"
    using sched_ok_CheckAdd [OF assms(1), of n "inv_nType iv"] by (simp add: c)
  show ?thesis
  proof (cases b)
    case True
    with CheckAddInvIdleLocation_cases [OF c] have
      "s1 = upd_peer n (\<lambda>p. p) s" "length (mapState s) < MAX_INV_COUNT" "length (KL s n (inv_nType iv)) < known_bound (inv_nType iv)"
      by auto
    then have "length (mapState s1) < MAX_INV_COUNT" "length (KL s1 n (inv_nType iv)) < known_bound (inv_nType iv)"
      by (simp_all add: sched_simps)
    with True c show ?thesis
      by (simp add: AddNewInv_def Let_def sched_ok_announce [OF s1 assms(2,3) _ _ refl])
  next
    case False
    with c s1 show ?thesis by (simp add: AddNewInv_def)
  qed
qed

lemma sched_ok_forget:
  assumes ok: "sched_ok s" and st: "state_of s iv = Some st"
  shows "sched_ok (RemoveInvState iv (fold (\<lambda>n. upd_peer n (peer_RemoveInv iv)) (setKnownPeer st) s))"
    (is "sched_ok ?s")
proof -
  have "linked ?s m jv" for m jv
  proof -
    have "linked s m jv" using ok by (simp add: sched_ok_def)
    with st sched_ok_stateD [OF ok st] show ?thesis
      by (cases "jv = iv"; cases "m \<in> set (setKnownPeer st)"; cases iv; cases jv)
        (auto simp: linked_def knows_def requested_def sched_simps state_ok_def)
  qed
  moreover have "maps_ok ?s"
  proof -
    have m: "maps_ok s" using ok by (simp add: sched_ok_def)
    then have "length (filter (\<lambda>h. h \<noteq> inv_nHash iv) (KL s n ty)) \<le> known_bound ty" for n ty
      by (meson length_filter_le le_trans maps_ok_def)
    with m show ?thesis
      using length_map_erase_le [of iv "mapState s"] by (auto simp: maps_ok_def sched_simps intro: le_trans)
  qed
  moreover have "states_ok ?s"
    using ok by (simp add: sched_ok_def states_ok_def sched_simps)
  ultimately show ?thesis by (simp add: sched_ok_def)
qed

lemma sched_ok_RemoveInv: "sched_ok s \<Longrightarrow> sched_ok (snd (snd (RemoveInv iv ps s)))"
  by (auto simp: RemoveInv_def Let_def intro: sched_ok_forget split: option.split)

lemma state_of_RemoveInv: "state_of (snd (snd (RemoveInv iv ps s))) = (state_of s)(iv := None)"
  by (auto simp: RemoveInv_def Let_def sched_simps split: option.split)

lemma sched_ok_RemoveInvs: "sched_ok (snd x) \<Longrightarrow> sched_ok (snd (RemoveInvs ty hs x))"
  unfolding RemoveInvs_def
  by (induction hs arbitrary: x) (simp_all add: case_prod_unfold sched_ok_RemoveInv)

lemma sched_ok_orphans:
  "sched_ok s \<Longrightarrow> sched_ok (s\<lparr>orphanBlock := m\<rparr>)" "sched_ok s \<Longrightarrow> sched_ok (s\<lparr>orphanTx := m\<rparr>)"
  by (erule sched_ok_cong; simp)+

lemma sched_ok_Invalidate:
  assumes "sched_ok s"
  shows "sched_ok (snd (InvalidateBlock h ps s))" "sched_ok (snd (InvalidateTx h ps s))"
  unfolding InvalidateBlock_def InvalidateTx_def case_prod_unfold
  by (intro sched_ok_RemoveInv sched_ok_RemoveInvs; simp add: sched_ok_orphans assms)+

section \<open>Preservation: a peer leaves\<close>

text \<open>While the loop of \<^verbatim>\<open>RemovePeer\<close> runs, the entries still to be visited are exactly those that list the
  peer; all other links are intact.\<close>

definition leaving :: "uint64 \<Rightarrow> CInv list \<Rightarrow> CSchedule \<Rightarrow> bool" where
  "leaving n ivs s \<longleftrightarrow>
    maps_ok s \<and> states_ok s \<and> (\<forall>m iv. m \<noteq> n \<longrightarrow> linked s m iv)
    \<and> (\<forall>iv. iv \<in> set ivs \<longleftrightarrow> (\<exists>st. state_of s iv = Some st \<and> n \<in> set (setKnownPeer st)))"

lemma linked_other_state:
  assumes "linked s m jv" "jv = iv \<Longrightarrow> state_of s iv = Some st \<and> (m \<in> set (setKnownPeer st') \<longleftrightarrow> m \<in> set (setKnownPeer st))
    \<and> (nAssigned st' = m \<and> m \<noteq> 0 \<and> \<not> IsReceived st' \<longleftrightarrow> nAssigned st = m \<and> m \<noteq> 0 \<and> \<not> IsReceived st)"
  shows "linked (upd_state iv st' s) m jv"
  using assms by (cases "jv = iv") (auto simp: linked_def knows_def requested_def sched_simps)

lemma linked_erased:
  assumes "linked s m jv" "jv = iv \<Longrightarrow> state_of s iv = Some st \<and> m \<notin> set (setKnownPeer st)" "states_ok s"
  shows "linked (RemoveInvState iv (upd_state iv st' s)) m jv"
  using assms by (cases "jv = iv") (auto simp: linked_def knows_def requested_def sched_simps states_ok_def state_ok_def)

lemma map_set_twice: "map_set k b (map_set k a m) = map_set k b m"
  by (induction k a m rule: map_set.induct) auto

lemma upd_state_twice: "upd_state iv b (upd_state iv a s) = upd_state iv b s"
  by (simp add: upd_state_def map_set_twice)

lemma leaving_step:
  assumes l: "leaving n (iv # ivs) s" and d: "iv \<notin> set ivs"
  shows "leaving n ivs (fst (RemovePeer_step n iv (s, ps)))"
proof -
  obtain st where st: "state_of s iv = Some st" "n \<in> set (setKnownPeer st)" "state_ok iv st"
    using l unfolding leaving_def states_ok_def by (metis list.set_intros(1))
  let ?st = "st\<lparr>setKnownPeer := set_erase n (setKnownPeer st)\<rparr>"
  have n0: "n \<noteq> 0" using st by (auto simp: state_ok_def)
  have links: "\<And>m jv. m \<noteq> n \<Longrightarrow> linked s m jv" and ok: "maps_ok s" "states_ok s"
    using l by (auto simp: leaving_def)
  have rest: "jv \<in> set ivs \<longleftrightarrow> jv \<noteq> iv \<and> (\<exists>st. state_of s jv = Some st \<and> n \<in> set (setKnownPeer st))" for jv
    using l d by (auto simp: leaving_def)
  show ?thesis
  proof (cases "setKnownPeer ?st = []")
    case True
    then have "m \<noteq> n \<Longrightarrow> m \<notin> set (setKnownPeer st)" for m
      by (auto simp: set_erase_def filter_empty_conv)
    then have "m \<noteq> n \<Longrightarrow> linked (RemoveInvState iv (upd_state iv ?st s)) m jv" for m jv
      using links [of m jv] st(1) ok(2) by (auto intro: linked_erased)
    moreover have "maps_ok (RemoveInvState iv (upd_state iv ?st s))"
      using ok(1) st(1) length_map_erase_le [of iv "mapState (upd_state iv ?st s)"]
      by (auto simp: maps_ok_def sched_simps)
    moreover have "RemovePeer_step n iv (s, ps) = (RemoveInvState iv (upd_state iv ?st s), ps)"
      using True st(1) by (simp add: RemovePeer_step_def)
    ultimately show ?thesis
      using ok rest by (auto simp: leaving_def sched_simps states_ok_def)
  next
    case False
    define st1 where "st1 = (if nAssigned st = n then ?st\<lparr>nAssigned := 0, objReceived := CNil\<rparr> else ?st)"
    have step: "fst (RemovePeer_step n iv (s, ps)) = upd_state iv st1 s"
      using False st(1) by (simp add: RemovePeer_step_def st1_def upd_state_twice)
    have "m \<noteq> n \<Longrightarrow> linked (upd_state iv st1 s) m jv" for m jv
      using links [of m jv] st(1) by (auto intro!: linked_other_state [where st = st] simp: st1_def IsReceived_def)
    moreover have "state_ok iv st1"
      using st False n0 by (auto simp: state_ok_def st1_def IsReceived_def object_ok_def)
    moreover have "n \<notin> set (setKnownPeer st1)" by (simp add: st1_def)
    ultimately show ?thesis
      unfolding step using ok rest st(1) by (auto simp: leaving_def sched_simps states_ok_def maps_ok_def)
  qed
qed

lemma leaving_fold:
  "leaving n ivs s \<Longrightarrow> distinct ivs \<Longrightarrow> leaving n [] (fst (fold (RemovePeer_step n) ivs (s, ps)))"
proof (induction ivs arbitrary: s ps)
  case (Cons iv ivs)
  obtain s1 ps1 where r: "RemovePeer_step n iv (s, ps) = (s1, ps1)" by fastforce
  with Cons leaving_step [of n iv ivs s ps] show ?case by simp
qed simp

lemma set_GetKnownInv:
  "iv \<in> set (GetKnownInv p) \<longleftrightarrow> inv_nType iv \<in> {MSG_TX, MSG_BLOCK} \<and> inv_nHash iv \<in> set (GetKnownList p (inv_nType iv))"
  by (cases iv) (auto simp: GetKnownInv_def GetKnownList_def MSG_TX_def MSG_BLOCK_def)

lemma distinct_GetKnownInv:
  "(\<And>ty. distinct (GetKnownList p ty)) \<Longrightarrow> distinct (GetKnownInv p)"
  unfolding GetKnownInv_def GetKnownList_def
  by (auto simp: distinct_map inj_on_def MSG_TX_def MSG_BLOCK_def dest: meta_spec [of _ 1] meta_spec [of _ 2])

lemma sched_ok_leaving:
  assumes ok: "sched_ok s" and p: "map_of (mapPeer s) n = Some p"
  shows "leaving n (GetKnownInv p) s"
proof -
  have "p = peer_at s n" using p by (simp add: peer_at_def map_get_def)
  then have "iv \<in> set (GetKnownInv p) \<longleftrightarrow> inv_nType iv \<in> {MSG_TX, MSG_BLOCK} \<and> knows s n iv" for iv
    by (simp add: set_GetKnownInv knows_def)
  with ok sched_ok_stateD [OF ok] show ?thesis
    by (auto simp: leaving_def sched_ok_def linked_def state_ok_def)
qed

lemma sched_ok_left:
  assumes "leaving n [] s"
  shows "sched_ok (s\<lparr>mapPeer := map_erase n (mapPeer s)\<rparr>)" (is "sched_ok ?s")
proof -
  have p: "peer_at ?s m = (if m = n then CInvPeer_null else peer_at s m)" for m
    by (simp add: peer_at_def map_get_def)
  have "linked ?s m iv" for m iv
  proof (cases "m = n")
    case True
    have "n \<notin> set (setKnownPeer st) \<and> (nAssigned st = n \<longrightarrow> n = 0)" if "state_of s iv = Some st" for st
      using assms that unfolding leaving_def states_ok_def state_ok_def by (metis empty_iff empty_set)
    with True p show ?thesis
      by (auto simp: linked_def knows_def requested_def)
  next
    case False
    with assms have "linked s m iv" by (simp add: leaving_def)
    with False p show ?thesis by (simp add: linked_def knows_def requested_def)
  qed
  with assms p show ?thesis
    by (simp add: leaving_def sched_ok_def maps_ok_def states_ok_def known_bound_def)
qed

lemma sched_ok_RemovePeer:
  assumes ok: "sched_ok s"
  shows "sched_ok (fst (RemovePeer n ps s))"
proof (cases "map_of (mapPeer s) n")
  case (Some p)
  have "distinct (GetKnownInv p)"
    using ok Some by (intro distinct_GetKnownInv) (auto simp: sched_ok_def maps_ok_def peer_at_def map_get_def dest: spec [of _ n])
  from sched_ok_left [OF leaving_fold [OF sched_ok_leaving [OF ok Some] this]] Some show ?thesis
    by (simp add: RemovePeer_def case_prod_unfold)
qed (use ok in \<open>simp add: RemovePeer_def\<close>)

lemma sched_ok_Cancel:
  assumes ok: "sched_ok s" and n: "n \<noteq> 0"
  shows "sched_ok (snd (CancelAssignedInv n iv s))"
proof (cases "state_of s iv")
  case (Some st)
  show ?thesis
  proof (cases "nAssigned st = n \<and> \<not> IsReceived st")
    case True
    let ?st = "st\<lparr>nAssigned := 0, setKnownPeer := set_erase n (setKnownPeer st)\<rparr>"
    let ?s = "if setKnownPeer ?st = [] then RemoveInvState iv (upd_state iv ?st s) else upd_state iv ?st s"
    have st: "state_ok iv st" using sched_ok_stateD [OF ok Some] .
    then have "n \<in> set (setKnownPeer st)" using True n by (auto simp: state_ok_def)
    then have kn: "knows s n iv" using sched_ok_knows [OF ok] Some by auto
    then have "map_of (mapPeer s) n \<noteq> None"
      by (auto simp: knows_def peer_at_def map_get_def split: option.splits)
    then have "map_of (mapPeer ?s) n \<noteq> None" by (simp add: sched_simps)
    then have eq: "snd (CancelAssignedInv n iv s) = upd_peer n (peer_RemoveInv iv) ?s"
      using Some True by (auto simp: CancelAssignedInv_def Let_def split: option.splits)
    have "linked (upd_peer n (peer_RemoveInv iv) ?s) m jv" for m jv
    proof -
      have "linked s m jv" using ok by (simp add: sched_ok_def)
      with True Some n show ?thesis
        by (cases "jv = iv"; cases "m = n"; cases iv; cases jv)
          (auto simp: linked_def knows_def requested_def sched_simps IsReceived_def set_erase_def filter_empty_conv)
    qed
    moreover have "maps_ok (upd_peer n (peer_RemoveInv iv) ?s)"
    proof -
      have m: "maps_ok s" using ok by (simp add: sched_ok_def)
      then have "length (filter (\<lambda>h. h \<noteq> inv_nHash iv) (KL s n ty)) \<le> known_bound ty" for n ty
        by (meson length_filter_le le_trans maps_ok_def)
      with m Some show ?thesis
        using length_map_erase_le [of iv "mapState (upd_state iv ?st s)"]
        by (auto simp: maps_ok_def sched_simps intro: le_trans)
    qed
    moreover have "states_ok (upd_peer n (peer_RemoveInv iv) ?s)"
      using ok st True by (auto simp: sched_ok_def states_ok_def sched_simps state_ok_def IsReceived_def)
    ultimately show ?thesis unfolding eq by (simp add: sched_ok_def)
  next
    case False
    with ok Some show ?thesis by (auto simp: CancelAssignedInv_def)
  qed
qed (use ok in \<open>simp add: CancelAssignedInv_def\<close>)

section \<open>Preservation: scheduling\<close>

lemma knows_assign: "knows (assign_inv n iv st s) m jv \<longleftrightarrow> knows s m jv"
  by (simp add: knows_def assign_inv_def sched_simps)

lemma state_of_assign: "state_of s iv = Some st \<Longrightarrow> state_of (assign_inv n iv st s) jv = None \<longleftrightarrow> state_of s jv = None"
  by (auto simp: assign_inv_def sched_simps)

lemma sched_ok_MissPrev_loop:
  "sched_ok s \<Longrightarrow> sched_ok (snd (snd (MissPrev_loop n t mx ivs v rm s)))"
proof (induction n t mx ivs v rm s rule: MissPrev_loop.induct)
  case (2 n t mx iv mt v rm s)
  show ?case
  proof (cases "state_of s iv")
    case None
    moreover have "sched_ok (s\<lparr>setMissPrevTxInv := set_erase iv (setMissPrevTxInv s)\<rparr>)"
      using 2(5) by (rule sched_ok_cong) simp_all
    ultimately show ?thesis using 2(1) by simp
  next
    case (Some st)
    have "nAssigned st = 0 \<and> KnownInvExists (peer_at s n) iv \<Longrightarrow> sched_ok (assign_inv n iv st s)"
      using sched_ok_assign [OF 2(5) Some] by (simp add: knows_def KnownInvExists_def)
    with Some 2(2-5) show ?thesis by (simp add: Let_def)
  qed
qed simp

lemma KnownInv_loop_ok:
  assumes "KnownInv_loop n t mx ty hs v rm rmp k s = (v', rm', rmp', k', s')" "sched_ok s"
    "\<forall>h \<in> set hs. knows s n (CInv ty h)" "\<forall>iv \<in> set rmp. state_of s iv = None"
  shows "sched_ok s' \<and> (\<forall>iv \<in> set rmp'. state_of s' iv = None)"
  using assms
proof (induction n t mx ty hs v rm rmp k s rule: KnownInv_loop.induct)
  case (2 n t mx ty h hs v rm rmp k s)
  let ?iv = "CInv ty h"
  obtain st where st: "state_of s ?iv = Some st"
    using 2(8,9) sched_ok_knows [OF 2(8)] by auto
  show ?case
  proof (cases "nAssigned st = 0 \<and> \<not> inv_timeout t st")
    case True
    let ?s = "assign_inv n ?iv st s"
    have "sched_ok ?s" using 2(9) st True by (intro sched_ok_assign [OF 2(8)]) auto
    moreover have "\<forall>h \<in> set hs. knows ?s n (CInv ty h)" "\<forall>iv \<in> set rmp. state_of ?s iv = None"
      using 2(9,10) st by (auto simp: knows_assign state_of_assign)
    ultimately show ?thesis
      using 2(3) [OF refl st _ _ refl refl] 2(7) True st by (auto simp: Let_def split: if_splits)
  next
    case False
    then show ?thesis
      using 2(2,4-6) [OF refl st] 2(7-10) st by (auto simp: Let_def split: if_splits)
  qed
qed simp

lemma sched_ok_fold_RemoveInv:
  "sched_ok s \<Longrightarrow> sched_ok (fold (\<lambda>iv s. snd (snd (RemoveInv iv [] s))) ivs s)
    \<and> (\<forall>iv. state_of s iv = None \<longrightarrow> state_of (fold (\<lambda>iv s. snd (snd (RemoveInv iv [] s))) ivs s) iv = None)"
  by (induction ivs arbitrary: s) (auto simp: sched_ok_RemoveInv state_of_RemoveInv)

lemma sched_ok_unknown:
  assumes "sched_ok s" "state_of s iv = None"
  shows "sched_ok (upd_peer n (peer_RemoveInv iv) s)"
proof -
  have "\<not> knows s n iv" "\<not> requested s n iv"
    using assms sched_ok_knows sched_ok_requested by auto
  then have "filter (\<lambda>h. h \<noteq> inv_nHash iv) (KL s n (inv_nType iv)) = KL s n (inv_nType iv)"
    "set_erase (inv_nHash iv) (AL s n (inv_nType iv)) = AL s n (inv_nType iv)"
    by (auto simp: knows_def requested_def set_erase_def filter_id_conv)
  then show ?thesis
    using assms(1) by (intro sched_ok_upd_peer_inert) (auto simp: sched_simps)
qed

lemma sched_ok_fold_unknown:
  "sched_ok s \<Longrightarrow> \<forall>iv \<in> set ivs. state_of s iv = None \<Longrightarrow> sched_ok (fold (\<lambda>iv. upd_peer n (peer_RemoveInv iv)) ivs s)"
  by (induction ivs arbitrary: s) (simp_all add: sched_ok_unknown sched_simps)

lemma sched_ok_ScheduleKnownInv:
  assumes ok: "sched_ok s"
  shows "sched_ok (snd (ScheduleKnownInv t n ty mx s))"
proof -
  obtain v1 rm1 s1 where 1: "(if ty = MSG_TX \<and> setMissPrevTxInv s \<noteq> [] then MissPrev_loop n t mx (setMissPrevTxInv s) [] [] s
      else ([], [], s)) = (v1, rm1, s1)"
    by (metis prod_cases3)
  then have s1: "sched_ok s1"
    using ok sched_ok_MissPrev_loop [OF ok, of n t mx "setMissPrevTxInv s" "[]" "[]"] by (auto split: if_splits)
  obtain v rm rmp k s2 where 2: "(if length v1 < mx then KnownInv_loop n t mx ty (KL s1 n ty) v1 rm1 [] 0 s1
      else (v1, rm1, [], 0, s1)) = (v, rm, rmp, k, s2)"
    by (metis prod_cases5)
  then have s2: "sched_ok s2" "\<forall>iv \<in> set rmp. state_of s2 iv = None"
    using s1 KnownInv_loop_ok [of n t mx ty "KL s1 n ty" v1 rm1 "[]" 0 s1 v rm rmp k s2]
    by (auto simp: knows_def split: if_splits)
  let ?s3 = "fold (\<lambda>iv s. snd (snd (RemoveInv iv [] s))) rm s2"
  have "sched_ok ?s3" "\<forall>iv \<in> set rmp. state_of ?s3 iv = None"
    using sched_ok_fold_RemoveInv [OF s2(1), of rm] s2(2) by auto
  from sched_ok_fold_unknown [OF this] show ?thesis
    unfolding ScheduleKnownInv_def 1 2 by (simp add: 2 Let_def)
qed

lemma sched_ok_ScheduleBlockInv: "sched_ok s \<Longrightarrow> sched_ok (snd (ScheduleBlockInv t n v mx s))"
  using sched_ok_ScheduleKnownInv [of s t n MSG_BLOCK mx]
  by (auto simp: ScheduleBlockInv_def Let_def case_prod_unfold sched_ok_CheckAdd split: option.split)

lemma sched_ok_ScheduleTxInv: "sched_ok s \<Longrightarrow> sched_ok (snd (ScheduleTxInv t n v mx f s))"
  using sched_ok_ScheduleKnownInv [of s t n MSG_TX mx]
  by (auto simp: ScheduleTxInv_def Let_def case_prod_unfold split: option.split)

section \<open>Preservation: the remaining operations\<close>

lemma sched_ok_Receive:
  assumes "sched_ok s" "n \<noteq> 0"
  shows "sched_ok (snd (snd (ReceiveBlock t n h b ps s)))" "sched_ok (snd (snd (ReceiveTx t n h tx ps s)))"
proof -
  show "sched_ok (snd (snd (ReceiveTx t n h tx ps s)))"
    using sched_ok_receive [OF assms(1), of "CInv MSG_TX h" _ n "ObjTx tx" t] assms
    by (auto simp: ReceiveTx_def Let_def object_ok_def intro: sched_ok_cong split: option.split)
  show "sched_ok (snd (snd (ReceiveBlock t n h b ps s)))"
    using sched_ok_receive [OF assms(1), of "CInv MSG_BLOCK h" _ n "ObjBlock b" t] assms
    by (auto simp: ReceiveBlock_def Let_def object_ok_def intro: sched_ok_cong split: option.split)
qed

lemma sched_ok_inert:
  assumes "sched_ok s"
  shows "sched_ok (snd (CheckPrevTxInv iv s))" "sched_ok (AddOrphanBlockPrev h h' s)" "sched_ok (AddOrphanTxPrev h h' s)"
    "sched_ok (SetLocatorDepthHash n h s)" "sched_ok (SetLocatorInvBlockHash n k h h' s)"
    "sched_ok (SetNextGetBlocksTime t n w s)" "sched_ok (snd (SetRepeatBlock t n h s))" "sched_ok (AddRefBlock h h' h'' s)"
    "sched_ok (snd (SetDelayedClear t iv w s))" "sched_ok (SetPowBlockVerifyState h f s)"
    "sched_ok (RemoveRefBlock h s)" "sched_ok (RemoveHeightBlock k h s)"
proof -
  note cong = sched_ok_cong [OF assms]
  note st = sched_ok_upd_state_inert [OF assms]
  show "sched_ok (snd (CheckPrevTxInv iv s))" "sched_ok (AddOrphanBlockPrev h h' s)" "sched_ok (AddOrphanTxPrev h h' s)"
    "sched_ok (RemoveRefBlock h s)" "sched_ok (RemoveHeightBlock k h s)"
    by (auto simp: CheckPrevTxInv_def AddOrphanBlockPrev_def AddOrphanTxPrev_def sched_simps assms intro!: cong split: option.split)
  show "sched_ok (SetLocatorDepthHash n h s)" "sched_ok (SetLocatorInvBlockHash n k h h' s)"
    "sched_ok (SetNextGetBlocksTime t n w s)"
    unfolding SetLocatorDepthHash_def SetLocatorInvBlockHash_def SetNextGetBlocksTime_def
    by (auto intro!: sched_ok_upd_peer_inert assms simp: sched_simps)
  show "sched_ok (snd (SetRepeatBlock t n h s))"
    unfolding SetRepeatBlock_def Let_def snd_conv
    by (rule sched_ok_upd_peer_inert) (auto intro: assms st simp: sched_simps split: option.split)
  show "sched_ok (snd (SetDelayedClear t iv w s))" "sched_ok (SetPowBlockVerifyState h f s)"
    by (auto simp: SetDelayedClear_def SetPowBlockVerifyState_def assms intro: st split: option.split)
  have "sched_ok (s\<lparr>mapRefBlock := m\<rparr>)" for m
    by (rule cong) simp_all
  then show "sched_ok (AddRefBlock h h' h'' s)"
    by (auto simp: AddRefBlock_def Let_def assms intro: sched_ok_upd_state_inert split: option.split)
qed

lemma DropOldLocal_loop_maps:
  "mapPeer (DropOldLocal_loop H k m s) = mapPeer s" "mapState (DropOldLocal_loop H k m s) = mapState s"
  by (induction H k m s rule: DropOldLocal_loop.induct) (simp_all add: Let_def sched_simps)

lemma sched_ok_cache:
  assumes "sched_ok s"
  shows "sched_ok (snd (snd (AddCacheLocalPowBlock H b s)))" "sched_ok (RemoveCacheLocalPowBlock H h s)"
  using assms
  by (auto simp: AddCacheLocalPowBlock_def RemoveCacheLocalPowBlock_def Let_def DropOldLocal_loop_maps sched_simps
      intro: sched_ok_cong split: option.split)
end
