(* ===== verification/ScheduleCache.thy ===== *)
theory ScheduleCache
  imports ScheduleInv
begin

text \<open>
  The proof-of-work cache of the scheduler: every hash listed under a height has that height, a
  hash received from a peer still has its inventory entry, and a hash of the local miner is the
  hash of the cached local block. The step relation of the scheduler, one rule for each operation
  that changes the state, and the invariants of every reachable state.
\<close>

section \<open>The cache invariant\<close>

definition cached_ok :: "(bytes \<Rightarrow> uint256) \<Rightarrow> CSchedule \<Rightarrow> int \<Rightarrow> uint256 \<times> int \<Rightarrow> bool" where
  "cached_ok H s k c \<longleftrightarrow>
    k = sint (GetBlockHeightByHash (fst c))
    \<and> (if snd c = CACHE_POW_BLOCK_TYPE_REMOTE then state_of s (CInv MSG_BLOCK (fst c)) \<noteq> None
       else \<exists>b. map_of (mapKcPowBlock s) k = Some b \<and> block_GetHash H b = fst c)"

definition cache_ok :: "(bytes \<Rightarrow> uint256) \<Rightarrow> CSchedule \<Rightarrow> bool" where
  "cache_ok H s \<longleftrightarrow>
    ordered_keys (mapHeightBlock s) \<and> ordered_keys (mapKcPowBlock s)
    \<and> (\<forall>k v. map_of (mapHeightBlock s) k = Some v \<longrightarrow> v \<noteq> [] \<and> (\<forall>c \<in> set v. cached_ok H s k c))
    \<and> (\<forall>k b. map_of (mapKcPowBlock s) k = Some b \<longrightarrow> k = sint (GetBlockHeight b))"

lemma cache_ok_null: "cache_ok H CSchedule_null"
  by (simp add: cache_ok_def CSchedule_null_def)

lemma RemoveHeightBlock_loop_filter:
  "RemoveHeightBlock_loop h (length v) (v @ w) = filter (\<lambda>c. fst c \<noteq> h) v @ w"
proof (induction v arbitrary: w rule: rev_induct)
  case (snoc x v)
  show ?case
    using snoc [of w] snoc [of "x # w"] by (simp add: nth_append)
qed simp

lemma map_of_RemoveHeightBlock:
  "map_of (mapHeightBlock (RemoveHeightBlock k h s)) j =
    (if j = k then (case map_of (mapHeightBlock s) k of
        None \<Rightarrow> None
      | Some v \<Rightarrow> if filter (\<lambda>c. fst c \<noteq> h) v = [] then None else Some (filter (\<lambda>c. fst c \<noteq> h) v))
     else map_of (mapHeightBlock s) j)"
  using RemoveHeightBlock_loop_filter [of h _ "[]"]
  by (auto simp: RemoveHeightBlock_def Let_def split: option.split)

lemma ordered_RemoveHeightBlock:
  "ordered_keys (mapHeightBlock s) \<Longrightarrow> ordered_keys (mapHeightBlock (RemoveHeightBlock k h s))"
  by (auto simp: RemoveHeightBlock_def Let_def split: option.split)

text \<open>Removing cached hashes keeps the invariant when what stays is still backed.\<close>

lemma cache_ok_shrink:
  assumes "cache_ok H s" "ordered_keys (mapHeightBlock t)" "ordered_keys (mapKcPowBlock t)"
    and "\<And>k v. map_of (mapHeightBlock t) k = Some v \<Longrightarrow>
      v \<noteq> [] \<and> (\<exists>w. map_of (mapHeightBlock s) k = Some w \<and> set v \<subseteq> set w)"
    and "\<And>k v c. map_of (mapHeightBlock t) k = Some v \<Longrightarrow> c \<in> set v \<Longrightarrow> cached_ok H s k c \<Longrightarrow> cached_ok H t k c"
    and "\<And>k b. map_of (mapKcPowBlock t) k = Some b \<Longrightarrow> map_of (mapKcPowBlock s) k = Some b"
  shows "cache_ok H t"
  unfolding cache_ok_def
proof (intro conjI allI impI ballI)
  fix k v c
  assume v: "map_of (mapHeightBlock t) k = Some v" and c: "c \<in> set v"
  from assms(4) [OF v] obtain w where "map_of (mapHeightBlock s) k = Some w" "set v \<subseteq> set w" by blast
  with assms(1) c have "cached_ok H s k c" by (auto simp: cache_ok_def)
  then show "cached_ok H t k c" by (rule assms(5) [OF v c])
qed (use assms in \<open>auto simp: cache_ok_def\<close>)

lemma cache_ok_cong:
  assumes "cache_ok H s" "mapHeightBlock t = mapHeightBlock s" "mapKcPowBlock t = mapKcPowBlock s"
    "\<And>h. state_of s (CInv MSG_BLOCK h) \<noteq> None \<Longrightarrow> state_of t (CInv MSG_BLOCK h) \<noteq> None"
  shows "cache_ok H t"
  using assms by (intro cache_ok_shrink [OF assms(1)]) (auto simp: cache_ok_def cached_ok_def split: if_splits)

lemma cache_ok_upd_peer: "cache_ok H s \<Longrightarrow> cache_ok H (upd_peer n f s)"
  by (erule cache_ok_cong) (simp_all add: sched_simps)

lemma cache_ok_upd_state: "cache_ok H s \<Longrightarrow> cache_ok H (upd_state iv st s)"
  by (erule cache_ok_cong) (simp_all add: sched_simps)

lemma cache_ok_RemoveHeightBlock:
  assumes "cache_ok H s"
  shows "cache_ok H (RemoveHeightBlock k h s)"
proof (rule cache_ok_shrink [OF assms])
  show "ordered_keys (mapHeightBlock (RemoveHeightBlock k h s))" "ordered_keys (mapKcPowBlock (RemoveHeightBlock k h s))"
    using assms by (simp_all add: cache_ok_def ordered_RemoveHeightBlock sched_simps)
  show "v \<noteq> [] \<and> (\<exists>w. map_of (mapHeightBlock s) j = Some w \<and> set v \<subseteq> set w)"
    if "map_of (mapHeightBlock (RemoveHeightBlock k h s)) j = Some v" for j v
    using that assms by (auto simp: cache_ok_def map_of_RemoveHeightBlock split: if_splits option.splits)
qed (simp_all add: cached_ok_def sched_simps)

lemma cache_ok_RemoveRefBlock: "cache_ok H s \<Longrightarrow> cache_ok H (RemoveRefBlock h s)"
  by (erule cache_ok_cong) (simp_all add: sched_simps)

lemma RemoveInvState_height:
  "mapHeightBlock (RemoveInvState iv s) =
    (if inv_nType iv = MSG_BLOCK
     then mapHeightBlock (RemoveHeightBlock (sint (GetBlockHeightByHash (inv_nHash iv))) (inv_nHash iv) s)
     else mapHeightBlock s)"
proof -
  have "mapHeightBlock (RemoveHeightBlock k h (RemoveOrphan iv s)) = mapHeightBlock (RemoveHeightBlock k h s)" for k h
    by (simp add: RemoveHeightBlock_def Let_def sched_simps split: option.split)
  then show ?thesis
    by (simp add: RemoveInvState_def Let_def sched_simps MSG_TX_def MSG_BLOCK_def)
qed

lemma cache_ok_RemoveInvState:
  assumes "cache_ok H s"
  shows "cache_ok H (RemoveInvState iv s)"
proof (cases "inv_nType iv = MSG_BLOCK")
  case True
  let ?t = "RemoveHeightBlock (sint (GetBlockHeightByHash (inv_nHash iv))) (inv_nHash iv) s"
  have t: "cache_ok H ?t" using assms by (rule cache_ok_RemoveHeightBlock)
  have other: "fst c \<noteq> inv_nHash iv" if "map_of (mapHeightBlock ?t) k = Some v" "c \<in> set v" for k v c
  proof
    assume "fst c = inv_nHash iv"
    moreover from t that have "k = sint (GetBlockHeightByHash (fst c))"
      by (auto simp: cache_ok_def cached_ok_def)
    ultimately show False
      using that by (auto simp: map_of_RemoveHeightBlock split: option.splits if_splits)
  qed
  have h: "mapHeightBlock (RemoveInvState iv s) = mapHeightBlock ?t"
    using True by (simp add: RemoveInvState_height)
  show ?thesis
  proof (rule cache_ok_shrink [OF t])
    fix k v c
    assume "map_of (mapHeightBlock (RemoveInvState iv s)) k = Some v" "c \<in> set v" "cached_ok H ?t k c"
    moreover from this have "CInv MSG_BLOCK (fst c) \<noteq> iv" using other [of k v c] unfolding h by fastforce
    ultimately show "cached_ok H (RemoveInvState iv s) k c"
      by (auto simp: cached_ok_def sched_simps)
  qed (use t in \<open>auto simp: cache_ok_def h sched_simps\<close>)
next
  case False
  with assms show ?thesis
    by (elim cache_ok_cong) (auto simp: RemoveInvState_height sched_simps)
qed

lemma cache_ok_fold:
  "(\<And>x s. cache_ok H s \<Longrightarrow> cache_ok H (f x s)) \<Longrightarrow> cache_ok H s \<Longrightarrow> cache_ok H (fold f xs s)"
  by (induction xs arbitrary: s) simp_all

lemma cache_ok_RemoveInv: "cache_ok H s \<Longrightarrow> cache_ok H (snd (snd (RemoveInv iv ps s)))"
  by (auto simp: RemoveInv_def Let_def intro!: cache_ok_RemoveInvState cache_ok_fold cache_ok_upd_peer split: option.split)

lemma cache_ok_RemoveInvs: "cache_ok H (snd x) \<Longrightarrow> cache_ok H (snd (RemoveInvs ty hs x))"
  unfolding RemoveInvs_def
  by (induction hs arbitrary: x) (simp_all add: case_prod_unfold cache_ok_RemoveInv)

lemma cache_ok_Invalidate:
  assumes "cache_ok H s"
  shows "cache_ok H (snd (InvalidateBlock h ps s))" "cache_ok H (snd (InvalidateTx h ps s))"
proof -
  have "cache_ok H (s\<lparr>orphanBlock := m\<rparr>)" "cache_ok H (s\<lparr>orphanTx := m\<rparr>)" for m
    by (rule cache_ok_cong [OF assms]; simp)+
  then show "cache_ok H (snd (InvalidateBlock h ps s))" "cache_ok H (snd (InvalidateTx h ps s))"
    unfolding InvalidateBlock_def InvalidateTx_def case_prod_unfold
    by (intro cache_ok_RemoveInv cache_ok_RemoveInvs; simp)+
qed

lemmas cache_ok_intros = cache_ok_upd_peer cache_ok_upd_state cache_ok_RemoveInvState cache_ok_RemoveInv
  cache_ok_RemoveHeightBlock cache_ok_RemoveRefBlock

lemma cache_ok_fields:
  assumes "cache_ok H s"
  shows "cache_ok H (s\<lparr>setMissPrevTxInv := x\<rparr>)" "cache_ok H (s\<lparr>mapPeer := p\<rparr>)" "cache_ok H (s\<lparr>mapRefBlock := r\<rparr>)"
    "cache_ok H (s\<lparr>orphanBlock := o1\<rparr>)" "cache_ok H (s\<lparr>orphanTx := o1\<rparr>)"
  by (rule cache_ok_cong [OF assms]; simp)+

lemma cache_ok_RemovePeer_step: "cache_ok H (fst x) \<Longrightarrow> cache_ok H (fst (RemovePeer_step n iv x))"
  by (auto simp: RemovePeer_step_def Let_def case_prod_unfold intro!: cache_ok_intros split: option.split)

lemma cache_ok_RemovePeer:
  assumes "cache_ok H s"
  shows "cache_ok H (fst (RemovePeer n ps s))"
proof -
  have "cache_ok H (fst x) \<Longrightarrow> cache_ok H (fst (fold (RemovePeer_step n) ivs x))" for ivs x
    by (induction ivs arbitrary: x) (simp_all add: cache_ok_RemovePeer_step)
  from this [of "(s, ps)"] assms show ?thesis
    by (auto simp: RemovePeer_def case_prod_unfold intro!: cache_ok_fields split: option.split)
qed

lemma cache_ok_AddNewInv: "cache_ok H s \<Longrightarrow> cache_ok H (snd (AddNewInv t iv n s))"
  by (auto simp: AddNewInv_def CheckAddInvIdleLocation_def Let_def intro!: cache_ok_intros split: bool.split)

lemma cache_ok_CheckAdd: "cache_ok H s \<Longrightarrow> cache_ok H (snd (CheckAddInvIdleLocation n ty s))"
  by (auto simp: CheckAddInvIdleLocation_def intro!: cache_ok_intros)

lemma cache_ok_add:
  assumes "cache_ok H s" "\<And>k c. cached_ok H s k c \<Longrightarrow> cached_ok H t k c"
    and "cached_ok H t k c" "ordered_keys (mapKcPowBlock t)"
    and "mapHeightBlock t = map_set k (map_get [] (mapHeightBlock s) k @ [c]) (mapHeightBlock s)"
    and "\<And>k b. map_of (mapKcPowBlock t) k = Some b \<Longrightarrow> k = sint (GetBlockHeight b)"
  shows "cache_ok H t"
  unfolding cache_ok_def
proof (intro conjI allI impI)
  show "ordered_keys (mapHeightBlock t)" "ordered_keys (mapKcPowBlock t)"
    using assms(1,4,5) by (auto simp: cache_ok_def)
  fix j v
  assume "map_of (mapHeightBlock t) j = Some v"
  then show "v \<noteq> []" "\<forall>c \<in> set v. cached_ok H t j c"
    using assms(1-3,5) by (auto simp: cache_ok_def map_get_def split: if_splits option.splits)
qed (use assms(6) in blast)

lemma cache_ok_Receive:
  assumes "cache_ok H s" "h = block_GetHash H b"
  shows "cache_ok H (snd (snd (ReceiveBlock t n h b ps s)))" "cache_ok H (snd (snd (ReceiveTx t n h' tx ps s)))"
proof -
  show "cache_ok H (snd (snd (ReceiveTx t n h' tx ps s)))"
    using assms(1) by (auto simp: ReceiveTx_def Let_def intro!: cache_ok_intros cache_ok_fields split: option.split)
  show "cache_ok H (snd (snd (ReceiveBlock t n h b ps s)))"
  proof (cases "state_of s (CInv MSG_BLOCK h)")
    case (Some st)
    let ?s = "upd_peer n (peer_Completed (CInv MSG_BLOCK h)) (upd_state (CInv MSG_BLOCK h) (received t (ObjBlock b) st) s)"
    let ?k = "sint (GetBlockHeight b)"
    let ?t = "?s\<lparr>mapHeightBlock := map_set ?k (map_get [] (mapHeightBlock ?s) ?k @ [(h, CACHE_POW_BLOCK_TYPE_REMOTE)]) (mapHeightBlock ?s)\<rparr>"
    have s: "cache_ok H ?s" using assms(1) by (intro cache_ok_intros)
    have "cached_ok H ?t ?k (h, CACHE_POW_BLOCK_TYPE_REMOTE)"
      using assms(2) by (simp add: cached_ok_def height_of_hash sched_simps)
    with s have "cache_ok H ?t"
      by (intro cache_ok_add [OF s]) (auto simp: cached_ok_def cache_ok_def)
    with assms(1) s Some show ?thesis
      by (auto simp: ReceiveBlock_def Let_def)
  qed (use assms(1) in \<open>simp add: ReceiveBlock_def\<close>)
qed

lemma cache_ok_assign: "cache_ok H s \<Longrightarrow> cache_ok H (assign_inv n iv st s)"
  by (simp add: assign_inv_def cache_ok_intros)

lemma cache_ok_MissPrev_loop: "cache_ok H s \<Longrightarrow> cache_ok H (snd (snd (MissPrev_loop n t mx ivs v rm s)))"
proof (induction n t mx ivs v rm s rule: MissPrev_loop.induct)
  case (2 n t mx iv mt v rm s)
  then show ?case
    by (cases "state_of s iv") (simp_all add: Let_def cache_ok_assign cache_ok_fields)
qed simp

lemma cache_ok_KnownInv_loop:
  "cache_ok H s \<Longrightarrow> cache_ok H (snd (snd (snd (snd (KnownInv_loop n t mx ty hs v rm rmp k s)))))"
proof (induction n t mx ty hs v rm rmp k s rule: KnownInv_loop.induct)
  case (2 n t mx ty h hs v rm rmp k s)
  then show ?case
    by (cases "state_of s (CInv ty h)") (simp_all add: Let_def cache_ok_assign)
qed simp

lemma cache_ok_ScheduleKnownInv:
  assumes "cache_ok H s"
  shows "cache_ok H (snd (ScheduleKnownInv t n ty mx s))"
  using assms
  by (auto simp: ScheduleKnownInv_def Let_def case_prod_unfold intro!: cache_ok_fold cache_ok_intros
      cache_ok_MissPrev_loop cache_ok_KnownInv_loop)

lemma cache_ok_Schedule:
  assumes "cache_ok H s"
  shows "cache_ok H (snd (ScheduleBlockInv t n v mx s))" "cache_ok H (snd (ScheduleTxInv t n v mx f s))"
  using assms cache_ok_ScheduleKnownInv [OF assms, of t n MSG_BLOCK mx] cache_ok_ScheduleKnownInv [OF assms, of t n MSG_TX mx]
  by (auto simp: ScheduleBlockInv_def ScheduleTxInv_def Let_def case_prod_unfold cache_ok_CheckAdd split: option.split)

lemma cache_ok_Cancel: "cache_ok H s \<Longrightarrow> cache_ok H (snd (CancelAssignedInv n iv s))"
  by (auto simp: CancelAssignedInv_def Let_def intro!: cache_ok_intros split: option.split)

lemma cache_ok_inert:
  assumes "cache_ok H s"
  shows "cache_ok H (snd (CheckPrevTxInv iv s))" "cache_ok H (AddOrphanBlockPrev h h' s)" "cache_ok H (AddOrphanTxPrev h h' s)"
    "cache_ok H (SetLocatorDepthHash n h s)" "cache_ok H (SetLocatorInvBlockHash n k h h' s)"
    "cache_ok H (SetNextGetBlocksTime t n w s)" "cache_ok H (snd (SetRepeatBlock t n h s))" "cache_ok H (AddRefBlock h h' h'' s)"
    "cache_ok H (snd (SetDelayedClear t iv w s))" "cache_ok H (SetPowBlockVerifyState h f s)"
  using assms
  by (auto simp: CheckPrevTxInv_def AddOrphanBlockPrev_def AddOrphanTxPrev_def SetLocatorDepthHash_def
      SetLocatorInvBlockHash_def SetNextGetBlocksTime_def SetRepeatBlock_def AddRefBlock_def SetDelayedClear_def
      SetPowBlockVerifyState_def Let_def intro!: cache_ok_intros cache_ok_fields split: option.split)

section \<open>The local blocks of the cache\<close>

lemma cache_ok_drop_local:
  assumes ok: "cache_ok H s" and b: "map_of (mapKcPowBlock s) k = Some b"
  shows "cache_ok H ((RemoveHeightBlock k (block_GetHash H b) s)\<lparr>mapKcPowBlock := map_erase k (mapKcPowBlock s)\<rparr>)"
    (is "cache_ok H ?t")
proof (rule cache_ok_shrink [OF cache_ok_RemoveHeightBlock [OF ok, of k "block_GetHash H b"]])
  let ?r = "RemoveHeightBlock k (block_GetHash H b) s"
  fix j v c
  assume v: "map_of (mapHeightBlock ?t) j = Some v" "c \<in> set v" and c: "cached_ok H ?r j c"
  have "fst c \<noteq> block_GetHash H b" if "j = k"
    using v that by (auto simp: map_of_RemoveHeightBlock split: option.splits if_splits)
  with b c show "cached_ok H ?t j c"
    by (auto simp: cached_ok_def sched_simps split: if_splits)
qed (use ok cache_ok_RemoveHeightBlock [OF ok, of k "block_GetHash H b"] in \<open>auto simp: cache_ok_def sched_simps split: if_splits\<close>)

lemma cache_ok_DropOldLocal_loop:
  assumes "cache_ok H s" "distinct (map fst m)" "\<forall>(k, b) \<in> set m. map_of (mapKcPowBlock s) k = Some b"
  shows "cache_ok H (DropOldLocal_loop H k m s)"
  using assms
proof (induction H k m s rule: DropOldLocal_loop.induct)
  case (2 H k j b m s)
  let ?s = "(RemoveHeightBlock j (block_GetHash H b) s)\<lparr>mapKcPowBlock := map_erase j (mapKcPowBlock s)\<rparr>"
  have "cache_ok H ?s" using 2(2,4) by (intro cache_ok_drop_local) auto
  moreover have "\<forall>(i, c) \<in> set m. map_of (mapKcPowBlock ?s) i = Some c"
    using 2(3,4) by (fastforce simp: image_iff)
  ultimately show ?case
    using 2 by (simp add: Let_def sched_simps)
qed simp

lemma cache_ok_local:
  assumes ok: "cache_ok H s"
  shows "cache_ok H (snd (snd (AddCacheLocalPowBlock H b s)))" "cache_ok H (RemoveCacheLocalPowBlock H h s)"
proof -
  let ?k = "sint (GetBlockHeight b)"
  define s1 where "s1 = DropOldLocal_loop H ?k (mapKcPowBlock s) s"
  have s1: "cache_ok H s1"
    unfolding s1_def using ok
    by (intro cache_ok_DropOldLocal_loop) (auto simp: cache_ok_def ordered_keys_distinct map_of_ordered)
  show "cache_ok H (snd (snd (AddCacheLocalPowBlock H b s)))"
  proof (cases "map_of (mapKcPowBlock s1) ?k")
    case None
    let ?c = "(block_GetHash H b, CACHE_POW_BLOCK_TYPE_LOCAL)"
    let ?t = "s1\<lparr>mapKcPowBlock := map_insert ?k b (mapKcPowBlock s1),
      mapHeightBlock := map_set ?k (map_get [] (mapHeightBlock s1) ?k @ [?c]) (mapHeightBlock s1)\<rparr>"
    have kc: "map_of (mapKcPowBlock ?t) = (map_of (mapKcPowBlock s1))(?k \<mapsto> b)"
      using None by (simp add: map_of_map_insert)
    have "cached_ok H ?t ?k ?c"
      unfolding cached_ok_def kc
      by (simp add: height_of_hash CACHE_POW_BLOCK_TYPE_LOCAL_def CACHE_POW_BLOCK_TYPE_REMOTE_def)
    moreover have "cached_ok H s1 j c \<Longrightarrow> cached_ok H ?t j c" for j c
      unfolding cached_ok_def kc using None by (auto split: if_splits)
    ultimately have "cache_ok H ?t"
      using s1 kc by (intro cache_ok_add [OF s1]) (auto simp: cache_ok_def split: if_splits)
    with None show ?thesis
      by (simp add: AddCacheLocalPowBlock_def Let_def s1_def)
  qed (use s1 in \<open>simp add: AddCacheLocalPowBlock_def Let_def s1_def\<close>)
  show "cache_ok H (RemoveCacheLocalPowBlock H h s)"
    using ok cache_ok_drop_local [OF ok, of "sint (GetBlockHeightByHash h)"]
    by (auto simp: RemoveCacheLocalPowBlock_def Let_def sched_simps split: option.split)
qed

section \<open>The step relation\<close>

text \<open>A step is a call of one of the operations that change the scheduler, by a peer whose nonce is not 0
  (0 marks an unassigned entry), with an inventory vector of a block or a transaction, and with a
  received block under its own hash. Time may be anything.\<close>

inductive sched_step :: "(bytes \<Rightarrow> uint256) \<Rightarrow> CSchedule \<Rightarrow> CSchedule \<Rightarrow> bool" for H where
  step_AddNewInv: "inv_nType iv \<in> {MSG_TX, MSG_BLOCK} \<Longrightarrow> n \<noteq> 0 \<Longrightarrow> sched_step H s (snd (AddNewInv t iv n s))"
| step_CheckAdd: "sched_step H s (snd (CheckAddInvIdleLocation n ty s))"
| step_CheckPrevTxInv: "sched_step H s (snd (CheckPrevTxInv iv s))"
| step_RemovePeer: "sched_step H s (fst (RemovePeer n ps s))"
| step_RemoveInv: "sched_step H s (snd (snd (RemoveInv iv ps s)))"
| step_ReceiveBlock: "n \<noteq> 0 \<Longrightarrow> h = block_GetHash H b \<Longrightarrow> sched_step H s (snd (snd (ReceiveBlock t n h b ps s)))"
| step_ReceiveTx: "n \<noteq> 0 \<Longrightarrow> sched_step H s (snd (snd (ReceiveTx t n h tx ps s)))"
| step_AddOrphanBlockPrev: "sched_step H s (AddOrphanBlockPrev h h' s)"
| step_AddOrphanTxPrev: "sched_step H s (AddOrphanTxPrev h h' s)"
| step_InvalidateBlock: "sched_step H s (snd (InvalidateBlock h ps s))"
| step_InvalidateTx: "sched_step H s (snd (InvalidateTx h ps s))"
| step_ScheduleBlockInv: "sched_step H s (snd (ScheduleBlockInv t n v mx s))"
| step_ScheduleTxInv: "sched_step H s (snd (ScheduleTxInv t n v mx f s))"
| step_CancelAssignedInv: "n \<noteq> 0 \<Longrightarrow> sched_step H s (snd (CancelAssignedInv n iv s))"
| step_SetLocatorDepthHash: "sched_step H s (SetLocatorDepthHash n h s)"
| step_SetLocatorInvBlockHash: "sched_step H s (SetLocatorInvBlockHash n k h h' s)"
| step_SetNextGetBlocksTime: "sched_step H s (SetNextGetBlocksTime t n w s)"
| step_SetRepeatBlock: "sched_step H s (snd (SetRepeatBlock t n h s))"
| step_AddRefBlock: "sched_step H s (AddRefBlock h h' h'' s)"
| step_RemoveRefBlock: "sched_step H s (RemoveRefBlock h s)"
| step_SetDelayedClear: "sched_step H s (snd (SetDelayedClear t iv w s))"
| step_AddCacheLocalPowBlock: "sched_step H s (snd (snd (AddCacheLocalPowBlock H b s)))"
| step_RemoveCacheLocalPowBlock: "sched_step H s (RemoveCacheLocalPowBlock H h s)"
| step_RemoveHeightBlock: "sched_step H s (RemoveHeightBlock k h s)"
| step_SetPowBlockVerifyState: "sched_step H s (SetPowBlockVerifyState h f s)"

inductive sched_reachable :: "(bytes \<Rightarrow> uint256) \<Rightarrow> CSchedule \<Rightarrow> bool" for H where
  reach_init: "sched_reachable H CSchedule_null"
| reach_step: "sched_reachable H s \<Longrightarrow> sched_step H s s' \<Longrightarrow> sched_reachable H s'"

lemma sched_step_ok: "sched_step H s s' \<Longrightarrow> sched_ok s \<Longrightarrow> sched_ok s'"
  by (induction rule: sched_step.induct)
    (simp_all add: sched_ok_AddNewInv sched_ok_CheckAdd sched_ok_RemovePeer sched_ok_RemoveInv sched_ok_Receive
      sched_ok_Invalidate sched_ok_ScheduleBlockInv sched_ok_ScheduleTxInv sched_ok_Cancel sched_ok_inert sched_ok_cache)

lemma cache_step_ok: "sched_step H s s' \<Longrightarrow> cache_ok H s \<Longrightarrow> cache_ok H s'"
  by (induction rule: sched_step.induct)
    (simp_all add: cache_ok_AddNewInv cache_ok_CheckAdd cache_ok_RemovePeer cache_ok_RemoveInv cache_ok_Receive
      cache_ok_Invalidate cache_ok_Schedule cache_ok_Cancel cache_ok_inert cache_ok_local cache_ok_RemoveHeightBlock
      cache_ok_RemoveRefBlock)

lemma sched_reachable_ok: "sched_reachable H s \<Longrightarrow> sched_ok s \<and> cache_ok H s"
  by (induction rule: sched_reachable.induct)
    (auto simp: sched_ok_null cache_ok_null intro: sched_step_ok cache_step_ok)

section \<open>What is left of a peer\<close>

text \<open>The entry of an inventory vector after the peer that announced it has left.\<close>

definition left_state :: "uint64 \<Rightarrow> CInvState \<Rightarrow> CInvState option" where
  "left_state n st =
    (let st' = st\<lparr>setKnownPeer := set_erase n (setKnownPeer st)\<rparr>
     in if setKnownPeer st' = [] then None
        else Some (if nAssigned st = n then st'\<lparr>nAssigned := 0, objReceived := CNil\<rparr> else st'))"

lemma RemovePeer_step_state:
  assumes "RemovePeer_step n iv (s, ps) = (s', ps')"
  shows "state_of s' = (state_of s)(iv := Option.bind (state_of s iv) (left_state n))"
    and "set ps \<subseteq> set ps'"
    and "state_of s iv = Some st \<Longrightarrow> nAssigned st = n \<Longrightarrow> m \<in> set (setKnownPeer st) \<Longrightarrow> m \<noteq> n \<Longrightarrow> m \<in> set ps'"
  using assms
  by (auto simp: RemovePeer_step_def Let_def left_state_def sched_simps fun_eq_iff set_erase_def filter_empty_conv
      split: option.splits if_splits)

lemma RemovePeer_fold_state:
  assumes "fold (RemovePeer_step n) ivs (s, ps) = (s', ps')" "distinct ivs"
  shows "state_of s' iv = (if iv \<in> set ivs then Option.bind (state_of s iv) (left_state n) else state_of s iv)
    \<and> set ps \<subseteq> set ps'
    \<and> (\<forall>st m. iv \<in> set ivs \<longrightarrow> state_of s iv = Some st \<longrightarrow> nAssigned st = n \<longrightarrow> m \<in> set (setKnownPeer st) \<longrightarrow> m \<noteq> n \<longrightarrow> m \<in> set ps')"
  using assms
proof (induction ivs arbitrary: s ps)
  case (Cons jv ivs)
  obtain s1 ps1 where r: "RemovePeer_step n jv (s, ps) = (s1, ps1)" by fastforce
  have f: "fold (RemovePeer_step n) ivs (s1, ps1) = (s', ps')" using Cons.prems(1) r by simp
  have d: "distinct ivs" "jv \<notin> set ivs" using Cons.prems(2) by auto
  show ?case
    using Cons.IH [OF f d(1)] RemovePeer_step_state [OF r] d(2) by (cases "iv = jv") auto
qed simp

section \<open>Scheduling makes progress\<close>

definition schedulable :: "int \<Rightarrow> CSchedule \<Rightarrow> CInv \<Rightarrow> bool" where
  "schedulable t s iv = (case state_of s iv of None \<Rightarrow> False | Some st \<Rightarrow> nAssigned st = 0 \<and> \<not> inv_timeout t st)"

definition assigned_to :: "uint64 \<Rightarrow> CSchedule \<Rightarrow> CInv \<Rightarrow> bool" where
  "assigned_to n s iv = (case state_of s iv of None \<Rightarrow> False | Some st \<Rightarrow> nAssigned st = n)"

lemma state_of_assign_eq:
  "state_of (assign_inv n iv st s) = (state_of s)(iv \<mapsto> st\<lparr>nAssigned := n, nGetDataCount := nGetDataCount st + 1\<rparr>)"
  by (simp add: assign_inv_def sched_simps)

lemma KnownInv_loop_progress:
  assumes "KnownInv_loop n t mx ty hs v rm rmp k s = (v', rm', rmp', k', s')" "length v < mx" "distinct hs"
    and "\<forall>iv \<in> set v. assigned_to n s iv \<and> iv \<notin> CInv ty ` set hs \<and> iv \<notin> set rm" "\<forall>iv \<in> set rm. iv \<notin> CInv ty ` set hs"
  shows "length v' \<le> mx \<and> set v \<subseteq> set v' \<and> set v' \<subseteq> set v \<union> CInv ty ` set hs
    \<and> (\<forall>iv \<in> set v'. assigned_to n s' iv \<and> iv \<notin> set rm')
    \<and> (v = [] \<longrightarrow> (\<exists>h \<in> set hs. schedulable t s (CInv ty h)) \<longrightarrow> v' \<noteq> [])"
  using assms
proof (induction n t mx ty hs v rm rmp k s rule: KnownInv_loop.induct)
  case (2 n t mx ty h hs v rm rmp k s)
  let ?iv = "CInv ty h"
  have new: "?iv \<notin> CInv ty ` set hs" using 2(9) by auto
  show ?case
  proof (cases "state_of s ?iv")
    case None
    with 2(1) [OF refl None] 2(7-11) show ?thesis
      by (auto simp: Let_def schedulable_def)
  next
    case (Some st)
    show ?thesis
    proof (cases "nAssigned st = 0 \<and> \<not> inv_timeout t st")
      case True
      let ?s = "assign_inv n ?iv st s"
      have v: "\<forall>iv \<in> set (v @ [?iv]). assigned_to n ?s iv \<and> iv \<notin> CInv ty ` set hs \<and> iv \<notin> set rm"
        using 2(10,11) new by (auto simp: assigned_to_def state_of_assign_eq)
      show ?thesis
      proof (cases "length (v @ [?iv]) \<ge> mx")
        case True
        with v Some 2(7,8) \<open>nAssigned st = 0 \<and> \<not> inv_timeout t st\<close> show ?thesis
          by (auto simp: Let_def)
      next
        case False
        then have "length (v @ [?iv]) < mx" "\<not> mx \<le> Suc (length v)" by auto
        with 2(3) [OF refl Some _ _ refl refl] v 2(7,9,11) Some \<open>nAssigned st = 0 \<and> \<not> inv_timeout t st\<close> show ?thesis
          by (auto simp: Let_def)
      qed
    next
      case False
      with 2(2,4-6) [OF refl Some] 2(7-11) Some new show ?thesis
        by (auto simp: Let_def schedulable_def split: if_splits)
    qed
  qed
qed simp

section \<open>Invalidation\<close>

lemma state_of_RemoveInvs:
  "state_of (snd (RemoveInvs ty hs x)) iv = (if iv \<in> CInv ty ` set hs then None else state_of (snd x) iv)"
  unfolding RemoveInvs_def
  by (induction hs arbitrary: x) (auto simp: case_prod_unfold state_of_RemoveInv)

lemma peers_RemoveInv:
  "set ps \<subseteq> set (fst (snd (RemoveInv iv ps s)))"
  "state_of s iv = Some st \<Longrightarrow> set (setKnownPeer st) \<subseteq> set (fst (snd (RemoveInv iv ps s)))"
  by (auto simp: RemoveInv_def Let_def split: option.split)

lemma peers_RemoveInvs:
  "set (fst x) \<subseteq> set (fst (RemoveInvs ty hs x)) \<and>
    (\<forall>h \<in> set hs. \<forall>st. state_of (snd x) (CInv ty h) = Some st \<longrightarrow> set (setKnownPeer st) \<subseteq> set (fst (RemoveInvs ty hs x)))"
proof (induction hs arbitrary: x)
  case (Cons h hs)
  let ?y = "snd (RemoveInv (CInv ty h) (fst x) (snd x))"
  have y: "RemoveInvs ty (h # hs) x = RemoveInvs ty hs ?y"
    by (simp add: RemoveInvs_def case_prod_unfold)
  have y1: "set (fst x) \<subseteq> set (fst ?y)" by (rule peers_RemoveInv(1))
  have y2: "state_of (snd ?y) = (state_of (snd x))(CInv ty h := None)" by (rule state_of_RemoveInv)
  have ih: "set (fst ?y) \<subseteq> set (fst (RemoveInvs ty hs ?y))"
    "\<And>h' st. h' \<in> set hs \<Longrightarrow> state_of (snd ?y) (CInv ty h') = Some st
      \<Longrightarrow> set (setKnownPeer st) \<subseteq> set (fst (RemoveInvs ty hs ?y))"
    using Cons.IH [of ?y] by blast+
  have "set (setKnownPeer st) \<subseteq> set (fst (RemoveInvs ty hs ?y))"
    if "h' \<in> set (h # hs)" "state_of (snd x) (CInv ty h') = Some st" for h' st
  proof (cases "h' = h")
    case True
    with peers_RemoveInv(2) [OF that(2), of "fst x"] ih(1) show ?thesis by blast
  next
    case False
    with that y2 have "state_of (snd ?y) (CInv ty h') = Some st" "h' \<in> set hs" by simp_all
    then show ?thesis by (rule ih(2) [rotated])
  qed
  with y1 ih(1) show ?case unfolding y by blast
qed (simp add: RemoveInvs_def)

section \<open>Properties\<close>

text \<open>C23: In every reachable state of the scheduler the two indexes mirror each other: a peer's list holds an
  inventory vector exactly when the entry of that vector lists the peer, and a peer's set of
  outstanding requests holds exactly the vectors that are assigned to it and not yet received.
  No entry is without a peer, and what has been received came from a peer that announced it.\<close>

theorem scheduler_invariant:
  assumes "sched_reachable H s"
  shows "(KnownInvExists (peer_at s n) iv \<longleftrightarrow>
        (\<exists>st. map_of (mapState s) iv = Some st \<and> n \<in> set (setKnownPeer st)))
    \<and> (inv_nHash iv \<in> set (GetAssigned (peer_at s n) (inv_nType iv)) \<longleftrightarrow>
        (\<exists>st. map_of (mapState s) iv = Some st \<and> nAssigned st = n \<and> n \<noteq> 0 \<and> \<not> IsReceived st))
    \<and> (\<forall>st. map_of (mapState s) iv = Some st \<longrightarrow>
        setKnownPeer st \<noteq> [] \<and> (nAssigned st \<noteq> 0 \<or> IsReceived st \<longrightarrow> nAssigned st \<in> set (setKnownPeer st)))"
proof -
  have ok: "sched_ok s" using sched_reachable_ok [OF assms] by simp
  show ?thesis
    using sched_ok_knows [OF ok, of n iv] sched_ok_requested [OF ok, of n iv] sched_ok_stateD [OF ok, of iv]
    by (auto simp: knows_def requested_def KnownInvExists_def state_ok_def)
qed

lemma sched_reachable_example:
  "sched_reachable H (snd (AddNewInv 5 (CInv MSG_BLOCK 9) 7 CSchedule_null))"
  by (rule reach_step [OF reach_init], rule step_AddNewInv) simp_all

theorem scheduler_invariant_witness:
  "KnownInvExists (peer_at (snd (AddNewInv 5 (CInv MSG_BLOCK 9) 7 CSchedule_null)) 7) (CInv MSG_BLOCK 9)"
  using scheduler_invariant [OF sched_reachable_example [of "\<lambda>_. 0"], of 7 "CInv MSG_BLOCK 9"]
  by (simp add: AddNewInv_def CheckAddInvIdleLocation_def CSchedule_null_def MAX_INV_COUNT_def peer_GetCount_def peer_at_def
      map_get_def MSG_BLOCK_def MSG_TX_def MAX_PEER_BLOCK_INV_COUNT_def upd_peer_def upd_state_def Let_def)

text \<open>C26: Received objects have the kind of their inventory vector: in every reachable state \<^verbatim>\<open>GetBlock\<close> and
  \<^verbatim>\<open>GetTransaction\<close> never throw \<^verbatim>\<open>bad_get\<close>, nor do the functions of the proof-of-work cache that call
  them; and a block that is returned was received from a peer that announced it.\<close>

theorem scheduler_typed:
  assumes "sched_reachable H s"
  shows "GetBlock s h \<noteq> Inl BadGet \<and> GetTransaction s h \<noteq> Inl BadGet
    \<and> GetCachePowBlock H s h \<noteq> Inl BadGet \<and> CheckCachePowBlockState s h \<noteq> Inl BadGet
    \<and> (\<forall>b n. GetBlock s h = Inr (Some (b, n)) \<longrightarrow> KnownInvExists (peer_at s n) (CInv MSG_BLOCK h))"
proof -
  have ok: "sched_ok s" using sched_reachable_ok [OF assms] by simp
  note typed = sched_ok_stateD [OF ok]
  have blk: "GetBlock s h \<noteq> Inl BadGet" "GetTransaction s h \<noteq> Inl BadGet"
    using typed [of "CInv MSG_BLOCK h"] typed [of "CInv MSG_TX h"]
    by (auto simp: GetBlock_def GetTransaction_def IsReceived_def state_ok_def object_ok_def MSG_TX_def MSG_BLOCK_def
        split: option.splits CInvObject.splits)
  moreover from blk(1) have "GetCachePowBlock H s h \<noteq> Inl BadGet"
    by (auto simp: GetCachePowBlock_def split: option.splits list.splits sum.splits)
  moreover have "CheckCache_loop s h v \<noteq> Inl BadGet" for v
    using blk(1) by (induction v) (auto split: sum.splits option.splits)
  moreover have "KnownInvExists (peer_at s n) (CInv MSG_BLOCK h)" if "GetBlock s h = Inr (Some (b, n))" for b n
    using that typed [of "CInv MSG_BLOCK h"] sched_ok_knows [OF ok, of n "CInv MSG_BLOCK h"]
    by (auto simp: GetBlock_def knows_def KnownInvExists_def state_ok_def split: option.splits if_splits CInvObject.splits)
  ultimately show ?thesis
    by (auto simp: CheckCachePowBlockState_def split: option.splits)
qed

theorem scheduler_typed_witness:
  "GetBlock (snd (AddNewInv 5 (CInv MSG_BLOCK 9) 7 CSchedule_null)) 9 \<noteq> Inl BadGet"
  using scheduler_typed [OF sched_reachable_example [of "\<lambda>_. 0"], of 9] by simp

text \<open>C28: The scheduler stays within its limits: at most \<^verbatim>\<open>MAX_INV_COUNT\<close> entries, and for each peer at most
  1024 blocks and 262144 transactions, each listed once.\<close>

theorem scheduler_bounds:
  assumes "sched_reachable H s"
  shows "length (mapState s) \<le> MAX_INV_COUNT
    \<and> peer_GetCount (peer_at s n) MSG_BLOCK \<le> MAX_PEER_BLOCK_INV_COUNT
    \<and> peer_GetCount (peer_at s n) MSG_TX \<le> MAX_PEER_TX_INV_COUNT
    \<and> distinct (GetKnownInv (peer_at s n))"
proof -
  have "maps_ok s" using sched_reachable_ok [OF assms] by (simp add: sched_ok_def)
  then have "length (mapState s) \<le> MAX_INV_COUNT" "\<And>ty. length (KL s n ty) \<le> known_bound ty" "\<And>ty. distinct (KL s n ty)"
    by (simp_all add: maps_ok_def)
  from this(1) this(2) [of MSG_BLOCK] this(2) [of MSG_TX] distinct_GetKnownInv [OF this(3)] show ?thesis
    by (simp add: peer_GetCount_def known_bound_def MSG_TX_def MSG_BLOCK_def)
qed

theorem scheduler_bounds_witness:
  "length (mapState (snd (AddNewInv 5 (CInv MSG_BLOCK 9) 7 CSchedule_null))) \<le> MAX_INV_COUNT"
  using scheduler_bounds [OF sched_reachable_example [of "\<lambda>_. 0"], of 0] by simp

text \<open>C27: In every reachable state the proof-of-work cache lists a hash only under the height that the hash
  carries; a hash from the network still has its inventory entry, a local one is the hash of the
  local block cached for that height; and no height has an empty list.\<close>

theorem pow_cache_backed:
  assumes "sched_reachable H s" "map_of (mapHeightBlock s) k = Some v"
  shows "v \<noteq> [] \<and> (\<forall>c \<in> set v. k = sint (GetBlockHeightByHash (fst c))
    \<and> (if snd c = CACHE_POW_BLOCK_TYPE_REMOTE then Exists s (CInv MSG_BLOCK (fst c))
       else \<exists>b. GetCacheLocalPowBlock H s (fst c) = Some b \<and> block_GetHash H b = fst c))"
proof -
  have v: "v \<noteq> []" "\<And>c. c \<in> set v \<Longrightarrow> cached_ok H s k c"
    using sched_reachable_ok [OF assms(1)] assms(2) by (auto simp: cache_ok_def)
  have "k = sint (GetBlockHeightByHash (fst c))
    \<and> (if snd c = CACHE_POW_BLOCK_TYPE_REMOTE then Exists s (CInv MSG_BLOCK (fst c))
       else \<exists>b. GetCacheLocalPowBlock H s (fst c) = Some b \<and> block_GetHash H b = fst c)" if "c \<in> set v" for c
    using v(2) [OF that] by (auto simp: cached_ok_def Exists_def GetCacheLocalPowBlock_def split: if_splits)
  with v(1) show ?thesis by blast
qed

theorem pow_cache_backed_witness:
  "Exists (snd (snd (AddCacheLocalPowBlock (\<lambda>_. 0) (block_SetNull\<lparr>blk_nType := BLOCK_PRIMARY\<rparr>) CSchedule_null)))
      (CInv MSG_BLOCK 0) = False
    \<and> GetFirstCachePowBlock (snd (snd (AddCacheLocalPowBlock (\<lambda>_. 0) (block_SetNull\<lparr>blk_nType := BLOCK_PRIMARY\<rparr>)
        CSchedule_null))) 1 \<noteq> None
    \<and> map_of (mapHeightBlock (snd (snd (AddCacheLocalPowBlock (\<lambda>_. 0) (block_SetNull\<lparr>blk_nType := BLOCK_PRIMARY\<rparr>)
        CSchedule_null)))) 1 \<noteq> Some []"
proof -
  let ?b = "block_SetNull\<lparr>blk_nType := BLOCK_PRIMARY\<rparr>"
  let ?s = "snd (snd (AddCacheLocalPowBlock (\<lambda>_. 0) ?b CSchedule_null))"
  have r: "sched_reachable (\<lambda>_. 0) ?s"
    by (rule reach_step [OF reach_init]) (rule step_AddCacheLocalPowBlock)
  have h: "GetBlockHeight ?b = 1"
    by (simp add: GetBlockHeight_def IsGenesis_def IsExtended_def block_type_defs block_SetNull_def hash_Get32_def)
  have s: "mapHeightBlock ?s = [(1, [(block_GetHash (\<lambda>_. 0) ?b, CACHE_POW_BLOCK_TYPE_LOCAL)])]" "mapState ?s = []"
    by (simp_all add: AddCacheLocalPowBlock_def h CSchedule_null_def map_get_def)
  show ?thesis
    using pow_cache_backed [OF r, of 1] unfolding Exists_def GetFirstCachePowBlock_def s by simp
qed

text \<open>C25: When a peer leaves, it is forgotten everywhere: every entry it was the only source of is removed,
  every other entry loses the peer, and an entry that was assigned to it becomes unassigned and
  unreceived, with all remaining sources of it handed back for rescheduling. Entries the peer had
  not announced stay as they were.\<close>

theorem peer_leaves:
  assumes "sched_reachable H s" "n \<noteq> 0" "map_of (mapPeer s) n \<noteq> None" "RemovePeer n ps s = (s', ps')"
    and "map_of (mapState s) iv = Some st"
  shows "map_of (mapPeer s') n = None
    \<and> map_of (mapState s') iv = (if n \<in> set (setKnownPeer st) then left_state n st else Some st)
    \<and> (nAssigned st = n \<longrightarrow> set (setKnownPeer st) - {n} \<subseteq> set ps')"
proof -
  have ok: "sched_ok s" using sched_reachable_ok [OF assms(1)] by simp
  obtain p where p: "map_of (mapPeer s) n = Some p" using assms(3) by auto
  have d: "distinct (GetKnownInv p)"
    using ok p by (intro distinct_GetKnownInv) (auto simp: sched_ok_def maps_ok_def peer_at_def map_get_def dest: spec [of _ n])
  obtain s1 where f: "fold (RemovePeer_step n) (GetKnownInv p) (s, ps) = (s1, ps')"
    and s': "s' = s1\<lparr>mapPeer := map_erase n (mapPeer s1)\<rparr>"
    using assms(4) p by (auto simp: RemovePeer_def split: prod.splits)
  have "iv \<in> set (GetKnownInv p) \<longleftrightarrow> n \<in> set (setKnownPeer st)"
    using sched_ok_leaving [OF ok p] assms(5) by (auto simp: leaving_def)
  moreover have "nAssigned st = n \<longrightarrow> n \<in> set (setKnownPeer st)"
    using sched_ok_stateD [OF ok assms(5)] assms(2) by (auto simp: state_ok_def)
  ultimately show ?thesis
    using RemovePeer_fold_state [OF f d, of iv] assms(5) unfolding s' by auto
qed

theorem peer_leaves_witness:
  "map_of (mapState (fst (RemovePeer 7 [] (snd (AddNewInv 5 (CInv MSG_BLOCK 9) 7 CSchedule_null))))) (CInv MSG_BLOCK 9) = None"
proof -
  let ?s = "snd (AddNewInv 5 (CInv MSG_BLOCK 9) 7 CSchedule_null)"
  have st: "map_of (mapState ?s) (CInv MSG_BLOCK 9) = Some (CInvState_null\<lparr>setKnownPeer := [7], nRecvInvTime := 5\<rparr>)"
    and p: "map_of (mapPeer ?s) 7 \<noteq> None"
    by (simp_all add: AddNewInv_def CheckAddInvIdleLocation_def CSchedule_null_def MAX_INV_COUNT_def peer_GetCount_def
        peer_at_def map_get_def MSG_BLOCK_def MSG_TX_def MAX_PEER_BLOCK_INV_COUNT_def upd_peer_def upd_state_def Let_def
        CInvState_null_def insort_insert_key_def)
  show ?thesis
    using peer_leaves [OF sched_reachable_example [of "\<lambda>_. 0"] _ p _ st, of "[]"]
    by (cases "RemovePeer 7 [] ?s") (simp add: left_state_def set_erase_def)
qed

lemma state_of_fold_RemoveInv:
  "state_of (fold (\<lambda>iv s. snd (snd (RemoveInv iv [] s))) rm s) iv = (if iv \<in> set rm then None else state_of s iv)"
  by (induction rm arbitrary: s) (auto simp: state_of_RemoveInv)

lemma mapState_fold_upd_peer: "mapState (fold (\<lambda>iv. upd_peer n (f iv)) ivs s) = mapState s"
  by (induction ivs arbitrary: s) (simp_all add: sched_simps)

lemma ScheduleKnownInv_block_progress:
  assumes ok: "sched_ok s" and mx: "0 < mx" and h: "h \<in> set (KL s n MSG_BLOCK)" "schedulable t s (CInv MSG_BLOCK h)"
    and r: "ScheduleKnownInv t n MSG_BLOCK mx s = (r, s')"
  shows "kr_ret r \<and> kr_vInv r \<noteq> [] \<and> length (kr_vInv r) \<le> mx \<and> (\<forall>iv \<in> set (kr_vInv r). assigned_to n s' iv)"
proof -
  obtain v rm rmp k s2 where l: "KnownInv_loop n t mx MSG_BLOCK (KL s n MSG_BLOCK) [] [] [] 0 s = (v, rm, rmp, k, s2)"
    by (metis prod_cases5)
  have "distinct (KL s n MSG_BLOCK)" using ok by (simp add: sched_ok_def maps_ok_def)
  from KnownInv_loop_progress [OF l _ this] mx h
  have v: "v \<noteq> []" "length v \<le> mx" "\<forall>iv \<in> set v. assigned_to n s2 iv \<and> iv \<notin> set rm" by auto
  have tx: "MSG_BLOCK \<noteq> MSG_TX" by (simp add: MSG_TX_def MSG_BLOCK_def)
  have "kr_vInv r = v" "kr_ret r"
    "s' = fold (\<lambda>iv. upd_peer n (peer_RemoveInv iv)) rmp (fold (\<lambda>iv s. snd (snd (RemoveInv iv [] s))) rm s2)"
    using r mx v(1) tx by (auto simp: ScheduleKnownInv_def l Let_def)
  with v show ?thesis
    by (simp add: assigned_to_def mapState_fold_upd_peer state_of_fold_RemoveInv)
qed

text \<open>C24: Scheduling makes progress: when an idle peer has announced a block that is assigned to no one and has
  not timed out, \<^verbatim>\<open>ScheduleBlockInv\<close> reports success and hands out at least one and at most
  \<^verbatim>\<open>nMaxCount\<close> inventory vectors, each of them announced by this peer and now assigned to it.\<close>

theorem schedule_progress:
  assumes "sched_reachable H s" "map_of (mapPeer s) n = Some peer" "\<not> peer_IsAssigned peer"
    and "h \<in> set (GetKnownList peer MSG_BLOCK)" "schedulable t s (CInv MSG_BLOCK h)" "0 < nMaxCount"
    and "ScheduleBlockInv t n vInv0 nMaxCount s = (r, s')"
  shows "sb_ret r \<and> sb_vInv r \<noteq> [] \<and> length (sb_vInv r) \<le> nMaxCount
    \<and> (\<forall>iv \<in> set (sb_vInv r). assigned_to n s' iv \<and> KnownInvExists (peer_at s' n) iv)"
proof -
  have ok: "sched_ok s" using sched_reachable_ok [OF assms(1)] by simp
  have p: "peer_at s n = peer" using assms(2) by (simp add: peer_at_def map_get_def)
  obtain r1 s1 where k: "ScheduleKnownInv t n MSG_BLOCK nMaxCount s = (r1, s1)" by fastforce
  have pr: "kr_ret r1" "kr_vInv r1 \<noteq> []" "length (kr_vInv r1) \<le> nMaxCount" "\<forall>iv \<in> set (kr_vInv r1). assigned_to n s1 iv"
    using ScheduleKnownInv_block_progress [OF ok assms(6) _ assms(5) k] assms(4) p by auto
  have eq: "sb_ret r" "sb_vInv r = kr_vInv r1" "s' = s1"
    using assms(2,3,7) k pr(1) by (auto simp: ScheduleBlockInv_def Let_def)
  have ok1: "sched_ok s1" using sched_ok_ScheduleKnownInv [OF ok, of t n MSG_BLOCK nMaxCount] by (simp add: k)
  have "n \<noteq> 0"
    using sched_ok_knows [OF ok, of n "CInv MSG_BLOCK h"] sched_ok_stateD [OF ok, of "CInv MSG_BLOCK h"] assms(4) p
    by (auto simp: knows_def state_ok_def)
  then have "KnownInvExists (peer_at s1 n) iv" if "assigned_to n s1 iv" for iv
    using that sched_ok_knows [OF ok1, of n iv] sched_ok_stateD [OF ok1, of iv]
    by (auto simp: assigned_to_def knows_def KnownInvExists_def state_ok_def split: option.splits)
  with pr eq show ?thesis by simp
qed

theorem schedule_progress_witness:
  "sb_vInv (fst (ScheduleBlockInv 6 7 [] 1 (snd (AddNewInv 5 (CInv MSG_BLOCK 9) 7 CSchedule_null)))) \<noteq> []"
proof -
  let ?s = "snd (AddNewInv 5 (CInv MSG_BLOCK 9) 7 CSchedule_null)"
  let ?p = "peer_AddNewInv (CInv MSG_BLOCK 9) CInvPeer_null"
  have st: "map_of (mapState ?s) (CInv MSG_BLOCK 9) = Some (CInvState_null\<lparr>setKnownPeer := [7], nRecvInvTime := 5\<rparr>)"
    and p: "map_of (mapPeer ?s) 7 = Some ?p"
    by (simp_all add: AddNewInv_def CheckAddInvIdleLocation_def CSchedule_null_def MAX_INV_COUNT_def peer_GetCount_def
        peer_at_def map_get_def MSG_BLOCK_def MSG_TX_def MAX_PEER_BLOCK_INV_COUNT_def upd_peer_def upd_state_def Let_def
        CInvState_null_def insort_insert_key_def)
  have "\<not> peer_IsAssigned ?p" "9 \<in> set (GetKnownList ?p MSG_BLOCK)"
    by (simp_all add: peer_IsAssigned_def peer_AddNewInv_def upd_known_def CInvPeer_null_def CInvPeerState_null_def
        GetKnownList_def)
  moreover have "schedulable 6 ?s (CInv MSG_BLOCK 9)"
    by (simp add: schedulable_def st inv_timeout_def CInvState_null_def MAX_REGETDATA_COUNT_def MAX_INV_WAIT_TIME_def)
  ultimately show ?thesis
    using schedule_progress [OF sched_reachable_example [of "\<lambda>_. 0"] p, of 9 6 1 "[]"]
    by (cases "ScheduleBlockInv 6 7 [] 1 ?s") simp
qed

text \<open>C29: Invalidating a block removes the entries of the block and of everything that waits for it directly or
  through other orphans, reports every peer that announced one of them, and touches no other entry.\<close>

theorem invalidate_branch:
  assumes "InvalidateBlock h ps s = (ps', s')"
  shows "map_of (mapState s') iv =
      (if inv_nType iv = MSG_BLOCK \<and> inv_nHash iv \<in> insert h (descendants (orphanBlock s) h) then None
       else map_of (mapState s) iv)
    \<and> (\<forall>st. inv_nType iv = MSG_BLOCK \<and> inv_nHash iv \<in> insert h (descendants (orphanBlock s) h)
        \<and> map_of (mapState s) iv = Some st \<longrightarrow> set (setKnownPeer st) \<subseteq> set ps')"
proof -
  obtain v m where b: "RemoveBranch h (orphanBlock s) = (v, m)" by fastforce
  let ?x = "(ps, s\<lparr>orphanBlock := m\<rparr>)"
  obtain ps1 s1 where x: "RemoveInvs MSG_BLOCK v ?x = (ps1, s1)" by fastforce
  have r: "(ps', s') = snd (RemoveInv (CInv MSG_BLOCK h) ps1 s1)"
    using assms b x by (simp add: InvalidateBlock_def)
  have v: "set v = descendants (orphanBlock s) h" using RemoveBranch_spec [OF b] by simp
  have s1: "state_of s1 jv = (if jv \<in> CInv MSG_BLOCK ` set v then None else state_of s jv)" for jv
    using state_of_RemoveInvs [of MSG_BLOCK v ?x jv] by (simp add: x)
  have "state_of s' = (state_of s1)(CInv MSG_BLOCK h := None)"
    using state_of_RemoveInv [of "CInv MSG_BLOCK h" ps1 s1] r [symmetric] by simp
  then have "state_of s' iv = (if inv_nType iv = MSG_BLOCK \<and> inv_nHash iv \<in> insert h (set v) then None else state_of s iv)"
    using s1 [of iv] by (cases iv) auto
  moreover have "set (setKnownPeer st) \<subseteq> set ps'"
    if "iv = CInv MSG_BLOCK x" "x \<in> insert h (set v)" "state_of s iv = Some st" for x st
  proof -
    have "set ps1 \<subseteq> set ps'" using peers_RemoveInv(1) [of ps1 "CInv MSG_BLOCK h" s1] r [symmetric] by simp
    moreover have "x \<in> set v \<Longrightarrow> set (setKnownPeer st) \<subseteq> set ps1"
      using peers_RemoveInvs [of ?x MSG_BLOCK v] that by (simp add: x)
    moreover have "set (setKnownPeer st) \<subseteq> set ps'" if "x \<notin> set v"
    proof -
      have "state_of s1 (CInv MSG_BLOCK h) = Some st"
        using that \<open>iv = CInv MSG_BLOCK x\<close> \<open>x \<in> insert h (set v)\<close> \<open>state_of s iv = Some st\<close> s1 [of iv] by auto
      from peers_RemoveInv(2) [OF this, of ps1] show ?thesis using r [symmetric] by simp
    qed
    ultimately show ?thesis by blast
  qed
  ultimately show ?thesis unfolding v by (cases iv) auto
qed

theorem invalidate_branch_witness:
  "map_of (mapState (snd (InvalidateBlock 9 [] (snd (AddNewInv 5 (CInv MSG_BLOCK 9) 7 CSchedule_null))))) (CInv MSG_BLOCK 9) = None"
  using invalidate_branch [of 9 "[]" "snd (AddNewInv 5 (CInv MSG_BLOCK 9) 7 CSchedule_null)" _ _ "CInv MSG_BLOCK 9"]
  by (cases "InvalidateBlock 9 [] (snd (AddNewInv 5 (CInv MSG_BLOCK 9) 7 CSchedule_null))") simp

end
