(* ===== verification/Template.thy ===== *)
theory Template
  imports DataStream Transaction
begin

text \<open>
  Template addresses, \<^verbatim>\<open>src/common/template\<close>: an address that is the hash of typed parameters. One record per
  template class with the members of the class; \<open>template_param\<close> is the dynamic type of a
  \<^verbatim>\<open>CTemplate*\<close>, and the virtual functions \<^verbatim>\<open>ValidateParam\<close>, \<^verbatim>\<open>SetTemplateData\<close> and
  \<^verbatim>\<open>BuildTemplateData\<close> dispatch on it. \<^verbatim>\<open>CreateTemplatePtr\<close> answers a null pointer with \<open>Inr None\<close>; \<open>Inl UndefinedRead\<close> is
  the unchecked read of a vector, which no handler catches. The lemmas show that parsing consumes a prefix of
  known length and only yields parameters that serialize back to themselves.
\<close>

unbundle bit_operations_syntax

section \<open>Types of templates\<close>

definition TEMPLATE_MIN :: uint16 where "TEMPLATE_MIN = 0"
definition TEMPLATE_WEIGHTED :: uint16 where "TEMPLATE_WEIGHTED = 1"
definition TEMPLATE_MULTISIG :: uint16 where "TEMPLATE_MULTISIG = 2"
definition TEMPLATE_FORK :: uint16 where "TEMPLATE_FORK = 3"
definition TEMPLATE_PROOF :: uint16 where "TEMPLATE_PROOF = 4"
definition TEMPLATE_DELEGATE :: uint16 where "TEMPLATE_DELEGATE = 5"
definition TEMPLATE_EXCHANGE :: uint16 where "TEMPLATE_EXCHANGE = 6"
definition TEMPLATE_VOTE :: uint16 where "TEMPLATE_VOTE = 7"
definition TEMPLATE_PAYMENT :: uint16 where "TEMPLATE_PAYMENT = 8"
definition TEMPLATE_DEXORDER :: uint16 where "TEMPLATE_DEXORDER = 9"
definition TEMPLATE_DEXMATCH :: uint16 where "TEMPLATE_DEXMATCH = 10"
definition TEMPLATE_DEXBBCMAP :: uint16 where "TEMPLATE_DEXBBCMAP = 11"
definition TEMPLATE_MAX :: uint16 where "TEMPLATE_MAX = 12"

lemmas template_types = TEMPLATE_MIN_def TEMPLATE_WEIGHTED_def TEMPLATE_MULTISIG_def TEMPLATE_FORK_def TEMPLATE_PROOF_def
  TEMPLATE_DELEGATE_def TEMPLATE_EXCHANGE_def TEMPLATE_VOTE_def TEMPLATE_PAYMENT_def TEMPLATE_DEXORDER_def
  TEMPLATE_DEXMATCH_def TEMPLATE_DEXBBCMAP_def TEMPLATE_MAX_def

text \<open>The prototype objects of the table \<^verbatim>\<open>setTypeInfo\<close>, one per class.\<close>

datatype template_class =
  TWeighted | TMultiSig | TFork | TProof | TDelegate | TExchange | TVote | TPayment | TDexOrder | TDexMatch | TDexBbcMap

definition setTypeInfo :: "(uint16 \<times> template_class \<times> string) list" where
  "setTypeInfo =
    [(TEMPLATE_WEIGHTED, TWeighted, ''weighted''),
     (TEMPLATE_MULTISIG, TMultiSig, ''multisig''),
     (TEMPLATE_FORK, TFork, ''fork''),
     (TEMPLATE_PROOF, TProof, ''mint''),
     (TEMPLATE_DELEGATE, TDelegate, ''delegate''),
     (TEMPLATE_EXCHANGE, TExchange, ''exchange''),
     (TEMPLATE_VOTE, TVote, ''vote''),
     (TEMPLATE_PAYMENT, TPayment, ''payment''),
     (TEMPLATE_DEXORDER, TDexOrder, ''dexorder''),
     (TEMPLATE_DEXMATCH, TDexMatch, ''dexmatch''),
     (TEMPLATE_DEXBBCMAP, TDexBbcMap, ''dexbbcmap'')]"

definition GetTypeInfoByType :: "uint16 \<Rightarrow> (template_class \<times> string) option" where
  "GetTypeInfoByType nTypeIn = map_of setTypeInfo nTypeIn"

definition GetTypeInfoByName :: "string \<Rightarrow> (uint16 \<times> template_class) option" where
  "GetTypeInfoByName strNameIn = map_of (map (\<lambda>(nType, ptr, strName). (strName, nType, ptr)) setTypeInfo) strNameIn"

definition IsValidType :: "uint16 \<Rightarrow> bool" where
  "IsValidType nTypeIn \<longleftrightarrow> nTypeIn > TEMPLATE_MIN \<and> nTypeIn < TEMPLATE_MAX"

definition GetTypeName :: "uint16 \<Rightarrow> string" where
  "GetTypeName nTypeIn = (case GetTypeInfoByType nTypeIn of Some (ptr, strName) \<Rightarrow> strName | None \<Rightarrow> '''')"

text \<open>The interfaces a class derives from, which \<^verbatim>\<open>dynamic_cast\<close> asks for.\<close>

definition CSpendableTemplate :: "template_class \<Rightarrow> bool" where
  "CSpendableTemplate c \<longleftrightarrow> c = TWeighted \<or> c = TMultiSig"

definition CSendToRecordedTemplate :: "template_class \<Rightarrow> bool" where
  "CSendToRecordedTemplate c \<longleftrightarrow> c = TFork \<or> c = TVote \<or> c = TDexOrder \<or> c = TDexMatch"

definition CLockedCoinTemplate :: "template_class \<Rightarrow> bool" where
  "CLockedCoinTemplate c \<longleftrightarrow> c = TFork"

definition IsTxSpendable :: "CDestination \<Rightarrow> bool" where
  "IsTxSpendable dest =
    (if IsPubKey dest then True
     else if IsTemplate dest
     then (case GetTypeInfoByType (tid_GetType (GetTemplateId dest)) of
             Some (ptr, strName) \<Rightarrow> CSpendableTemplate ptr | None \<Rightarrow> False)
     else False)"

definition IsDestInRecorded :: "CDestination \<Rightarrow> bool" where
  "IsDestInRecorded dest =
    (if IsTemplate dest
     then (case GetTypeInfoByType (tid_GetType (GetTemplateId dest)) of
             Some (ptr, strName) \<Rightarrow> CSendToRecordedTemplate ptr | None \<Rightarrow> False)
     else False)"

definition IsLockedCoin :: "CDestination \<Rightarrow> bool" where
  "IsLockedCoin dest =
    (if IsTemplate dest
     then (case GetTypeInfoByType (tid_GetType (GetTemplateId dest)) of
             Some (ptr, strName) \<Rightarrow> CLockedCoinTemplate ptr | None \<Rightarrow> False)
     else False)"

section \<open>Destinations in data streams\<close>

definition dest_ToDataStream :: "CDestination \<Rightarrow> bytes" where
  "dest_ToDataStream d = od_push (dest_prefix d) @ od_push (dest_data d)"

definition dest_FromDataStream :: "CDestination loader" where
  "dest_FromDataStream = ld_bind id_basic (\<lambda>prefix. ld_bind id_basic (\<lambda>data. ld_return (CDestination prefix data)))"

section \<open>Weighted and multiple signatures\<close>

record CTemplateWeighted =
  tw_nRequired :: uint8
  tw_mapPubKeyWeight :: "(uint256, uint8) stdmap"

definition MAX_KEY_NUMBER :: nat where "MAX_KEY_NUMBER = 16"

definition weighted_ValidateParam :: "CTemplateWeighted \<Rightarrow> bool" where
  "weighted_ValidateParam t =
    (if tw_nRequired t < 1 then False
     else if length (tw_mapPubKeyWeight t) \<le> 1 \<or> length (tw_mapPubKeyWeight t) > MAX_KEY_NUMBER then False
     else if \<exists>keyweight \<in> set (tw_mapPubKeyWeight t). snd keyweight < 1 then False
     else \<not> (\<Sum>keyweight\<leftarrow>tw_mapPubKeyWeight t. unat (snd keyweight)) < unat (tw_nRequired t))"

definition weighted_SetTemplateData :: "CTemplateWeighted loader" where
  "weighted_SetTemplateData =
    ld_bind id_basic (\<lambda>nRequired. ld_bind (id_map id_basic id_basic []) (\<lambda>mapPubKeyWeight.
      ld_return \<lparr>tw_nRequired = nRequired, tw_mapPubKeyWeight = mapPubKeyWeight\<rparr>))"

definition weighted_BuildTemplateData :: "CTemplateWeighted \<Rightarrow> bytes" where
  "weighted_BuildTemplateData t = od_push (tw_nRequired t) @ od_map od_push od_push (tw_mapPubKeyWeight t)"

section \<open>Forks\<close>

record CTemplateFork =
  tf_destRedeem :: CDestination
  tf_hashFork :: uint256

definition COIN :: int where "COIN = 1000000"
definition MORTGAGE_BASE :: int where "MORTGAGE_BASE = 10000 * COIN"
definition MORTGAGE_DECAY_CYCLE :: int where "MORTGAGE_DECAY_CYCLE = 60 * 24 * 90"

definition CreatedCoin :: int where "CreatedCoin = MORTGAGE_BASE"

text \<open>\<^verbatim>\<open>MORTGAGE_BASE * pow(0.5, nHeight / MORTGAGE_DECAY_CYCLE)\<close>: for heights from 0 the product is exact in a
  \<^verbatim>\<open>double\<close> (a 34-bit integer times a power of two), and the conversion truncates it.\<close>

definition LockedCoin :: "nat \<Rightarrow> int" where
  "LockedCoin nHeight = MORTGAGE_BASE div 2 ^ (nHeight div nat MORTGAGE_DECAY_CYCLE)"

definition fork_ValidateParam :: "CTemplateFork \<Rightarrow> bool" where
  "fork_ValidateParam t =
    (if \<not> IsTxSpendable (tf_destRedeem t) then False else if tf_hashFork t = 0 then False else True)"

definition fork_SetTemplateData :: "CTemplateFork loader" where
  "fork_SetTemplateData =
    ld_bind dest_FromDataStream (\<lambda>destRedeem. ld_bind id_basic (\<lambda>hashFork.
      ld_return \<lparr>tf_destRedeem = destRedeem, tf_hashFork = hashFork\<rparr>))"

definition fork_BuildTemplateData :: "CTemplateFork \<Rightarrow> bytes" where
  "fork_BuildTemplateData t = dest_ToDataStream (tf_destRedeem t) @ od_push (tf_hashFork t)"

definition GetForkParam :: "CTemplateFork \<Rightarrow> CDestination \<times> uint256" where
  "GetForkParam t = (tf_destRedeem t, tf_hashFork t)"

section \<open>Minting: proof of work and delegates\<close>

record CTemplateProof =
  tp_keyMint :: uint256
  tp_destSpend :: CDestination

definition proof_ValidateParam :: "CTemplateProof \<Rightarrow> bool" where
  "proof_ValidateParam t =
    (if tp_keyMint t = 0 then False else if \<not> IsTxSpendable (tp_destSpend t) then False else True)"

definition proof_SetTemplateData :: "CTemplateProof loader" where
  "proof_SetTemplateData =
    ld_bind id_basic (\<lambda>keyMint. ld_bind dest_FromDataStream (\<lambda>destSpend.
      ld_return \<lparr>tp_keyMint = keyMint, tp_destSpend = destSpend\<rparr>))"

definition proof_BuildTemplateData :: "CTemplateProof \<Rightarrow> bytes" where
  "proof_BuildTemplateData t = od_push (tp_keyMint t) @ dest_ToDataStream (tp_destSpend t)"

record CTemplateDelegate =
  td_keyDelegate :: uint256
  td_destOwner :: CDestination

definition delegate_ValidateParam :: "CTemplateDelegate \<Rightarrow> bool" where
  "delegate_ValidateParam t =
    (if td_keyDelegate t = 0 then False else if \<not> IsTxSpendable (td_destOwner t) then False else True)"

definition delegate_SetTemplateData :: "CTemplateDelegate loader" where
  "delegate_SetTemplateData =
    ld_bind id_basic (\<lambda>keyDelegate. ld_bind dest_FromDataStream (\<lambda>destOwner.
      ld_return \<lparr>td_keyDelegate = keyDelegate, td_destOwner = destOwner\<rparr>))"

definition delegate_BuildTemplateData :: "CTemplateDelegate \<Rightarrow> bytes" where
  "delegate_BuildTemplateData t = od_push (td_keyDelegate t) @ dest_ToDataStream (td_destOwner t)"

section \<open>Votes\<close>

record CTemplateVote =
  tv_destDelegate :: CDestination
  tv_destOwner :: CDestination

definition vote_ValidateParam :: "CTemplateVote \<Rightarrow> bool" where
  "vote_ValidateParam t =
    (if \<not> (case GetTemplateId_out (tv_destDelegate t) of Some tid \<Rightarrow> tid_GetType tid = TEMPLATE_DELEGATE | None \<Rightarrow> False)
     then False
     else if \<not> IsTxSpendable (tv_destOwner t) then False
     else True)"

definition vote_SetTemplateData :: "CTemplateVote loader" where
  "vote_SetTemplateData =
    ld_bind dest_FromDataStream (\<lambda>destDelegate. ld_bind dest_FromDataStream (\<lambda>destOwner.
      ld_return \<lparr>tv_destDelegate = destDelegate, tv_destOwner = destOwner\<rparr>))"

definition vote_BuildTemplateData :: "CTemplateVote \<Rightarrow> bytes" where
  "vote_BuildTemplateData t = dest_ToDataStream (tv_destDelegate t) @ dest_ToDataStream (tv_destOwner t)"

definition GetDelegateOwnerDestination :: "CTemplateVote \<Rightarrow> CDestination \<times> CDestination" where
  "GetDelegateOwnerDestination t = (tv_destDelegate t, tv_destOwner t)"

section \<open>Exchanges between forks\<close>

record CTemplateExchange =
  te_destSpend_m :: CDestination
  te_destSpend_s :: CDestination
  te_height_m :: uint32
  te_height_s :: uint32
  te_fork_m :: uint256
  te_fork_s :: uint256

definition exchange_DataLen :: nat where "exchange_DataLen = (1 + 32 + 4 + 32) * 2"

definition exchange_ValidateParam :: "CTemplateExchange \<Rightarrow> bool" where
  "exchange_ValidateParam t =
    (if \<not> IsPubKey (te_destSpend_m t) \<or> \<not> IsPubKey (te_destSpend_s t) then False
     else if te_fork_m t = 0 \<or> te_fork_s t = 0 then False
     else if te_height_m t = 0 \<or> te_height_s t = 0 \<or> te_height_m t = te_height_s t then False
     else True)"

definition exchange_SetTemplateData :: "CTemplateExchange loader" where
  "exchange_SetTemplateData =
    ld_bind id_basic (\<lambda>prefix_m. ld_bind id_basic (\<lambda>data_m. ld_bind id_basic (\<lambda>prefix_s. ld_bind id_basic (\<lambda>data_s.
    ld_bind id_basic (\<lambda>height_m. ld_bind id_basic (\<lambda>height_s. ld_bind id_basic (\<lambda>fork_m. ld_bind id_basic (\<lambda>fork_s.
      ld_return \<lparr>te_destSpend_m = CDestination prefix_m data_m, te_destSpend_s = CDestination prefix_s data_s,
        te_height_m = height_m, te_height_s = height_s, te_fork_m = fork_m, te_fork_s = fork_s\<rparr>))))))))"

definition exchange_BuildTemplateData :: "CTemplateExchange \<Rightarrow> bytes" where
  "exchange_BuildTemplateData t =
    od_push (dest_prefix (te_destSpend_m t)) @ od_push (dest_data (te_destSpend_m t)) @
    od_push (dest_prefix (te_destSpend_s t)) @ od_push (dest_data (te_destSpend_s t)) @
    od_push (te_height_m t) @ od_push (te_height_s t) @ od_push (te_fork_m t) @ od_push (te_fork_s t)"

section \<open>Payments\<close>

record CTemplatePayment =
  m_business :: CDestination
  m_customer :: CDestination
  m_height_exec :: uint32
  m_amount :: uint64
  m_pledge :: uint64
  m_height_end :: uint32

definition SafeHeight :: uint32 where "SafeHeight = 30"

definition payment_ValidateParam :: "CTemplatePayment \<Rightarrow> bool" where
  "payment_ValidateParam t =
    (if \<not> IsPubKey (m_business t) \<or> \<not> IsPubKey (m_customer t) then False
     else if m_height_exec t > m_height_end t \<or> m_amount t = 0 then False
     else if m_pledge t = m_amount t then False
     else if m_height_exec t + SafeHeight > m_height_end t then False
     else True)"

definition payment_SetTemplateData :: "CTemplatePayment loader" where
  "payment_SetTemplateData =
    ld_bind id_basic (\<lambda>prefix_b. ld_bind id_basic (\<lambda>data_b. ld_bind id_basic (\<lambda>prefix_c. ld_bind id_basic (\<lambda>data_c.
    ld_bind id_basic (\<lambda>height_exec. ld_bind id_basic (\<lambda>amount. ld_bind id_basic (\<lambda>pledge. ld_bind id_basic (\<lambda>height_end.
      ld_return \<lparr>m_business = CDestination prefix_b data_b, m_customer = CDestination prefix_c data_c,
        m_height_exec = height_exec, m_amount = amount, m_pledge = pledge, m_height_end = height_end\<rparr>))))))))"

definition payment_BuildTemplateData :: "CTemplatePayment \<Rightarrow> bytes" where
  "payment_BuildTemplateData t =
    od_push (dest_prefix (m_business t)) @ od_push (dest_data (m_business t)) @
    od_push (dest_prefix (m_customer t)) @ od_push (dest_data (m_customer t)) @
    od_push (m_height_exec t) @ od_push (m_amount t) @ od_push (m_pledge t) @ od_push (m_height_end t)"

section \<open>Decentralized exchange: orders, matches and maps\<close>

definition FEE_PRECISION :: int where "FEE_PRECISION = 10000"
definition MAX_STRING_ADDRESS_LEN :: nat where "MAX_STRING_ADDRESS_LEN = 128"
definition MAX_STRING_AMOUNT_LEN :: nat where "MAX_STRING_AMOUNT_LEN = 64"
definition TNS_DEX_MAX_MATCH_TOKEN :: int where "TNS_DEX_MAX_MATCH_TOKEN = 1844674407"

record CTemplateDexOrder =
  to_destSeller :: CDestination
  to_vCoinPair :: bytes
  to_nPrice :: uint64
  to_nFee :: int32
  to_vRecvDest :: bytes
  to_nValidHeight :: int32
  to_destMatch :: CDestination
  to_vDealDest :: bytes
  to_nTimeStamp :: uint32

definition dexorder_ValidateParam :: "CTemplateDexOrder \<Rightarrow> bool" where
  "dexorder_ValidateParam t =
    (if \<not> IsTxSpendable (to_destSeller t) then False
     else if to_vCoinPair t = [] then False
     else if to_nPrice t = 0 then False
     else if sint (to_nFee t) \<le> 1 \<or> sint (to_nFee t) \<ge> FEE_PRECISION then False
     else if to_vRecvDest t = [] \<or> length (to_vRecvDest t) > MAX_STRING_ADDRESS_LEN then False
     else if sint (to_nValidHeight t) \<le> 0 then False
     else if \<not> IsTxSpendable (to_destMatch t) then False
     else if to_vDealDest t = [] \<or> length (to_vDealDest t) > MAX_STRING_ADDRESS_LEN then False
     else True)"

definition dexorder_SetTemplateData :: "CTemplateDexOrder loader" where
  "dexorder_SetTemplateData =
    ld_bind dest_FromDataStream (\<lambda>destSeller. ld_bind id_vector_basic (\<lambda>vCoinPair. ld_bind id_basic (\<lambda>nPrice.
    ld_bind id_basic (\<lambda>nFee. ld_bind id_vector_basic (\<lambda>vRecvDest. ld_bind id_basic (\<lambda>nValidHeight.
    ld_bind dest_FromDataStream (\<lambda>destMatch. ld_bind id_vector_basic (\<lambda>vDealDest. ld_bind id_basic (\<lambda>nTimeStamp.
      ld_return \<lparr>to_destSeller = destSeller, to_vCoinPair = vCoinPair, to_nPrice = nPrice, to_nFee = nFee,
        to_vRecvDest = vRecvDest, to_nValidHeight = nValidHeight, to_destMatch = destMatch, to_vDealDest = vDealDest,
        to_nTimeStamp = nTimeStamp\<rparr>)))))))))"

definition dexorder_BuildTemplateData :: "CTemplateDexOrder \<Rightarrow> bytes" where
  "dexorder_BuildTemplateData t =
    dest_ToDataStream (to_destSeller t) @ od_vector_basic (to_vCoinPair t) @ od_push (to_nPrice t) @
    od_push (to_nFee t) @ od_vector_basic (to_vRecvDest t) @ od_push (to_nValidHeight t) @
    dest_ToDataStream (to_destMatch t) @ od_vector_basic (to_vDealDest t) @ od_push (to_nTimeStamp t)"

record CTemplateDexMatch =
  tm_destMatch :: CDestination
  tm_vCoinPair :: bytes
  tm_nFinalPrice :: uint64
  tm_nMatchAmount :: int64
  tm_nFee :: int32
  tm_hashSecret :: uint256
  tm_encSecret :: bytes
  tm_destSellerOrder :: CDestination
  tm_destSeller :: CDestination
  tm_destSellerDeal :: CDestination
  tm_nSellerValidHeight :: int32
  tm_destBuyer :: CDestination
  tm_vBuyerAmount :: bytes
  tm_hashBuyerSecret :: uint256
  tm_nBuyerValidHeight :: int32

definition dexmatch_ValidateParam :: "CTemplateDexMatch \<Rightarrow> bool" where
  "dexmatch_ValidateParam t =
    (if \<not> IsTxSpendable (tm_destMatch t) then False
     else if tm_vCoinPair t = [] then False
     else if tm_nFinalPrice t = 0 then False
     else if sint (tm_nMatchAmount t) \<le> 0 \<or> sint (tm_nMatchAmount t) > TNS_DEX_MAX_MATCH_TOKEN * COIN then False
     else if sint (tm_nFee t) \<le> 1 \<or> sint (tm_nFee t) \<ge> FEE_PRECISION then False
     else if tm_hashSecret t = 0 then False
     else if tm_encSecret t = [] then False
     else if \<not> IsTemplate (tm_destSellerOrder t) \<or> tid_GetType (GetTemplateId (tm_destSellerOrder t)) \<noteq> TEMPLATE_DEXORDER
     then False
     else if \<not> IsTxSpendable (tm_destSeller t) then False
     else if \<not> IsTxSpendable (tm_destSellerDeal t) then False
     else if sint (tm_nSellerValidHeight t) \<le> 0 then False
     else if \<not> IsTxSpendable (tm_destBuyer t) then False
     else if tm_vBuyerAmount t = [] \<or> length (tm_vBuyerAmount t) > MAX_STRING_AMOUNT_LEN then False
     else if tm_hashBuyerSecret t = 0 then False
     else if sint (tm_nBuyerValidHeight t) \<le> 0 then False
     else True)"

definition dexmatch_SetTemplateData :: "CTemplateDexMatch loader" where
  "dexmatch_SetTemplateData =
    ld_bind dest_FromDataStream (\<lambda>destMatch. ld_bind id_vector_basic (\<lambda>vCoinPair. ld_bind id_basic (\<lambda>nFinalPrice.
    ld_bind id_basic (\<lambda>nMatchAmount. ld_bind id_basic (\<lambda>nFee. ld_bind id_basic (\<lambda>hashSecret.
    ld_bind id_vector_basic (\<lambda>encSecret. ld_bind dest_FromDataStream (\<lambda>destSellerOrder. ld_bind dest_FromDataStream (\<lambda>destSeller.
    ld_bind dest_FromDataStream (\<lambda>destSellerDeal. ld_bind id_basic (\<lambda>nSellerValidHeight. ld_bind dest_FromDataStream (\<lambda>destBuyer.
    ld_bind id_vector_basic (\<lambda>vBuyerAmount. ld_bind id_basic (\<lambda>hashBuyerSecret. ld_bind id_basic (\<lambda>nBuyerValidHeight.
      ld_return \<lparr>tm_destMatch = destMatch, tm_vCoinPair = vCoinPair, tm_nFinalPrice = nFinalPrice,
        tm_nMatchAmount = nMatchAmount, tm_nFee = nFee, tm_hashSecret = hashSecret, tm_encSecret = encSecret,
        tm_destSellerOrder = destSellerOrder, tm_destSeller = destSeller, tm_destSellerDeal = destSellerDeal,
        tm_nSellerValidHeight = nSellerValidHeight, tm_destBuyer = destBuyer, tm_vBuyerAmount = vBuyerAmount,
        tm_hashBuyerSecret = hashBuyerSecret, tm_nBuyerValidHeight = nBuyerValidHeight\<rparr>)))))))))))))))"

definition dexmatch_BuildTemplateData :: "CTemplateDexMatch \<Rightarrow> bytes" where
  "dexmatch_BuildTemplateData t =
    dest_ToDataStream (tm_destMatch t) @ od_vector_basic (tm_vCoinPair t) @ od_push (tm_nFinalPrice t) @
    od_push (tm_nMatchAmount t) @ od_push (tm_nFee t) @ od_push (tm_hashSecret t) @ od_vector_basic (tm_encSecret t) @
    dest_ToDataStream (tm_destSellerOrder t) @ dest_ToDataStream (tm_destSeller t) @
    dest_ToDataStream (tm_destSellerDeal t) @ od_push (tm_nSellerValidHeight t) @ dest_ToDataStream (tm_destBuyer t) @
    od_vector_basic (tm_vBuyerAmount t) @ od_push (tm_hashBuyerSecret t) @ od_push (tm_nBuyerValidHeight t)"

record CTemplateDexBbcMap =
  tb_destOwner :: CDestination

definition dexbbcmap_ValidateParam :: "CTemplateDexBbcMap \<Rightarrow> bool" where
  "dexbbcmap_ValidateParam t = (if \<not> IsTxSpendable (tb_destOwner t) then False else True)"

definition dexbbcmap_SetTemplateData :: "CTemplateDexBbcMap loader" where
  "dexbbcmap_SetTemplateData = ld_bind dest_FromDataStream (\<lambda>destOwner. ld_return \<lparr>tb_destOwner = destOwner\<rparr>)"

definition dexbbcmap_BuildTemplateData :: "CTemplateDexBbcMap \<Rightarrow> bytes" where
  "dexbbcmap_BuildTemplateData t = dest_ToDataStream (tb_destOwner t)"

section \<open>Templates\<close>

datatype template_param =
    PWeighted CTemplateWeighted
  | PMultiSig CTemplateWeighted
  | PFork CTemplateFork
  | PProof CTemplateProof
  | PDelegate CTemplateDelegate
  | PExchange CTemplateExchange
  | PVote CTemplateVote
  | PPayment CTemplatePayment
  | PDexOrder CTemplateDexOrder
  | PDexMatch CTemplateDexMatch
  | PDexBbcMap CTemplateDexBbcMap

text \<open>The type each constructor hands to the base class.\<close>

fun param_type :: "template_param \<Rightarrow> uint16" where
  "param_type (PWeighted t) = TEMPLATE_WEIGHTED"
| "param_type (PMultiSig t) = TEMPLATE_MULTISIG"
| "param_type (PFork t) = TEMPLATE_FORK"
| "param_type (PProof t) = TEMPLATE_PROOF"
| "param_type (PDelegate t) = TEMPLATE_DELEGATE"
| "param_type (PExchange t) = TEMPLATE_EXCHANGE"
| "param_type (PVote t) = TEMPLATE_VOTE"
| "param_type (PPayment t) = TEMPLATE_PAYMENT"
| "param_type (PDexOrder t) = TEMPLATE_DEXORDER"
| "param_type (PDexMatch t) = TEMPLATE_DEXMATCH"
| "param_type (PDexBbcMap t) = TEMPLATE_DEXBBCMAP"

fun ValidateParam :: "template_param \<Rightarrow> bool" where
  "ValidateParam (PWeighted t) = weighted_ValidateParam t"
| "ValidateParam (PMultiSig t) = weighted_ValidateParam t"
| "ValidateParam (PFork t) = fork_ValidateParam t"
| "ValidateParam (PProof t) = proof_ValidateParam t"
| "ValidateParam (PDelegate t) = delegate_ValidateParam t"
| "ValidateParam (PExchange t) = exchange_ValidateParam t"
| "ValidateParam (PVote t) = vote_ValidateParam t"
| "ValidateParam (PPayment t) = payment_ValidateParam t"
| "ValidateParam (PDexOrder t) = dexorder_ValidateParam t"
| "ValidateParam (PDexMatch t) = dexmatch_ValidateParam t"
| "ValidateParam (PDexBbcMap t) = dexbbcmap_ValidateParam t"

definition ld_map :: "('a \<Rightarrow> 'b) \<Rightarrow> 'a loader \<Rightarrow> 'b loader" where
  "ld_map f ld = ld_bind ld (\<lambda>a. ld_return (f a))"

fun SetTemplateData :: "template_class \<Rightarrow> template_param loader" where
  "SetTemplateData TWeighted = ld_map PWeighted weighted_SetTemplateData"
| "SetTemplateData TMultiSig = ld_map PMultiSig weighted_SetTemplateData"
| "SetTemplateData TFork = ld_map PFork fork_SetTemplateData"
| "SetTemplateData TProof = ld_map PProof proof_SetTemplateData"
| "SetTemplateData TDelegate = ld_map PDelegate delegate_SetTemplateData"
| "SetTemplateData TExchange = ld_map PExchange exchange_SetTemplateData"
| "SetTemplateData TVote = ld_map PVote vote_SetTemplateData"
| "SetTemplateData TPayment = ld_map PPayment payment_SetTemplateData"
| "SetTemplateData TDexOrder = ld_map PDexOrder dexorder_SetTemplateData"
| "SetTemplateData TDexMatch = ld_map PDexMatch dexmatch_SetTemplateData"
| "SetTemplateData TDexBbcMap = ld_map PDexBbcMap dexbbcmap_SetTemplateData"

fun BuildTemplateData :: "template_param \<Rightarrow> bytes" where
  "BuildTemplateData (PWeighted t) = weighted_BuildTemplateData t"
| "BuildTemplateData (PMultiSig t) = weighted_BuildTemplateData t"
| "BuildTemplateData (PFork t) = fork_BuildTemplateData t"
| "BuildTemplateData (PProof t) = proof_BuildTemplateData t"
| "BuildTemplateData (PDelegate t) = delegate_BuildTemplateData t"
| "BuildTemplateData (PExchange t) = exchange_BuildTemplateData t"
| "BuildTemplateData (PVote t) = vote_BuildTemplateData t"
| "BuildTemplateData (PPayment t) = payment_BuildTemplateData t"
| "BuildTemplateData (PDexOrder t) = dexorder_BuildTemplateData t"
| "BuildTemplateData (PDexMatch t) = dexmatch_BuildTemplateData t"
| "BuildTemplateData (PDexBbcMap t) = dexbbcmap_BuildTemplateData t"

record CTemplate =
  t_nType :: uint16
  t_nId :: uint256
  t_vchData :: bytes
  t_param :: template_param

definition BuildTemplateId :: "(bytes \<Rightarrow> uint256) \<Rightarrow> uint16 \<Rightarrow> bytes \<Rightarrow> uint256" where
  "BuildTemplateId H nType vchData = CTemplateId nType (H vchData)"

text \<open>A template whose data and id have been built from its parameters.\<close>

definition built :: "(bytes \<Rightarrow> uint256) \<Rightarrow> template_param \<Rightarrow> CTemplate" where
  "built H p =
    (let vchData = BuildTemplateData p
     in \<lparr>t_nType = param_type p, t_nId = BuildTemplateId H (param_type p) vchData, t_vchData = vchData, t_param = p\<rparr>)"

definition CreateTemplatePtr_obj :: "(bytes \<Rightarrow> uint256) \<Rightarrow> template_param \<Rightarrow> CTemplate option" where
  "CreateTemplatePtr_obj H p = (if \<not> ValidateParam p then None else Some (built H p))"

definition CreateTemplatePtr :: "(bytes \<Rightarrow> uint256) \<Rightarrow> uint16 \<Rightarrow> bytes \<Rightarrow> stream_error + CTemplate option" where
  "CreateTemplatePtr H nTypeIn vchDataIn =
    (case GetTypeInfoByType nTypeIn of
       None \<Rightarrow> Inr None
     | Some (ptr, strName) \<Rightarrow>
         (case SetTemplateData ptr vchDataIn of
            Inl UndefinedRead \<Rightarrow> Inl UndefinedRead
          | Inl e \<Rightarrow> Inr None
          | Inr (p, rest) \<Rightarrow> Inr (if \<not> ValidateParam p then None else Some (built H p))))"

definition CreateTemplatePtr_id :: "(bytes \<Rightarrow> uint256) \<Rightarrow> uint256 \<Rightarrow> bytes \<Rightarrow> stream_error + CTemplate option" where
  "CreateTemplatePtr_id H nIdIn vchDataIn = CreateTemplatePtr H (tid_GetType nIdIn) vchDataIn"

definition CreateTemplatePtr_dest :: "(bytes \<Rightarrow> uint256) \<Rightarrow> CDestination \<Rightarrow> bytes \<Rightarrow> stream_error + CTemplate option" where
  "CreateTemplatePtr_dest H destIn vchDataIn = CreateTemplatePtr_id H (GetTemplateId destIn) vchDataIn"

definition Import :: "(bytes \<Rightarrow> uint256) \<Rightarrow> bytes \<Rightarrow> stream_error + CTemplate option" where
  "Import H vchTemplateIn =
    (if length vchTemplateIn < 2 then Inr None
     else let nTemplateTypeIn = (ucast (vchTemplateIn ! 0) :: uint16) OR push_bit 8 (ucast (vchTemplateIn ! 1));
              vchDataIn = drop 2 vchTemplateIn
          in CreateTemplatePtr H nTemplateTypeIn vchDataIn)"

definition Export :: "CTemplate \<Rightarrow> bytes" where
  "Export t = [ucast (t_nType t AND 0xff), ucast (drop_bit 8 (t_nType t))] @ t_vchData t"

definition VerifyTemplateData :: "CTemplate \<Rightarrow> bytes \<Rightarrow> bool" where
  "VerifyTemplateData t vchSig \<longleftrightarrow>
    length vchSig \<ge> length (t_vchData t) \<and> take (length (t_vchData t)) vchSig = t_vchData t"

section \<open>Parsing consumes what building would write\<close>

text \<open>A codec whose loader only returns valid values and consumes as many bytes as the value
  takes: loading and saving again is safe.\<close>

locale exact_codec = codec save load size valid
  for save :: "'a \<Rightarrow> bytes" and load :: "'a loader" and size :: "'a \<Rightarrow> nat" and valid :: "'a \<Rightarrow> bool" +
  assumes load_exact: "load s = Inr (a, r) \<Longrightarrow> valid a \<and> length (save a) \<le> length s \<and> r = drop (length (save a)) s"
begin

lemma reload: "load s = Inr (a, r) \<Longrightarrow> load (save a @ x) = Inr (a, x)"
  using load_exact load_save by blast

end

lemma ld_bind_eq_Inr:
  "ld_bind m f s = Inr (b, r) \<longleftrightarrow> (\<exists>a s'. m s = Inr (a, s') \<and> f a s' = Inr (b, r))"
  by (auto simp: ld_bind_def split: sum.splits prod.splits)

lemma length_od_push [simp]: "length (od_push (w :: 'a::len word)) = LENGTH('a) div 8"
  by (simp add: od_push_def)

lemma id_basic_exact:
  "id_basic s = Inr (a :: 'a::len word, r) \<Longrightarrow> LENGTH('a) div 8 \<le> length s \<and> r = drop (LENGTH('a) div 8) s"
  by (auto simp: id_basic_def ld_bind_eq_Inr ld_return_apply id_pop_def split: if_splits)

lemma length_od_vector_basic [simp]: "length (od_vector_basic (v :: uint8 list)) = 8 + length v"
  using length_concat_od_push [of v] by (simp add: od_vector_basic_def)

lemma length_split_basic [simp]: "length (split_basic n bs) = n"
  by (induction n arbitrary: bs) auto

lemma id_vector_basic_exact:
  assumes "id_vector_basic s = Inr (v :: uint8 list, r)"
  shows "length v < 2 ^ 64 \<and> 8 + length v \<le> length s \<and> r = drop (8 + length v) s"
proof -
  have one: "n * (LENGTH(8) div 8) = n" for n
    by simp
  obtain sz :: uint64 and s' where s: "id_basic s = Inr (sz, s')"
      "(if unat sz > length s' then Inl UndefinedRead else Inr (split_basic (unat sz) (take (unat sz) s'), drop (unat sz) s'))
        = Inr (v, r)"
    using assms unfolding id_vector_basic_def ld_bind_eq_Inr Let_def one by blast
  have "unat sz < 2 ^ LENGTH(64)"
    by (rule unsigned_less)
  moreover have le: "unat sz \<le> length s'"
    using s(2) by (cases "unat sz > length s'") simp_all
  moreover have "split_basic (unat sz) (take (unat sz) s') = v" "drop (unat sz) s' = r"
    using s(2) le by simp_all
  then have v: "length v = unat sz" "r = drop (unat sz) s'"
    by (simp_all flip: \<open>split_basic (unat sz) (take (unat sz) s') = v\<close>)
  moreover have s': "8 \<le> length s" "s' = drop 8 s"
    using id_basic_exact [OF s(1)] by simp_all
  moreover have "r = drop (8 + length v) s"
    unfolding v s'(2) drop_drop by (simp only: add.commute)
  moreover have "length s' = length s - 8"
    unfolding s'(2) by simp
  ultimately show ?thesis by simp
qed

lemma id_map_loop_exact:
  assumes "id_map_loop id_basic id_basic n m s = Inr (m' :: (uint256, uint8) stdmap, r)" "ordered_keys m"
  shows "ordered_keys m' \<and> length m' = length m + n \<and> 33 * n \<le> length s \<and> r = drop (33 * n) s"
  using assms
proof (induction n arbitrary: m s)
  case (Suc n)
  obtain k s1 v s2 where l: "id_basic s = Inr (k, s1)" "id_basic s1 = Inr (v, s2)" "map_of m k = None"
      "id_map_loop id_basic id_basic n (map_insert k v m) s2 = Inr (m', r)"
    using Suc.prems(1) by (auto simp: ld_bind_eq_Inr ld_throw_apply split: option.splits)
  have "length (map_insert k v m) = Suc (length m)"
    using l(3) Suc.prems(2) by (simp add: map_insert_def length_map_set)
  then show ?case
    using Suc.IH [OF l(4)] Suc.prems(2) id_basic_exact [OF l(1)] id_basic_exact [OF l(2)]
    by (auto simp: algebra_simps)
qed (simp add: codec_simps)

lemma length_od_map [simp]:
  "length (od_map od_push od_push (m :: (uint256, uint8) stdmap)) = 8 + 33 * length m"
proof -
  have "length (concat (map (\<lambda>it. od_push (fst it) @ od_push (snd it)) m)) = 33 * length m"
    by (induction m) auto
  then show ?thesis by (simp add: od_map_def)
qed

lemma id_map_exact:
  assumes "id_map id_basic id_basic [] s = Inr (m :: (uint256, uint8) stdmap, r)"
  shows "ordered_keys m \<and> length m < 2 ^ 64 \<and> 8 + 33 * length m \<le> length s \<and> r = drop (8 + 33 * length m) s"
proof -
  obtain sz :: uint64 and s' where s: "id_basic s = Inr (sz, s')" "id_map_loop id_basic id_basic (unat sz) [] s' = Inr (m, r)"
    using assms by (auto simp: id_map_def ld_bind_eq_Inr)
  have "unat sz < 2 ^ LENGTH(64)"
    by (rule unsigned_less)
  moreover have s': "8 \<le> length s" "s' = drop 8 s"
    using id_basic_exact [OF s(1)] by simp_all
  moreover have m: "ordered_keys m" "length m = unat sz" "33 * unat sz \<le> length s'" "r = drop (33 * unat sz) s'"
    using id_map_loop_exact [OF s(2)] by simp_all
  moreover have "r = drop (8 + 33 * length m) s"
    unfolding m(2,4) s'(2) drop_drop by (simp only: add.commute)
  moreover have "length s' = length s - 8"
    unfolding s'(2) by simp
  ultimately show ?thesis by simp
qed

lemma dest_exact:
  "dest_FromDataStream s = Inr (d, r) \<Longrightarrow> 33 \<le> length s \<and> r = drop 33 s"
  by (auto simp: dest_FromDataStream_def ld_bind_eq_Inr ld_return_apply dest!: id_basic_exact)

lemma length_dest [simp]: "length (dest_ToDataStream d) = 33"
  by (simp add: dest_ToDataStream_def)

lemma dest_load_save: "dest_FromDataStream (dest_ToDataStream d @ s) = Inr (d, s)"
  by (cases d) (simp add: dest_FromDataStream_def dest_ToDataStream_def codec_simps d8.load_save d256.load_save)

interpretation ddest: exact_codec dest_ToDataStream dest_FromDataStream "\<lambda>d. 33" "\<lambda>d. True"
  by unfold_locales (use dest_load_save dest_exact in auto)

lemma vector_load_save: "length v < 2 ^ 64 \<Longrightarrow> id_vector_basic (od_vector_basic (v :: uint8 list) @ s) = Inr (v, s)"
  by (rule codec.load_save [OF codec_od_vector_basic]) simp_all

lemma weight_map_load_save:
  assumes "ordered_keys (m :: (uint256, uint8) stdmap)" "length m < 2 ^ 64"
  shows "id_map id_basic id_basic [] (od_map od_push od_push m @ s) = Inr (m, s)"
  using id_map_loop_save [OF d256.codec_axioms d8.codec_axioms, of "[]" m s] assms
  by (simp add: id_map_def od_map_def codec_simps unat_length list_all_iff)

lemmas field_load_save = d8.load_save d16.load_save d32.load_save d64.load_save d256.load_save dest_load_save vector_load_save
  weight_map_load_save

text \<open>\<open>ld_wp ld Q\<close>: a successful run of the loader returns a value and consumes a number of bytes that satisfy \<open>Q\<close>.\<close>

definition ld_wp :: "'a loader \<Rightarrow> ('a \<Rightarrow> nat \<Rightarrow> bool) \<Rightarrow> bool" where
  "ld_wp ld Q \<longleftrightarrow> (\<forall>s a r. ld s = Inr (a, r) \<longrightarrow> (\<exists>n. Q a n \<and> n \<le> length s \<and> r = drop n s))"

lemma ld_wpD: "ld_wp ld Q \<Longrightarrow> ld s = Inr (a, r) \<Longrightarrow> \<exists>n. Q a n \<and> n \<le> length s \<and> r = drop n s"
  by (simp add: ld_wp_def)

lemma wp_return: "Q a 0 \<Longrightarrow> ld_wp (ld_return a) Q"
  by (auto simp: ld_wp_def ld_return_apply)

lemma wp_bind:
  assumes "ld_wp m (\<lambda>a n. ld_wp (f a) (\<lambda>b k. Q b (n + k)))"
  shows "ld_wp (ld_bind m f) Q"
  unfolding ld_wp_def
proof (intro allI impI)
  fix s b r
  assume "ld_bind m f s = Inr (b, r)"
  then obtain a s' where l: "m s = Inr (a, s')" "f a s' = Inr (b, r)"
    by (auto simp: ld_bind_eq_Inr)
  obtain n where n: "ld_wp (f a) (\<lambda>b k. Q b (n + k))" "n \<le> length s" "s' = drop n s"
    using ld_wpD [OF assms l(1)] by blast
  obtain k where k: "Q b (n + k)" "k \<le> length s'" "r = drop k s'"
    using ld_wpD [OF n(1) l(2)] by blast
  have "r = drop (n + k) s"
    unfolding k(3) n(3) drop_drop by (simp only: add.commute)
  moreover have "n + k \<le> length s"
    using n(2) k(2) unfolding n(3) length_drop by linarith
  ultimately show "\<exists>n. Q b n \<and> n \<le> length s \<and> r = drop n s"
    using k(1) by blast
qed

lemma wp_basic: "(\<And>a :: 'a::len word. Q a (LENGTH('a) div 8)) \<Longrightarrow> ld_wp id_basic Q"
  unfolding ld_wp_def using id_basic_exact by blast

lemma wp_dest: "(\<And>d. Q d 33) \<Longrightarrow> ld_wp dest_FromDataStream Q"
  unfolding ld_wp_def using dest_exact by blast

lemma wp_vector: "(\<And>v :: uint8 list. length v < 2 ^ 64 \<Longrightarrow> Q v (8 + length v)) \<Longrightarrow> ld_wp id_vector_basic Q"
  unfolding ld_wp_def using id_vector_basic_exact by blast

lemma wp_map:
  "(\<And>m :: (uint256, uint8) stdmap. ordered_keys m \<Longrightarrow> length m < 2 ^ 64 \<Longrightarrow> Q m (8 + 33 * length m)) \<Longrightarrow>
    ld_wp (id_map id_basic id_basic []) Q"
  unfolding ld_wp_def using id_map_exact by blast

lemmas wp_rules = wp_return wp_bind wp_basic wp_dest wp_vector wp_map

lemma exact_codecI:
  assumes "\<And>a s. valid a \<Longrightarrow> load (save a @ s) = Inr (a, s)" "ld_wp load (\<lambda>a n. valid a \<and> n = length (save a))"
  shows "exact_codec save load (\<lambda>a. length (save a)) valid"
proof
  show "valid a \<and> length (save a) \<le> length s \<and> r = drop (length (save a)) s" if "load s = Inr (a, r)" for a s r
    using ld_wpD [OF assms(2) that] by auto
qed (simp_all add: assms(1))

section \<open>The classes as codecs\<close>

interpretation cweighted: exact_codec weighted_BuildTemplateData weighted_SetTemplateData "\<lambda>t. length (weighted_BuildTemplateData t)"
    "\<lambda>t. ordered_keys (tw_mapPubKeyWeight t) \<and> length (tw_mapPubKeyWeight t) < 2 ^ 64"
proof (rule exact_codecI)
  show "ld_wp weighted_SetTemplateData (\<lambda>t n. (\<lambda>t. ordered_keys (tw_mapPubKeyWeight t) \<and> length (tw_mapPubKeyWeight t) < 2 ^ 64) t \<and> n = length (weighted_BuildTemplateData t))"
    unfolding weighted_SetTemplateData_def by (intro wp_rules) (simp_all add: weighted_BuildTemplateData_def)
qed (simp add: weighted_SetTemplateData_def weighted_BuildTemplateData_def ld_bind_Inr ld_return_apply field_load_save)

interpretation cfork: exact_codec fork_BuildTemplateData fork_SetTemplateData "\<lambda>t. length (fork_BuildTemplateData t)"
    "\<lambda>t. True"
proof (rule exact_codecI)
  show "ld_wp fork_SetTemplateData (\<lambda>t n. (\<lambda>t. True) t \<and> n = length (fork_BuildTemplateData t))"
    unfolding fork_SetTemplateData_def by (intro wp_rules) (simp_all add: fork_BuildTemplateData_def)
qed (simp add: fork_SetTemplateData_def fork_BuildTemplateData_def ld_bind_Inr ld_return_apply field_load_save)

interpretation cproof: exact_codec proof_BuildTemplateData proof_SetTemplateData "\<lambda>t. length (proof_BuildTemplateData t)"
    "\<lambda>t. True"
proof (rule exact_codecI)
  show "ld_wp proof_SetTemplateData (\<lambda>t n. (\<lambda>t. True) t \<and> n = length (proof_BuildTemplateData t))"
    unfolding proof_SetTemplateData_def by (intro wp_rules) (simp_all add: proof_BuildTemplateData_def)
qed (simp add: proof_SetTemplateData_def proof_BuildTemplateData_def ld_bind_Inr ld_return_apply field_load_save)

interpretation cdelegate: exact_codec delegate_BuildTemplateData delegate_SetTemplateData "\<lambda>t. length (delegate_BuildTemplateData t)"
    "\<lambda>t. True"
proof (rule exact_codecI)
  show "ld_wp delegate_SetTemplateData (\<lambda>t n. (\<lambda>t. True) t \<and> n = length (delegate_BuildTemplateData t))"
    unfolding delegate_SetTemplateData_def by (intro wp_rules) (simp_all add: delegate_BuildTemplateData_def)
qed (simp add: delegate_SetTemplateData_def delegate_BuildTemplateData_def ld_bind_Inr ld_return_apply field_load_save)

interpretation cvote: exact_codec vote_BuildTemplateData vote_SetTemplateData "\<lambda>t. length (vote_BuildTemplateData t)"
    "\<lambda>t. True"
proof (rule exact_codecI)
  show "ld_wp vote_SetTemplateData (\<lambda>t n. (\<lambda>t. True) t \<and> n = length (vote_BuildTemplateData t))"
    unfolding vote_SetTemplateData_def by (intro wp_rules) (simp_all add: vote_BuildTemplateData_def)
qed (simp add: vote_SetTemplateData_def vote_BuildTemplateData_def ld_bind_Inr ld_return_apply field_load_save)

interpretation cexchange: exact_codec exchange_BuildTemplateData exchange_SetTemplateData "\<lambda>t. length (exchange_BuildTemplateData t)"
    "\<lambda>t. True"
proof (rule exact_codecI)
  show "ld_wp exchange_SetTemplateData (\<lambda>t n. (\<lambda>t. True) t \<and> n = length (exchange_BuildTemplateData t))"
    unfolding exchange_SetTemplateData_def by (intro wp_rules) (simp_all add: exchange_BuildTemplateData_def)
qed (simp add: exchange_SetTemplateData_def exchange_BuildTemplateData_def ld_bind_Inr ld_return_apply field_load_save)

interpretation cpayment: exact_codec payment_BuildTemplateData payment_SetTemplateData "\<lambda>t. length (payment_BuildTemplateData t)"
    "\<lambda>t. True"
proof (rule exact_codecI)
  show "ld_wp payment_SetTemplateData (\<lambda>t n. (\<lambda>t. True) t \<and> n = length (payment_BuildTemplateData t))"
    unfolding payment_SetTemplateData_def by (intro wp_rules) (simp_all add: payment_BuildTemplateData_def)
qed (simp add: payment_SetTemplateData_def payment_BuildTemplateData_def ld_bind_Inr ld_return_apply field_load_save)

interpretation cdexorder: exact_codec dexorder_BuildTemplateData dexorder_SetTemplateData "\<lambda>t. length (dexorder_BuildTemplateData t)"
    "\<lambda>t. length (to_vCoinPair t) < 2 ^ 64 \<and> length (to_vRecvDest t) < 2 ^ 64 \<and> length (to_vDealDest t) < 2 ^ 64"
proof (rule exact_codecI)
  show "ld_wp dexorder_SetTemplateData (\<lambda>t n. (\<lambda>t. length (to_vCoinPair t) < 2 ^ 64 \<and> length (to_vRecvDest t) < 2 ^ 64 \<and> length (to_vDealDest t) < 2 ^ 64) t \<and> n = length (dexorder_BuildTemplateData t))"
    unfolding dexorder_SetTemplateData_def by (intro wp_rules) (simp_all add: dexorder_BuildTemplateData_def)
qed (simp add: dexorder_SetTemplateData_def dexorder_BuildTemplateData_def ld_bind_Inr ld_return_apply field_load_save)

interpretation cdexmatch: exact_codec dexmatch_BuildTemplateData dexmatch_SetTemplateData "\<lambda>t. length (dexmatch_BuildTemplateData t)"
    "\<lambda>t. length (tm_vCoinPair t) < 2 ^ 64 \<and> length (tm_encSecret t) < 2 ^ 64 \<and> length (tm_vBuyerAmount t) < 2 ^ 64"
proof (rule exact_codecI)
  show "ld_wp dexmatch_SetTemplateData (\<lambda>t n. (\<lambda>t. length (tm_vCoinPair t) < 2 ^ 64 \<and> length (tm_encSecret t) < 2 ^ 64 \<and> length (tm_vBuyerAmount t) < 2 ^ 64) t \<and> n = length (dexmatch_BuildTemplateData t))"
    unfolding dexmatch_SetTemplateData_def by (intro wp_rules) (simp_all add: dexmatch_BuildTemplateData_def)
qed (simp add: dexmatch_SetTemplateData_def dexmatch_BuildTemplateData_def ld_bind_Inr ld_return_apply field_load_save)

interpretation cdexbbcmap: exact_codec dexbbcmap_BuildTemplateData dexbbcmap_SetTemplateData "\<lambda>t. length (dexbbcmap_BuildTemplateData t)"
    "\<lambda>t. True"
proof (rule exact_codecI)
  show "ld_wp dexbbcmap_SetTemplateData (\<lambda>t n. (\<lambda>t. True) t \<and> n = length (dexbbcmap_BuildTemplateData t))"
    unfolding dexbbcmap_SetTemplateData_def by (intro wp_rules) (simp_all add: dexbbcmap_BuildTemplateData_def)
qed (simp add: dexbbcmap_SetTemplateData_def dexbbcmap_BuildTemplateData_def ld_bind_Inr ld_return_apply field_load_save)

fun param_class :: "template_param \<Rightarrow> template_class" where
  "param_class (PWeighted t) = TWeighted"
| "param_class (PMultiSig t) = TMultiSig"
| "param_class (PFork t) = TFork"
| "param_class (PProof t) = TProof"
| "param_class (PDelegate t) = TDelegate"
| "param_class (PExchange t) = TExchange"
| "param_class (PVote t) = TVote"
| "param_class (PPayment t) = TPayment"
| "param_class (PDexOrder t) = TDexOrder"
| "param_class (PDexMatch t) = TDexMatch"
| "param_class (PDexBbcMap t) = TDexBbcMap"

text \<open>What the containers of the language guarantee of the members: maps are ordered, sizes fit in 64 bits.\<close>

fun param_valid :: "template_param \<Rightarrow> bool" where
  "param_valid (PWeighted t) \<longleftrightarrow> ordered_keys (tw_mapPubKeyWeight t) \<and> length (tw_mapPubKeyWeight t) < 2 ^ 64"
| "param_valid (PMultiSig t) \<longleftrightarrow> ordered_keys (tw_mapPubKeyWeight t) \<and> length (tw_mapPubKeyWeight t) < 2 ^ 64"
| "param_valid (PDexOrder t) \<longleftrightarrow>
    length (to_vCoinPair t) < 2 ^ 64 \<and> length (to_vRecvDest t) < 2 ^ 64 \<and> length (to_vDealDest t) < 2 ^ 64"
| "param_valid (PDexMatch t) \<longleftrightarrow>
    length (tm_vCoinPair t) < 2 ^ 64 \<and> length (tm_encSecret t) < 2 ^ 64 \<and> length (tm_vBuyerAmount t) < 2 ^ 64"
| "param_valid _ \<longleftrightarrow> True"

lemma ld_map_eq_Inr: "ld_map f ld s = Inr (b, r) \<longleftrightarrow> (\<exists>a. ld s = Inr (a, r) \<and> b = f a)"
  by (auto simp: ld_map_def ld_bind_eq_Inr ld_return_apply)

lemmas class_load_save = cweighted.load_save cfork.load_save cproof.load_save cdelegate.load_save cexchange.load_save
  cvote.load_save cpayment.load_save cdexorder.load_save cdexmatch.load_save cdexbbcmap.load_save
lemmas class_load_exact = cweighted.load_exact cfork.load_exact cproof.load_exact cdelegate.load_exact cexchange.load_exact
  cvote.load_exact cpayment.load_exact cdexorder.load_exact cdexmatch.load_exact cdexbbcmap.load_exact

lemma SetTemplateData_save:
  "param_valid p \<Longrightarrow> SetTemplateData (param_class p) (BuildTemplateData p @ s) = Inr (p, s)"
  by (cases p) (simp_all add: ld_map_eq_Inr class_load_save)

lemma SetTemplateData_exact:
  assumes "SetTemplateData c s = Inr (p, r)"
  shows "param_class p = c \<and> param_valid p \<and> length (BuildTemplateData p) \<le> length s \<and> r = drop (length (BuildTemplateData p)) s"
  using assms by (cases c) (auto simp: ld_map_eq_Inr dest!: class_load_exact)

lemma GetTypeInfoByType_param: "\<exists>strName. GetTypeInfoByType (param_type p) = Some (param_class p, strName)"
  by (cases p) (simp_all add: GetTypeInfoByType_def setTypeInfo_def template_types)

lemma GetTypeInfoByType_Some:
  assumes "GetTypeInfoByType ty = Some (param_class p, strName)"
  shows "ty = param_type p \<and> IsValidType ty"
  using assms by (cases p) (auto simp: GetTypeInfoByType_def setTypeInfo_def template_types IsValidType_def split: if_splits)

lemma CreateTemplatePtr_Some:
  assumes "CreateTemplatePtr H ty s = Inr (Some t)"
  shows "\<exists>p. t = built H p \<and> ty = param_type p \<and> IsValidType ty \<and> ValidateParam p \<and> param_valid p
    \<and> length (BuildTemplateData p) \<le> length s
    \<and> SetTemplateData (param_class p) s = Inr (p, drop (length (BuildTemplateData p)) s)"
proof -
  obtain c nm p r where c: "GetTypeInfoByType ty = Some (c, nm)" "SetTemplateData c s = Inr (p, r)"
      "ValidateParam p" "t = built H p"
    using assms by (auto simp: CreateTemplatePtr_def split: option.splits sum.splits stream_error.splits if_splits)
  then show ?thesis
    using SetTemplateData_exact [OF c(2)] GetTypeInfoByType_Some [of ty p nm] by auto
qed

lemma CreateTemplatePtr_built:
  assumes "param_valid p" "ValidateParam p"
  shows "CreateTemplatePtr H (param_type p) (BuildTemplateData p @ s) = Inr (Some (built H p))"
  using GetTypeInfoByType_param [of p] SetTemplateData_save [OF assms(1), of s] assms(2)
  by (auto simp: CreateTemplatePtr_def)

lemma built_simps [simp]:
  "t_param (built H p) = p" "t_vchData (built H p) = BuildTemplateData p" "t_nType (built H p) = param_type p"
  "t_nId (built H p) = CTemplateId (param_type p) (H (BuildTemplateData p))"
  by (simp_all add: built_def BuildTemplateId_def Let_def)

lemma type_bytes:
  "(ucast (ucast (w AND 0xff :: uint16) :: uint8) :: uint16) OR push_bit 8 (ucast (ucast (drop_bit 8 w) :: uint8)) = w"
proof (rule bit_word_eqI)
  fix n
  assume n: "n < LENGTH(16)"
  have m: "(w AND 0xff) = take_bit 8 w"
    by (simp add: take_bit_eq_mask mask_eq_exp_minus_1)
  show "bit ((ucast (ucast (w AND 0xff) :: uint8) :: uint16) OR push_bit 8 (ucast (ucast (drop_bit 8 w) :: uint8))) n
      \<longleftrightarrow> bit w n"
    unfolding m using n by (cases "n < 8") (auto simp: bit_simps)
qed

lemma Import_Export_built:
  assumes "param_valid p" "ValidateParam p"
  shows "Import H (Export (built H p)) = Inr (Some (built H p))"
  using CreateTemplatePtr_built [OF assms, of H "[]"] by (simp add: Import_def Export_def Let_def type_bytes)

section \<open>Properties\<close>

text \<open>C31: A template that \<^verbatim>\<open>CreateTemplatePtr\<close> accepts is fixed by its data: its type is a known one and stands in its
  id, its rebuilt data is no longer than what was read, exporting and importing gives the same template, and
  so does creating it again from the rebuilt data with anything behind it.\<close>

theorem template_import_export:
  assumes "CreateTemplatePtr H nTypeIn vchDataIn = Inr (Some t)"
  shows "Import H (Export t) = Inr (Some t) \<and> IsValidType nTypeIn \<and> tid_GetType (t_nId t) = nTypeIn
    \<and> length (t_vchData t) \<le> length vchDataIn
    \<and> CreateTemplatePtr_id H (t_nId t) (t_vchData t @ vchRest) = Inr (Some t)"
proof -
  obtain p where p: "t = built H p" "nTypeIn = param_type p" "IsValidType nTypeIn" "ValidateParam p" "param_valid p"
      "length (BuildTemplateData p) \<le> length vchDataIn"
    using CreateTemplatePtr_Some [OF assms] by blast
  then show ?thesis
    by (simp add: Import_Export_built CreateTemplatePtr_built CreateTemplatePtr_id_def tid_GetType_CTemplateId)
qed

theorem template_import_export_witness:
  "Import (\<lambda>x. 5) (Export (built (\<lambda>x. 5) (PDexBbcMap \<lparr>tb_destOwner = CDestination 1 9\<rparr>)))
    = Inr (Some (built (\<lambda>x. 5) (PDexBbcMap \<lparr>tb_destOwner = CDestination 1 9\<rparr>)))"
proof -
  have "CreateTemplatePtr (\<lambda>x. 5) TEMPLATE_DEXBBCMAP (dest_ToDataStream (CDestination 1 9) @ [])
      = Inr (Some (built (\<lambda>x. 5) (PDexBbcMap \<lparr>tb_destOwner = CDestination 1 9\<rparr>)))"
    using CreateTemplatePtr_built [of "PDexBbcMap \<lparr>tb_destOwner = CDestination 1 9\<rparr>" "\<lambda>x. 5" "[]"]
    by (simp add: dexbbcmap_ValidateParam_def dexbbcmap_BuildTemplateData_def IsTxSpendable_def IsPubKey_def prefix_defs)
  from template_import_export [OF this] show ?thesis by simp
qed

end
