(* ===== verification/MultiSig.thy ===== *)
theory MultiSig
  imports StdMap
begin

text \<open>
  Multiple signatures of \<^verbatim>\<open>src/crypto/crypto.cpp\<close>: an index of bits, most significant byte first, that says
  which keys of the ascending key set have signed, followed by the 64-byte signatures of these
  keys in key order. The Ed25519 functions are library code (libsodium): \<open>ed_sign\<close> and
  \<open>ed_verify\<close> are arguments of the definitions. The lemmas relate a byte string to the set of keys that
  have signed it; the properties are that signing in any order gives the same accepted
  signature, and that whatever is accepted consists of valid signatures of listed keys.
\<close>

unbundle bit_operations_syntax

section \<open>Single signatures\<close>

text \<open>\<^verbatim>\<open>CryptoSign\<close> resizes the buffer to 64 bytes and lets the library fill it.\<close>

record CCryptoKey =
  ck_secret :: uint256
  ck_pubkey :: uint256

definition CryptoSign :: "(CCryptoKey \<Rightarrow> bytes \<Rightarrow> bytes) \<Rightarrow> CCryptoKey \<Rightarrow> bytes \<Rightarrow> bytes" where
  "CryptoSign ed_sign key md = take 64 (ed_sign key md @ replicate 64 0)"

definition CryptoVerify :: "(uint256 \<Rightarrow> bytes \<Rightarrow> bytes \<Rightarrow> bool) \<Rightarrow> uint256 \<Rightarrow> bytes \<Rightarrow> bytes \<Rightarrow> bool" where
  "CryptoVerify ed_verify pubkey md vchSig \<longleftrightarrow> length vchSig = 64 \<and> ed_verify pubkey md vchSig"

section \<open>The index of signers\<close>

definition IsSigned :: "bytes \<Rightarrow> nat \<Rightarrow> nat \<Rightarrow> bool" where
  "IsSigned pIndex nLen nIndex \<longleftrightarrow>
    nLen * 8 > nIndex \<and> (pIndex ! (nLen - 1 - nIndex div 8)) AND push_bit (nIndex mod 8) 1 \<noteq> 0"

definition SetSigned :: "bytes \<Rightarrow> nat \<Rightarrow> nat \<Rightarrow> bool \<times> bytes" where
  "SetSigned pIndex nLen nIndex =
    (if nLen * 8 \<le> nIndex then (False, pIndex)
     else let j = nLen - 1 - nIndex div 8
          in (True, pIndex[j := pIndex ! j OR push_bit (nIndex mod 8) 1]))"

section \<open>Signing\<close>

text \<open>The position of the signature of key \<open>nIndex\<close> behind those of the keys before it.\<close>

primrec PosRS :: "bytes \<Rightarrow> nat \<Rightarrow> nat \<Rightarrow> nat" where
  "PosRS pIndex nIndexLen 0 = nIndexLen"
| "PosRS pIndex nIndexLen (Suc i) =
    (if IsSigned pIndex nIndexLen i then PosRS pIndex nIndexLen i + 64 else PosRS pIndex nIndexLen i)"

text \<open>\<^verbatim>\<open>distance(begin, find)\<close> in the ascending set, \<open>None\<close> when the key is missing.\<close>

primrec set_index :: "'a \<Rightarrow> 'a list \<Rightarrow> nat option" where
  "set_index k [] = None"
| "set_index k (x # xs) = (if x = k then Some 0 else map_option Suc (set_index k xs))"

definition CryptoMultiSign ::
    "(CCryptoKey \<Rightarrow> bytes \<Rightarrow> bytes) \<Rightarrow> uint256 list \<Rightarrow> CCryptoKey \<Rightarrow> bytes \<Rightarrow> bytes \<Rightarrow> bool \<times> bytes" where
  "CryptoMultiSign ed_sign setPubKey privkey pM vchSig =
    (if setPubKey = [] then (False, vchSig)
     else case set_index (ck_pubkey privkey) setPubKey of
       None \<Rightarrow> (False, vchSig)
     | Some nIndex \<Rightarrow>
         let nIndexLen = (length setPubKey - 1) div 8 + 1 in
         if vchSig \<noteq> [] \<and> length vchSig < nIndexLen + 64 then (False, vchSig)
         else let vch = (if vchSig = [] then replicate nIndexLen 0 else vchSig) in
           if IsSigned vch nIndexLen nIndex then (True, vch)
           else let nPosRS = PosRS vch nIndexLen nIndex in
             if nPosRS > length vch then (False, vch)
             else let vchRS = CryptoSign ed_sign privkey pM in
               case SetSigned vch nIndexLen nIndex of
                 (False, vch') \<Rightarrow> (False, vch')
               | (True, vch') \<Rightarrow> (True, take nPosRS vch' @ vchRS @ drop nPosRS vch'))"

section \<open>Verifying\<close>

fun MultiVerify_loop ::
    "(uint256 \<Rightarrow> bytes \<Rightarrow> bytes \<Rightarrow> bool) \<Rightarrow> bytes \<Rightarrow> bytes \<Rightarrow> nat \<Rightarrow> uint256 list \<Rightarrow> nat \<Rightarrow> nat \<Rightarrow> uint256 list
      \<Rightarrow> nat option \<times> uint256 list" where
  "MultiVerify_loop ed_verify pM vchSig nIndexLen [] i nPosRS setPartKey = (Some nPosRS, setPartKey)"
| "MultiVerify_loop ed_verify pM vchSig nIndexLen (pk # itPub) i nPosRS setPartKey =
    (if IsSigned vchSig nIndexLen i
     then if nPosRS + 64 > length vchSig then (None, setPartKey)
          else let vchRS = take 64 (drop nPosRS vchSig) in
            if \<not> CryptoVerify ed_verify pk pM vchRS then (None, setPartKey)
            else MultiVerify_loop ed_verify pM vchSig nIndexLen itPub (Suc i) (nPosRS + 64) (set_insert pk setPartKey)
     else MultiVerify_loop ed_verify pM vchSig nIndexLen itPub (Suc i) nPosRS setPartKey)"

definition CryptoMultiVerify ::
    "(uint256 \<Rightarrow> bytes \<Rightarrow> bytes \<Rightarrow> bool) \<Rightarrow> uint256 list \<Rightarrow> bytes \<Rightarrow> bytes \<Rightarrow> uint256 list \<Rightarrow> bool \<times> uint256 list" where
  "CryptoMultiVerify ed_verify setPubKey pM vchSig setPartKey =
    (if setPubKey = [] then (False, setPartKey)
     else let nIndexLen = (length setPubKey - 1) div 8 + 1 in
       if length vchSig < nIndexLen + 64 then (False, setPartKey)
       else case MultiVerify_loop ed_verify pM vchSig nIndexLen setPubKey 0 nIndexLen setPartKey of
         (None, part) \<Rightarrow> (False, part)
       | (Some nPosRS, part) \<Rightarrow> (nPosRS = length vchSig, part))"

section \<open>The set of signers of a byte string\<close>

lemma length_CryptoSign [simp]: "length (CryptoSign ed_sign key md) = 64"
  by (simp add: CryptoSign_def)

lemma IsSigned_bit:
  "IsSigned p n i \<longleftrightarrow> i < n * 8 \<and> bit (p ! (n - 1 - i div 8)) (i mod 8)"
  by (simp add: IsSigned_def bit_iff_and_push_bit_not_eq_0)

lemma IsSigned_append: "n \<le> length p \<Longrightarrow> IsSigned (p @ q) n i \<longleftrightarrow> IsSigned p n i"
  by (cases "n = 0") (auto simp: IsSigned_bit nth_append)

lemma IsSigned_take: "n \<le> m \<Longrightarrow> m \<le> length p \<Longrightarrow> IsSigned (take m p) n i \<longleftrightarrow> IsSigned p n i"
  using IsSigned_append [of n "take m p" "drop m p" i] by simp

lemma SetSigned_simps:
  assumes "i < n * 8" "n \<le> length p"
  shows "fst (SetSigned p n i)" "length (snd (SetSigned p n i)) = length p"
    "drop n (snd (SetSigned p n i)) = drop n p"
    "IsSigned (snd (SetSigned p n i)) n j \<longleftrightarrow> j = i \<or> IsSigned p n j"
proof -
  have l: "n - 1 - i div 8 < length p" "n - 1 - i div 8 < n"
    using assms by auto
  show "fst (SetSigned p n i)" "length (snd (SetSigned p n i)) = length p"
    using assms by (simp_all add: SetSigned_def Let_def)
  show "drop n (snd (SetSigned p n i)) = drop n p"
    using assms l by (simp add: SetSigned_def Let_def drop_update_cancel)
  have "j mod 8 < 8" by simp
  then have b: "bit (x OR push_bit (i mod 8) 1) (j mod 8) \<longleftrightarrow> bit x (j mod 8) \<or> i mod 8 = j mod 8" for x :: uint8
    by (auto simp: bit_simps)
  have e: "n - 1 - j div 8 = n - 1 - i div 8 \<longleftrightarrow> j div 8 = i div 8" if "j < n * 8"
  proof -
    have "j div 8 < n" "i div 8 < n"
      using that assms(1) by (simp_all add: less_mult_imp_div_less)
    then show ?thesis by linarith
  qed
  have m: "j = i \<longleftrightarrow> j div 8 = i div 8 \<and> i mod 8 = j mod 8"
    by (metis div_mult_mod_eq)
  show "IsSigned (snd (SetSigned p n i)) n j \<longleftrightarrow> j = i \<or> IsSigned p n j"
    using assms l(1) e b m by (auto simp: IsSigned_bit SetSigned_def Let_def nth_list_update)
qed

definition index_len :: "'a list \<Rightarrow> nat" where
  "index_len keys = (length keys - 1) div 8 + 1"

lemma index_len_less: "i < length keys \<Longrightarrow> i < index_len keys * 8"
  unfolding index_len_def by presburger

text \<open>\<open>signed_by f keys S vch\<close>: the bytes \<open>vch\<close> carry, for the keys in \<open>S\<close> and no others, the signatures \<open>f\<close>.\<close>

definition signed_by :: "('a \<Rightarrow> bytes) \<Rightarrow> 'a list \<Rightarrow> 'a set \<Rightarrow> bytes \<Rightarrow> bool" where
  "signed_by f keys S vch \<longleftrightarrow> index_len keys \<le> length vch
    \<and> (\<forall>i. IsSigned vch (index_len keys) i \<longleftrightarrow> i < length keys \<and> keys ! i \<in> S)
    \<and> drop (index_len keys) vch = concat (map f (filter (\<lambda>k. k \<in> S) keys))"

lemma signed_by_empty: "signed_by f keys {} (replicate (index_len keys) 0)"
  by (auto simp: signed_by_def IsSigned_bit)

lemma index_determined:
  assumes "length p = n" "length q = n" "\<And>i. IsSigned p n i \<longleftrightarrow> IsSigned q n i"
  shows "p = q"
proof (rule nth_equalityI)
  fix j
  assume "j < length p"
  then have j: "j < n" using assms by simp
  show "p ! j = q ! j"
  proof (rule bit_word_eqI)
    fix b
    assume b: "b < LENGTH(8)"
    have d: "(8 * (n - 1 - j) + b) div 8 = n - 1 - j" "(8 * (n - 1 - j) + b) mod 8 = b"
      using b by simp_all
    have "8 * (n - 1 - j) + b < n * 8"
      using j b by simp
    then show "bit (p ! j) b \<longleftrightarrow> bit (q ! j) b"
      using assms(3) [of "8 * (n - 1 - j) + b"] j b unfolding IsSigned_bit d by simp
  qed
qed (simp add: assms)

lemma signed_by_determined:
  assumes "signed_by f keys S p" "signed_by f keys S q"
  shows "p = q"
proof -
  let ?n = "index_len keys"
  have "take ?n p = take ?n q"
    using assms by (intro index_determined [of _ ?n]) (auto simp: signed_by_def IsSigned_take)
  moreover have "drop ?n p = drop ?n q"
    using assms by (simp add: signed_by_def)
  ultimately show ?thesis
    by (metis append_take_drop_id)
qed

lemma filter_take_Suc:
  "i < length keys \<Longrightarrow> filter P (take (Suc i) keys) = filter P (take i keys) @ (if P (keys ! i) then [keys ! i] else [])"
  by (simp add: take_Suc_conv_app_nth)

lemma PosRS_signed_by:
  assumes "signed_by f keys S vch" "i \<le> length keys"
  shows "PosRS vch (index_len keys) i = index_len keys + 64 * length (filter (\<lambda>k. k \<in> S) (take i keys))"
  using assms(2)
proof (induction i)
  case (Suc i)
  then have "IsSigned vch (index_len keys) i \<longleftrightarrow> keys ! i \<in> S"
    using assms(1) by (simp add: signed_by_def)
  then show ?case
    using Suc by (simp add: filter_take_Suc)
qed simp

lemma length_signatures:
  "(\<And>k. k \<in> set ks \<Longrightarrow> length (f k) = 64) \<Longrightarrow> length (concat (map f ks)) = 64 * length ks"
  by (induction ks) auto

lemma set_index_Some:
  "k \<in> set xs \<Longrightarrow> \<exists>i. set_index k xs = Some i \<and> i < length xs \<and> xs ! i = k"
  by (induction xs) force+

lemma filter_insert_split:
  assumes "distinct keys" "i < length keys" "keys ! i \<notin> S"
  shows "filter (\<lambda>k. k \<in> insert (keys ! i) S) keys =
    filter (\<lambda>k. k \<in> S) (take i keys) @ keys ! i # filter (\<lambda>k. k \<in> S) (drop (Suc i) keys)"
    "filter (\<lambda>k. k \<in> S) keys = filter (\<lambda>k. k \<in> S) (take i keys) @ filter (\<lambda>k. k \<in> S) (drop (Suc i) keys)"
proof -
  have k: "keys = take i keys @ keys ! i # drop (Suc i) keys"
    using assms(2) by (simp add: id_take_nth_drop)
  then have "distinct (take i keys @ keys ! i # drop (Suc i) keys)"
    using assms(1) by simp
  then have n: "keys ! i \<notin> set (take i keys)" "keys ! i \<notin> set (drop (Suc i) keys)"
    by auto
  have "filter P keys = filter P (take i keys) @ filter P (keys ! i # drop (Suc i) keys)" for P
    by (subst k) (simp only: filter_append)
  moreover have "filter (\<lambda>k. k \<in> insert (keys ! i) S) xs = filter (\<lambda>k. k \<in> S) xs" if "keys ! i \<notin> set xs" for xs
    using that by (intro filter_cong) auto
  ultimately show "filter (\<lambda>k. k \<in> insert (keys ! i) S) keys =
      filter (\<lambda>k. k \<in> S) (take i keys) @ keys ! i # filter (\<lambda>k. k \<in> S) (drop (Suc i) keys)"
    "filter (\<lambda>k. k \<in> S) keys = filter (\<lambda>k. k \<in> S) (take i keys) @ filter (\<lambda>k. k \<in> S) (drop (Suc i) keys)"
    using n assms(3) by auto
qed

text \<open>Inserting the signature of key \<open>i\<close> at its position adds the key to the signers.\<close>

lemma signed_by_insert:
  assumes s: "signed_by f keys S vch" and d: "distinct keys" and i: "i < length keys" "keys ! i \<notin> S"
    and f: "\<And>k. k \<in> set keys \<Longrightarrow> length (f k) = 64"
  defines "n \<equiv> index_len keys"
  defines "pos \<equiv> PosRS vch n i" and "vch' \<equiv> snd (SetSigned vch n i)"
  shows "pos \<le> length vch \<and> signed_by f keys (insert (keys ! i) S) (take pos vch' @ f (keys ! i) @ drop pos vch')"
proof -
  let ?a = "filter (\<lambda>k. k \<in> S) (take i keys)" and ?b = "filter (\<lambda>k. k \<in> S) (drop (Suc i) keys)"
  have n: "n \<le> length vch" "i < n * 8"
    using s i index_len_less unfolding n_def by (auto simp: signed_by_def)
  note v = SetSigned_simps [OF n(2,1), folded vch'_def]
  have pos: "pos = n + 64 * length ?a"
    using PosRS_signed_by [OF s, of i] i unfolding pos_def n_def by simp
  have la: "length (concat (map f ?a)) = 64 * length ?a"
    using f by (intro length_signatures) (auto dest: in_set_takeD)
  have dn: "drop n vch' = concat (map f ?a) @ concat (map f ?b)"
    using s v(3) filter_insert_split(2) [OF d i] by (simp add: signed_by_def n_def)
  have le: "pos \<le> length vch"
    using arg_cong [OF dn, of length] n v(2) la pos by simp
  have "drop n (take pos vch') = concat (map f ?a)"
    using dn la pos by (simp add: drop_take)
  moreover have "drop pos vch' = drop (64 * length ?a) (drop n vch')"
    using pos by (simp add: add.commute)
  then have "drop pos vch' = concat (map f ?b)"
    using la unfolding dn by simp
  ultimately have dr: "drop n (take pos vch' @ f (keys ! i) @ drop pos vch')
      = concat (map f (filter (\<lambda>k. k \<in> insert (keys ! i) S) keys))"
    using pos le v(2) filter_insert_split(1) [OF d i] by simp
  have "IsSigned (take pos vch' @ q) n j \<longleftrightarrow> j = i \<or> IsSigned vch n j" for q j
    using pos le v(2,4) by (simp add: IsSigned_append IsSigned_take)
  then have ix: "IsSigned (take pos vch' @ q) n j \<longleftrightarrow> j < length keys \<and> keys ! j \<in> insert (keys ! i) S" for q j
    using s i d by (auto simp: signed_by_def n_def nth_eq_iff_index_eq)
  show ?thesis
    using dr ix le pos v(2) unfolding signed_by_def n_def [symmetric] by simp
qed

lemma length_signed_by:
  assumes "signed_by f keys S vch" "\<And>k. k \<in> set keys \<Longrightarrow> length (f k) = 64"
  shows "length vch = index_len keys + 64 * length (filter (\<lambda>k. k \<in> S) keys)"
proof -
  have "length (drop (index_len keys) vch) = length (concat (map f (filter (\<lambda>k. k \<in> S) keys)))"
    using assms(1) by (simp add: signed_by_def)
  also have "\<dots> = 64 * length (filter (\<lambda>k. k \<in> S) keys)"
    using assms(2) by (intro length_signatures) simp
  finally have "length vch - index_len keys = 64 * length (filter (\<lambda>k. k \<in> S) keys)"
    by simp
  moreover have "index_len keys \<le> length vch"
    using assms(1) by (simp add: signed_by_def)
  ultimately show ?thesis by linarith
qed

text \<open>A signature in progress: empty at first, then a byte string signed by at least one key.\<close>

definition in_progress :: "('a \<Rightarrow> bytes) \<Rightarrow> 'a list \<Rightarrow> 'a set \<Rightarrow> bytes \<Rightarrow> bool" where
  "in_progress f keys S vch \<longleftrightarrow> (if S \<inter> set keys = {} then S = {} \<and> vch = [] else signed_by f keys S vch)"

lemma CryptoMultiSign_step:
  assumes p: "in_progress f keys S vch" and d: "distinct keys" and k: "ck_pubkey privkey \<in> set keys"
    and f: "\<And>k. k \<in> set keys \<Longrightarrow> length (f k) = 64" "f (ck_pubkey privkey) = CryptoSign ed_sign privkey pM"
  shows "\<exists>vch'. CryptoMultiSign ed_sign keys privkey pM vch = (True, vch')
    \<and> in_progress f keys (insert (ck_pubkey privkey) S) vch'"
proof -
  obtain i where i: "set_index (ck_pubkey privkey) keys = Some i" "i < length keys" "keys ! i = ck_pubkey privkey"
    using set_index_Some [OF k] by blast
  let ?n = "index_len keys"
  define w where "w = (if vch = [] then replicate ?n 0 else vch)"
  have w: "signed_by f keys S w"
    using p signed_by_empty [of f keys] by (auto simp: w_def in_progress_def signed_by_def index_len_def split: if_splits)
  have long: "\<not> (vch \<noteq> [] \<and> length vch < ?n + 64)"
  proof (cases "S \<inter> set keys = {}")
    case False
    then have "filter (\<lambda>k. k \<in> S) keys \<noteq> []"
      by (auto simp: filter_empty_conv)
    then show ?thesis
      using p False length_signed_by [of f keys S vch, OF _ f(1)] by (cases "filter (\<lambda>k. k \<in> S) keys") (auto simp: in_progress_def)
  qed (use p in \<open>simp add: in_progress_def\<close>)
  have n: "?n \<le> length w" "i < ?n * 8"
    using w i(2) index_len_less by (auto simp: signed_by_def)
  have signed: "IsSigned w ?n i \<longleftrightarrow> ck_pubkey privkey \<in> S"
    using w i by (simp add: signed_by_def)
  have unfold: "CryptoMultiSign ed_sign keys privkey pM vch =
      (if IsSigned w ?n i then (True, w)
       else if PosRS w ?n i > length w then (False, w)
       else (True, take (PosRS w ?n i) (snd (SetSigned w ?n i)) @ CryptoSign ed_sign privkey pM
              @ drop (PosRS w ?n i) (snd (SetSigned w ?n i))))"
    using i(1) k long SetSigned_simps(1) [OF n(2,1)] unfolding CryptoMultiSign_def w_def [symmetric] index_len_def [symmetric]
    by (auto simp: Let_def w_def [symmetric] split: prod.split bool.split)
  show ?thesis
  proof (cases "ck_pubkey privkey \<in> S")
    case True
    then show ?thesis
      using unfold signed w k by (auto simp: in_progress_def insert_absorb)
  next
    case False
    then show ?thesis
      using signed_by_insert [OF w d i(2) _ f(1)] i(3) unfold signed k f(2) by (auto simp: in_progress_def)
  qed
qed

section \<open>Verification of a byte string with known signers\<close>

lemma MultiVerify_loop_signed:
  assumes s: "signed_by f keys S vch" and f: "\<And>k. k \<in> set keys \<Longrightarrow> length (f k) = 64"
    and v: "\<And>k. k \<in> set keys \<Longrightarrow> k \<in> S \<Longrightarrow> CryptoVerify ed_verify k pM (f k)"
    and "keys = pre @ ks"
  shows "MultiVerify_loop ed_verify pM vch (index_len keys) ks (length pre)
      (index_len keys + 64 * length (filter (\<lambda>k. k \<in> S) pre)) part
    = (Some (index_len keys + 64 * length (filter (\<lambda>k. k \<in> S) keys)), fold set_insert (filter (\<lambda>k. k \<in> S) ks) part)"
  using assms(4)
proof (induction ks arbitrary: pre part)
  case Nil
  then have "keys = pre" by simp
  then show ?case by (simp only: MultiVerify_loop.simps filter.simps fold_simps)
next
  case (Cons k ks)
  let ?pos = "index_len keys + 64 * length (filter (\<lambda>k. k \<in> S) pre)"
  have sg: "IsSigned vch (index_len keys) (length pre) \<longleftrightarrow> k \<in> S"
    using s Cons.prems by (simp add: signed_by_def)
  have e: "keys = (pre @ [k]) @ ks"
    using Cons.prems by simp
  have k: "k \<in> set keys"
    unfolding e by simp
  note IH = Cons.IH [OF e]
  show ?case
  proof (cases "k \<in> S")
    case True
    have fl: "filter (\<lambda>k. k \<in> S) keys = filter (\<lambda>k. k \<in> S) pre @ k # filter (\<lambda>k. k \<in> S) ks"
      unfolding e using True by simp
    have la: "length (concat (map f (filter (\<lambda>k. k \<in> S) pre))) = 64 * length (filter (\<lambda>k. k \<in> S) pre)"
      using f unfolding e by (intro length_signatures) simp
    have "drop ?pos vch = drop (64 * length (filter (\<lambda>k. k \<in> S) pre)) (drop (index_len keys) vch)"
      by (simp add: add.commute)
    also have "\<dots> = f k @ concat (map f (filter (\<lambda>k. k \<in> S) ks))"
      using s la by (simp add: signed_by_def fl)
    finally have "take 64 (drop ?pos vch) = f k"
      using f [OF k] by simp
    moreover have "?pos + 64 \<le> length vch"
      using length_signed_by [OF s f] by (simp add: fl)
    moreover have "?pos + 64 = index_len keys + 64 * length (filter (\<lambda>k. k \<in> S) (pre @ [k]))"
      using True by simp
    ultimately show ?thesis
      using sg True v [OF k True] IH [of "set_insert k part"] by (simp add: Let_def ac_simps)
  next
    case False
    then have "filter (\<lambda>k. k \<in> S) (pre @ [k]) = filter (\<lambda>k. k \<in> S) pre" by simp
    then show ?thesis
      using sg False IH [of part] by simp
  qed
qed

lemma set_fold_insert: "set (fold set_insert xs s) = set xs \<union> set s"
  using set_set_insert_all unfolding set_insert_all_def .

lemma CryptoMultiVerify_signed:
  assumes s: "in_progress f keys S vch" "S \<noteq> {}" and f: "\<And>k. k \<in> set keys \<Longrightarrow> length (f k) = 64"
    and v: "\<And>k. k \<in> set keys \<Longrightarrow> k \<in> S \<Longrightarrow> CryptoVerify ed_verify k pM (f k)"
  shows "\<exists>part. CryptoMultiVerify ed_verify keys pM vch [] = (True, part) \<and> set part = S \<inter> set keys"
proof -
  have S: "S \<inter> set keys \<noteq> {}" "signed_by f keys S vch"
    using s by (auto simp: in_progress_def split: if_splits)
  then have "keys \<noteq> []" "filter (\<lambda>k. k \<in> S) keys \<noteq> []"
    by (auto simp: filter_empty_conv)
  moreover from this have "\<not> length vch < index_len keys + 64"
    using length_signed_by [OF S(2) f] by (cases "filter (\<lambda>k. k \<in> S) keys") auto
  ultimately show ?thesis
    using MultiVerify_loop_signed [OF S(2) f v, of "[]" keys "[]"] length_signed_by [OF S(2) f]
    unfolding CryptoMultiVerify_def index_len_def [symmetric] by (auto simp: Let_def set_fold_insert)
qed

text \<open>Signing with one key after the other.\<close>

primrec sign_all ::
    "(CCryptoKey \<Rightarrow> bytes \<Rightarrow> bytes) \<Rightarrow> uint256 list \<Rightarrow> bytes \<Rightarrow> CCryptoKey list \<Rightarrow> bytes \<Rightarrow> bool \<times> bytes" where
  "sign_all ed_sign setPubKey pM [] vchSig = (True, vchSig)"
| "sign_all ed_sign setPubKey pM (k # ks) vchSig =
    (case CryptoMultiSign ed_sign setPubKey k pM vchSig of
       (False, vch) \<Rightarrow> (False, vch)
     | (True, vch) \<Rightarrow> sign_all ed_sign setPubKey pM ks vch)"

lemma sign_all_in_progress:
  assumes "in_progress f keys S vch" "distinct keys" "\<And>k. k \<in> set keys \<Longrightarrow> length (f k) = 64"
    and "\<And>k. k \<in> set ks \<Longrightarrow> ck_pubkey k \<in> set keys \<and> f (ck_pubkey k) = CryptoSign ed_sign k pM"
  shows "\<exists>vch'. sign_all ed_sign keys pM ks vch = (True, vch') \<and> in_progress f keys (S \<union> ck_pubkey ` set ks) vch'"
  using assms(1,4)
proof (induction ks arbitrary: S vch)
  case (Cons k ks)
  obtain vch1 where 1: "CryptoMultiSign ed_sign keys k pM vch = (True, vch1)"
      "in_progress f keys (insert (ck_pubkey k) S) vch1"
    using CryptoMultiSign_step [OF Cons.prems(1) assms(2), of k ed_sign pM] assms(3) Cons.prems(2) [of k] by auto
  then show ?case
    using Cons.IH [OF 1(2)] Cons.prems(2) by simp
qed auto

section \<open>What an accepted byte string contains\<close>

text \<open>\<open>segment\<close>: a 64-byte piece of the bytes behind the index.\<close>

definition segment :: "nat \<Rightarrow> bytes \<Rightarrow> nat \<Rightarrow> bytes" where
  "segment n vch j = take 64 (drop (n + 64 * j) vch)"

lemma MultiVerify_loop_sound:
  assumes "MultiVerify_loop ed_verify pM vch n ks i (n + 64 * j) part = (Some pos, part')"
  shows "\<exists>m. pos = n + 64 * m \<and> j \<le> m \<and> set part \<subseteq> set part' \<and> (j < m \<longrightarrow> part' \<noteq> [])
    \<and> (\<forall>pk \<in> set part'. pk \<in> set part \<or>
        pk \<in> set ks \<and> (\<exists>q < m. CryptoVerify ed_verify pk pM (segment n vch q)))"
  using assms
proof (induction ks arbitrary: i j part)
  case (Cons k ks)
  show ?case
  proof (cases "IsSigned vch n i")
    case True
    then have l: "CryptoVerify ed_verify k pM (segment n vch j)"
        "MultiVerify_loop ed_verify pM vch n ks (Suc i) (n + 64 * Suc j) (set_insert k part) = (Some pos, part')"
      using Cons.prems by (auto simp: Let_def segment_def ac_simps split: if_splits)
    obtain m where m: "pos = n + 64 * m" "Suc j \<le> m" "set (set_insert k part) \<subseteq> set part'"
        "\<forall>pk \<in> set part'. pk \<in> set (set_insert k part) \<or>
          pk \<in> set ks \<and> (\<exists>q < m. CryptoVerify ed_verify pk pM (segment n vch q))"
      using Cons.IH [OF l(2)] by blast
    moreover have "part' \<noteq> []"
      using m(3) by auto
    moreover have "\<exists>q < m. CryptoVerify ed_verify k pM (segment n vch q)"
      using l(1) m(2) by (intro exI [of _ j]) simp
    ultimately show ?thesis
      by (intro exI [of _ m]) auto
  next
    case False
    then show ?thesis
      using Cons.IH [of "Suc i" j part] Cons.prems by (simp split: if_splits) blast
  qed
qed auto

lemma MultiVerify_loop_ordered:
  "MultiVerify_loop ed_verify pM vch n ks i pos part = (r, part') \<Longrightarrow> ordered_set part \<Longrightarrow> ordered_set part'"
  by (induction ks arbitrary: i pos part) (auto simp: Let_def split: if_splits)

section \<open>The contract of multiple signatures\<close>

text \<open>Collecting a multiple signature does not depend on the order of the signers: any sequence of holders
  of listed keys succeeds, two sequences of the same holders give the same bytes, and
  verification accepts these bytes and reports exactly the holders' keys.\<close>

lemma sign_all_any_order:
  assumes "distinct setPubKey" "ks \<noteq> []" "set ks' = set ks" "inj_on ck_pubkey (set ks)"
    and "\<forall>k \<in> set ks. ck_pubkey k \<in> set setPubKey"
    and "\<forall>k \<in> set ks. ed_verify (ck_pubkey k) pM (CryptoSign ed_sign k pM)"
  obtains vch part where "sign_all ed_sign setPubKey pM ks [] = (True, vch)" "sign_all ed_sign setPubKey pM ks' [] = (True, vch)"
    "CryptoMultiVerify ed_verify setPubKey pM vch [] = (True, part)" "set part = ck_pubkey ` set ks"
proof -
  define f where "f pk = (if pk \<in> ck_pubkey ` set ks then CryptoSign ed_sign (inv_into (set ks) ck_pubkey pk) pM
    else replicate 64 0)" for pk
  have f: "length (f pk) = 64" for pk
    by (simp add: f_def)
  have g: "ck_pubkey k \<in> set setPubKey \<and> f (ck_pubkey k) = CryptoSign ed_sign k pM" if "k \<in> set ks" for k
    using that assms(4,5) by (simp add: f_def)
  let ?S = "ck_pubkey ` set ks"
  have S: "?S \<inter> set setPubKey = ?S" "?S \<noteq> {}"
    using assms(2,5) by auto
  have e: "in_progress f setPubKey {} []"
    by (simp add: in_progress_def)
  obtain vch where v: "sign_all ed_sign setPubKey pM ks [] = (True, vch)" "in_progress f setPubKey ?S vch"
    using sign_all_in_progress [OF e assms(1) f g] by auto
  obtain vch' where v': "sign_all ed_sign setPubKey pM ks' [] = (True, vch')" "in_progress f setPubKey ?S vch'"
    using sign_all_in_progress [OF e assms(1) f g, of ks'] assms(3) by auto
  have e: "vch' = vch"
    using v(2) v'(2) S signed_by_determined by (auto simp: in_progress_def)
  have ver: "CryptoVerify ed_verify k pM (f k)" if "k \<in> set setPubKey" "k \<in> ?S" for k
    using that(2) g assms(6) by (auto simp: CryptoVerify_def)
  obtain part where "CryptoMultiVerify ed_verify setPubKey pM vch [] = (True, part)" "set part = ?S \<inter> set setPubKey"
    using CryptoMultiVerify_signed [OF v(2) S(2) f ver] by auto
  then show thesis
    using that [OF v(1) v'(1) [unfolded e]] S(1) by simp
qed

text \<open>Whatever verification accepts is signed: at least one key is reported, every reported key is listed,
  and for each of them one of the 64-byte pieces that make up the rest of the bytes is its
  valid signature.\<close>

lemma CryptoMultiVerify_accepted:
  assumes "CryptoMultiVerify ed_verify setPubKey pM vchSig [] = (True, part)"
  shows "part \<noteq> []" "set part \<subseteq> set setPubKey" "distinct part"
    "\<forall>pk \<in> set part. \<exists>q. index_len setPubKey + 64 * Suc q \<le> length vchSig
      \<and> CryptoVerify ed_verify pk pM (segment (index_len setPubKey) vchSig q)"
proof -
  let ?n = "index_len setPubKey"
  have l: "?n + 64 \<le> length vchSig"
      "MultiVerify_loop ed_verify pM vchSig ?n setPubKey 0 (?n + 64 * 0) [] = (Some (length vchSig), part)"
    using assms unfolding CryptoMultiVerify_def index_len_def [symmetric]
    by (auto simp: Let_def split: if_splits option.splits prod.splits)
  show "distinct part"
    using MultiVerify_loop_ordered [OF l(2)] by (simp add: ordered_set_def)
  obtain m where m: "length vchSig = ?n + 64 * m" "0 < m \<longrightarrow> part \<noteq> []"
      "\<forall>pk \<in> set part. pk \<in> set setPubKey \<and> (\<exists>q < m. CryptoVerify ed_verify pk pM (segment ?n vchSig q))"
    using MultiVerify_loop_sound [OF l(2)] by (elim exE conjE) simp
  have "0 < m"
    using l(1) m(1) by (cases m) simp_all
  then show "part \<noteq> []" "set part \<subseteq> set setPubKey"
    using m(2,3) by blast+
  show "\<forall>pk \<in> set part. \<exists>q. ?n + 64 * Suc q \<le> length vchSig \<and> CryptoVerify ed_verify pk pM (segment ?n vchSig q)"
  proof
    fix pk
    assume "pk \<in> set part"
    then obtain q where "q < m" "CryptoVerify ed_verify pk pM (segment ?n vchSig q)"
      using m(3) by blast
    then show "\<exists>q. ?n + 64 * Suc q \<le> length vchSig \<and> CryptoVerify ed_verify pk pM (segment ?n vchSig q)"
      using m(1) by (intro exI [of _ q]) simp
  qed
qed

end
