(* ===== verification/TemplateSig.thy ===== *)
theory TemplateSig
  imports Template MultiSig
begin

text \<open>
  Signatures of template addresses: the virtual \<^verbatim>\<open>VerifyTxSignature\<close> of \<^verbatim>\<open>src/common/template\<close>, the entry points of
  \<^verbatim>\<open>CDestination\<close> in \<^verbatim>\<open>src/common/destination.cpp\<close>, block signatures, and the functions that build signatures and
  name the destinations that have to sign. Every nested call of a template to the verification of a
  destination is a tail call: a virtual function returns its answer or the destination and the bytes
  to go on with, and the recursion of the code is the recursion of \<open>dest_VerifyTxSignature\<close>. The reference parameter
  \<^verbatim>\<open>fCompleted\<close> is passed in and returned. The hash, Ed25519 and the multiple signatures of the time before
  \<^verbatim>\<open>HEIGHT_HASH_MULTI_SIGNER\<close> (arithmetic on the curve) are fields of \<open>crypto_env\<close>.
\<close>

unbundle bit_operations_syntax

section \<open>Environment\<close>

record crypto_env =
  ce_hash :: "bytes \<Rightarrow> uint256"
  ce_verify :: "uint256 \<Rightarrow> bytes \<Rightarrow> bytes \<Rightarrow> bool"
  ce_multi_defect :: "uint256 list \<Rightarrow> uint256 \<Rightarrow> uint256 \<Rightarrow> bytes \<Rightarrow> bool \<times> uint256 list"
  ce_multi_height :: uint32

definition pubkey_Verify :: "crypto_env \<Rightarrow> uint256 \<Rightarrow> uint256 \<Rightarrow> bytes \<Rightarrow> bool" where
  "pubkey_Verify E pubkey hash vchSig = CryptoVerify (ce_verify E) pubkey (le_bytes 32 hash) vchSig"

type_synonym verdict = "stream_error + bool \<times> bool"

datatype verify_step = Answer verdict | CallDest CDestination bytes

section \<open>Verification by class\<close>

definition signed_weight :: "(uint256, uint8) stdmap \<Rightarrow> uint256 list \<Rightarrow> nat" where
  "signed_weight mapPubKeyWeight setPartKey =
    (\<Sum>key\<leftarrow>setPartKey. case map_of mapPubKeyWeight key of Some w \<Rightarrow> unat w | None \<Rightarrow> 0)"

definition weighted_VerifyTxSignature ::
    "crypto_env \<Rightarrow> CTemplateWeighted \<Rightarrow> uint256 \<Rightarrow> uint256 \<Rightarrow> bytes \<Rightarrow> int32 \<Rightarrow> bool \<Rightarrow> bool \<times> bool" where
  "weighted_VerifyTxSignature E t hash hashAnchor vchSig nForkHeight fCompleted =
    (let setPubKey = map fst (tw_mapPubKeyWeight t);
         (ok, setPartKey) =
           (if sint nForkHeight > 0 \<and> nForkHeight < ce_multi_height E
            then ce_multi_defect E setPubKey hashAnchor hash vchSig
            else CryptoMultiVerify (ce_verify E) setPubKey (le_bytes 32 hash) vchSig [])
     in if \<not> ok then (False, fCompleted)
        else (True, signed_weight (tw_mapPubKeyWeight t) setPartKey \<ge> unat (tw_nRequired t)))"

definition delegate_VerifyTxSignature :: "CTemplateDelegate \<Rightarrow> uint16 \<Rightarrow> bytes \<Rightarrow> verify_step" where
  "delegate_VerifyTxSignature t nType vchSig =
    (if nType = TX_CERT then CallDest (SetPubKey (td_keyDelegate t)) vchSig else CallDest (td_destOwner t) vchSig)"

definition payment_VerifyTxSignature ::
    "crypto_env \<Rightarrow> CTemplatePayment \<Rightarrow> uint256 \<Rightarrow> CDestination \<Rightarrow> bytes \<Rightarrow> int32 \<Rightarrow> bool \<Rightarrow> bool \<times> bool" where
  "payment_VerifyTxSignature E t hash destTo vchSig nForkHeight fCompleted =
    (if nForkHeight < m_height_exec t + SafeHeight then (False, fCompleted)
     else if nForkHeight < m_height_end t
     then (let c = pubkey_Verify E (GetPubKey (m_customer t)) hash vchSig in (c, c))
     else if destTo = m_business t
     then (let c = pubkey_Verify E (GetPubKey (m_business t)) hash vchSig in (c, c))
     else if destTo = m_customer t
     then (let c = pubkey_Verify E (GetPubKey (m_customer t)) hash vchSig in (c, c))
     else (False, fCompleted))"

definition dexorder_VerifyTxSignature :: "CTemplateDexOrder \<Rightarrow> CDestination \<Rightarrow> bytes \<Rightarrow> verify_step" where
  "dexorder_VerifyTxSignature t destTo vchSig =
    (if IsTemplate destTo \<and> tid_GetType (GetTemplateId destTo) = TEMPLATE_DEXMATCH
     then CallDest (to_destMatch t) vchSig else CallDest (to_destSeller t) vchSig)"

text \<open>\<^verbatim>\<open>ds >> vsm >> vss >> vchSigSub\<close>\<close>

definition three_vectors :: "(bytes \<times> bytes \<times> bytes) loader" where
  "three_vectors =
    ld_bind id_vector_basic (\<lambda>vsm. ld_bind id_vector_basic (\<lambda>vss. ld_bind id_vector_basic (\<lambda>sub. ld_return (vsm, vss, sub))))"

definition dexmatch_VerifyTxSignature :: "CTemplateDexMatch \<Rightarrow> bytes \<Rightarrow> int32 \<Rightarrow> bool \<Rightarrow> verify_step" where
  "dexmatch_VerifyTxSignature t vchSig nForkHeight fCompleted =
    (case (if length vchSig \<le> 64 then Inr (([], [], vchSig), []) else three_vectors vchSig) of
       Inl UndefinedRead \<Rightarrow> Answer (Inl UndefinedRead)
     | Inl e \<Rightarrow> Answer (Inr (False, fCompleted))
     | Inr ((vsm, vss, vchSigSub), rest) \<Rightarrow>
         if sint nForkHeight \<le> sint (tm_nSellerValidHeight t) then CallDest (tm_destSellerDeal t) vchSigSub
         else CallDest (tm_destSeller t) vchSigSub)"

fun param_VerifyTxSignature ::
    "crypto_env \<Rightarrow> template_param \<Rightarrow> uint256 \<Rightarrow> uint16 \<Rightarrow> uint256 \<Rightarrow> CDestination \<Rightarrow> bytes \<Rightarrow> int32 \<Rightarrow> bool \<Rightarrow> verify_step" where
  "param_VerifyTxSignature E (PWeighted t) hash nType hashAnchor destTo vchSig nForkHeight fC =
    Answer (Inr (weighted_VerifyTxSignature E t hash hashAnchor vchSig nForkHeight fC))"
| "param_VerifyTxSignature E (PMultiSig t) hash nType hashAnchor destTo vchSig nForkHeight fC =
    Answer (Inr (weighted_VerifyTxSignature E t hash hashAnchor vchSig nForkHeight fC))"
| "param_VerifyTxSignature E (PFork t) hash nType hashAnchor destTo vchSig nForkHeight fC = CallDest (tf_destRedeem t) vchSig"
| "param_VerifyTxSignature E (PProof t) hash nType hashAnchor destTo vchSig nForkHeight fC = CallDest (tp_destSpend t) vchSig"
| "param_VerifyTxSignature E (PDelegate t) hash nType hashAnchor destTo vchSig nForkHeight fC = delegate_VerifyTxSignature t nType vchSig"
| "param_VerifyTxSignature E (PExchange t) hash nType hashAnchor destTo vchSig nForkHeight fC = Answer (Inr (True, fC))"
| "param_VerifyTxSignature E (PVote t) hash nType hashAnchor destTo vchSig nForkHeight fC = CallDest (tv_destOwner t) vchSig"
| "param_VerifyTxSignature E (PPayment t) hash nType hashAnchor destTo vchSig nForkHeight fC =
    Answer (Inr (payment_VerifyTxSignature E t hash destTo vchSig nForkHeight fC))"
| "param_VerifyTxSignature E (PDexOrder t) hash nType hashAnchor destTo vchSig nForkHeight fC = dexorder_VerifyTxSignature t destTo vchSig"
| "param_VerifyTxSignature E (PDexMatch t) hash nType hashAnchor destTo vchSig nForkHeight fC =
    dexmatch_VerifyTxSignature t vchSig nForkHeight fC"
| "param_VerifyTxSignature E (PDexBbcMap t) hash nType hashAnchor destTo vchSig nForkHeight fC = CallDest (tb_destOwner t) vchSig"

section \<open>The template named by a destination\<close>

text \<open>The first half of the static \<^verbatim>\<open>CTemplate::VerifyTxSignature\<close>: the template that starts the signature, checked
  against the id, and the signature behind it.\<close>

definition CTemplate_open :: "crypto_env \<Rightarrow> uint256 \<Rightarrow> bytes \<Rightarrow> stream_error + (CTemplate \<times> bytes) option" where
  "CTemplate_open E nIdIn vchSig =
    (case CreateTemplatePtr (ce_hash E) (tid_GetType nIdIn) vchSig of
       Inl e \<Rightarrow> Inl e
     | Inr None \<Rightarrow> Inr None
     | Inr (Some ptr) \<Rightarrow>
         if t_nId ptr \<noteq> nIdIn then Inr None else Inr (Some (ptr, drop (length (t_vchData ptr)) vchSig)))"

lemma length_BuildTemplateData_pos: "0 < length (BuildTemplateData p)"
  by (cases p) (simp_all add: weighted_BuildTemplateData_def fork_BuildTemplateData_def proof_BuildTemplateData_def
      delegate_BuildTemplateData_def exchange_BuildTemplateData_def vote_BuildTemplateData_def payment_BuildTemplateData_def
      dexorder_BuildTemplateData_def dexmatch_BuildTemplateData_def dexbbcmap_BuildTemplateData_def)

lemma CTemplate_open_Some:
  assumes "CTemplate_open E nIdIn vchSig = Inr (Some (t, sub))"
  shows "CreateTemplatePtr (ce_hash E) (tid_GetType nIdIn) vchSig = Inr (Some t)" "t_nId t = nIdIn"
    "sub = drop (length (t_vchData t)) vchSig" "length sub < length vchSig"
proof -
  show c: "CreateTemplatePtr (ce_hash E) (tid_GetType nIdIn) vchSig = Inr (Some t)" and "t_nId t = nIdIn"
    and d: "sub = drop (length (t_vchData t)) vchSig"
    using assms by (auto simp: CTemplate_open_def split: sum.splits option.splits if_splits)
  obtain p where "t = built (ce_hash E) p" "length (BuildTemplateData p) \<le> length vchSig"
    using CreateTemplatePtr_Some [OF c] by blast
  then show "length sub < length vchSig"
    unfolding d using length_BuildTemplateData_pos [of p] by (cases "BuildTemplateData p") auto
qed

lemma three_vectors_exact:
  assumes "three_vectors s = Inr ((a, b, c), r)"
  shows "length a + length b + length c + 24 \<le> length s"
proof -
  have "ld_wp three_vectors (\<lambda>(a, b, c) n. n = length a + length b + length c + 24)"
    unfolding three_vectors_def by (intro wp_rules) simp
  from ld_wpD [OF this assms] show ?thesis by auto
qed

lemma param_VerifyTxSignature_shorter:
  "param_VerifyTxSignature E p hash nType hashAnchor destTo vchSig nForkHeight fC = CallDest d s \<Longrightarrow> length s \<le> length vchSig"
proof (cases p)
  case (PDexMatch t)
  assume a: "param_VerifyTxSignature E p hash nType hashAnchor destTo vchSig nForkHeight fC = CallDest d s"
  show ?thesis
  proof (cases "length vchSig \<le> 64")
    case False
    then obtain vsm vss r where "three_vectors vchSig = Inr ((vsm, vss, s), r)"
      using a PDexMatch by (auto simp: dexmatch_VerifyTxSignature_def split: sum.splits stream_error.splits if_splits)
    then show ?thesis using three_vectors_exact by fastforce
  qed (use a PDexMatch in \<open>auto simp: dexmatch_VerifyTxSignature_def split: if_splits\<close>)
qed (auto simp: delegate_VerifyTxSignature_def dexorder_VerifyTxSignature_def split: if_splits)

section \<open>Verification for destinations\<close>

function dest_VerifyTxSignature ::
    "crypto_env \<Rightarrow> uint256 \<Rightarrow> uint16 \<Rightarrow> uint256 \<Rightarrow> CDestination \<Rightarrow> int32 \<Rightarrow> CDestination \<Rightarrow> bytes \<Rightarrow> bool \<Rightarrow> verdict" where
  "dest_VerifyTxSignature E hash nType hashAnchor destTo nForkHeight dest vchSig fCompleted =
    (if IsPubKey dest
     then (let c = pubkey_Verify E (GetPubKey dest) hash vchSig in Inr (c, c))
     else if IsTemplate dest
     then (case CTemplate_open E (GetTemplateId dest) vchSig of
             Inl e \<Rightarrow> Inl e
           | Inr None \<Rightarrow> Inr (False, fCompleted)
           | Inr (Some (ptr, vchSubSig)) \<Rightarrow>
               (case param_VerifyTxSignature E (t_param ptr) hash nType hashAnchor destTo vchSubSig nForkHeight fCompleted of
                  Answer v \<Rightarrow> v
                | CallDest d s \<Rightarrow> dest_VerifyTxSignature E hash nType hashAnchor destTo nForkHeight d s fCompleted))
     else Inr (False, fCompleted))"
  by pat_completeness auto
termination
proof (relation "measure (\<lambda>(E, hash, nType, hashAnchor, destTo, nForkHeight, dest, vchSig, fCompleted). length vchSig)",
    goal_cases)
  case (2 E hash nType hashAnchor destTo nForkHeight dest vchSig fCompleted x2 x2a x y x21 x22)
  then show ?case
    using CTemplate_open_Some(4) [of E "GetTemplateId dest" vchSig x y] param_VerifyTxSignature_shorter by fastforce
qed simp

declare dest_VerifyTxSignature.simps [simp del]

text \<open>The second half of \<^verbatim>\<open>CTemplate::VerifyTxSignature\<close>: the virtual call on the opened template.\<close>

definition template_VerifyTxSignature ::
    "crypto_env \<Rightarrow> CTemplate \<Rightarrow> uint256 \<Rightarrow> uint16 \<Rightarrow> uint256 \<Rightarrow> CDestination \<Rightarrow> bytes \<Rightarrow> int32 \<Rightarrow> bool \<Rightarrow> verdict" where
  "template_VerifyTxSignature E ptr hash nType hashAnchor destTo vchSig nForkHeight fCompleted =
    (case param_VerifyTxSignature E (t_param ptr) hash nType hashAnchor destTo vchSig nForkHeight fCompleted of
       Answer v \<Rightarrow> v
     | CallDest d s \<Rightarrow> dest_VerifyTxSignature E hash nType hashAnchor destTo nForkHeight d s fCompleted)"

text \<open>The constructor of an exchange template from the bytes of a signature: \<^verbatim>\<open>vchData\<close> is the prefix that was read, and a
  short signature raises an exception that nothing catches.\<close>

definition CTemplateExchange_bytes :: "crypto_env \<Rightarrow> bytes \<Rightarrow> stream_error + CTemplateExchange \<times> uint256" where
  "CTemplateExchange_bytes E vchDataIn =
    (case exchange_SetTemplateData vchDataIn of
       Inl e \<Rightarrow> Inl e
     | Inr (t, rest) \<Rightarrow> Inr (t, CTemplateId TEMPLATE_EXCHANGE (ce_hash E (take exchange_DataLen vchDataIn))))"

definition exchange_VerifySignature ::
    "crypto_env \<Rightarrow> CTemplateExchange \<Rightarrow> uint256 \<Rightarrow> uint256 \<Rightarrow> bytes \<Rightarrow> int32 \<Rightarrow> uint256 \<Rightarrow> stream_error + bool" where
  "exchange_VerifySignature E t nId hash vchSig height fork =
    (if length vchSig \<noteq> 354 then Inr False
     else case three_vectors (drop exchange_DataLen vchSig) of
       Inl UndefinedRead \<Rightarrow> Inl UndefinedRead
     | Inl e \<Rightarrow> Inr False
     | Inr ((sign_m, sign_s, vchSig'), rest) \<Rightarrow>
         let both = pubkey_Verify E (GetPubKey (te_destSpend_m t)) nId sign_m
                  \<and> pubkey_Verify E (GetPubKey (te_destSpend_s t)) nId sign_s in
         if fork = te_fork_m t
         then if height > te_height_m t then Inr (pubkey_Verify E (GetPubKey (te_destSpend_m t)) hash vchSig')
              else if both then Inr (pubkey_Verify E (GetPubKey (te_destSpend_s t)) hash vchSig')
              else Inr False
         else if fork = te_fork_s t
         then if height > te_height_s t then Inr (pubkey_Verify E (GetPubKey (te_destSpend_s t)) hash vchSig')
              else if both then Inr (pubkey_Verify E (GetPubKey (te_destSpend_m t)) hash vchSig')
              else Inr False
         else Inr False)"

definition dest_VerifyTxSignature_fork ::
    "crypto_env \<Rightarrow> uint256 \<Rightarrow> uint16 \<Rightarrow> uint256 \<Rightarrow> CDestination \<Rightarrow> int32 \<Rightarrow> uint256 \<Rightarrow> CDestination \<Rightarrow> bytes \<Rightarrow> stream_error + bool" where
  "dest_VerifyTxSignature_fork E hash nType hashAnchor destTo nForkHeight fork dest vchSig =
    (if IsTemplate dest \<and> tid_GetType (GetTemplateId dest) = TEMPLATE_EXCHANGE
     then (case CTemplateExchange_bytes E vchSig of
             Inl e \<Rightarrow> Inl e
           | Inr (sp, nId) \<Rightarrow> exchange_VerifySignature E sp nId hash vchSig nForkHeight fork)
     else (case dest_VerifyTxSignature E hash nType hashAnchor destTo nForkHeight dest vchSig False of
             Inl e \<Rightarrow> Inl e
           | Inr (r, fCompleted) \<Rightarrow> Inr (r \<and> fCompleted)))"

section \<open>Block signatures\<close>

text \<open>The two classes derived from \<^verbatim>\<open>CTemplateMint\<close> verify with their minting key.\<close>

fun mint_key :: "template_param \<Rightarrow> uint256 option" where
  "mint_key (PProof t) = Some (tp_keyMint t)"
| "mint_key (PDelegate t) = Some (td_keyDelegate t)"
| "mint_key _ = None"

definition mint_VerifyBlockSignature :: "crypto_env \<Rightarrow> uint256 \<Rightarrow> uint256 \<Rightarrow> bytes \<Rightarrow> stream_error + bool" where
  "mint_VerifyBlockSignature E nIdIn hash vchSig =
    (let nType = tid_GetType nIdIn in
     if nType \<noteq> TEMPLATE_PROOF \<and> nType \<noteq> TEMPLATE_DELEGATE then Inr False
     else case CreateTemplatePtr (ce_hash E) nType vchSig of
       Inl e \<Rightarrow> Inl e
     | Inr None \<Rightarrow> Inr False
     | Inr (Some ptr) \<Rightarrow>
         (case mint_key (t_param ptr) of
            None \<Rightarrow> Inr False
          | Some key \<Rightarrow> Inr (pubkey_Verify E key hash (drop (length (t_vchData ptr)) vchSig))))"

definition dest_VerifyBlockSignature :: "crypto_env \<Rightarrow> CDestination \<Rightarrow> uint256 \<Rightarrow> bytes \<Rightarrow> stream_error + bool" where
  "dest_VerifyBlockSignature E dest hash vchSig =
    (if IsPubKey dest then Inr (pubkey_Verify E (GetPubKey dest) hash vchSig)
     else if IsTemplate dest then mint_VerifyBlockSignature E (GetTemplateId dest) hash vchSig
     else Inr False)"

definition BuildBlockSignature :: "crypto_env \<Rightarrow> CTemplate \<Rightarrow> uint256 \<Rightarrow> bytes \<Rightarrow> bool \<times> bytes" where
  "BuildBlockSignature E t hash vchPreSig =
    (case mint_key (t_param t) of
       None \<Rightarrow> (False, [])
     | Some key \<Rightarrow>
         if \<not> pubkey_Verify E key hash vchPreSig then (False, t_vchData t) else (True, t_vchData t @ vchPreSig))"

definition BuildVssSignature :: "crypto_env \<Rightarrow> bytes \<Rightarrow> CTemplateDelegate \<Rightarrow> uint256 \<Rightarrow> bytes \<Rightarrow> bytes option" where
  "BuildVssSignature E vchData t hash vchDelegateSig =
    (if \<not> pubkey_Verify E (td_keyDelegate t) hash vchDelegateSig then None else Some (vchData @ vchDelegateSig))"

section \<open>Building transaction signatures\<close>

text \<open>\<^verbatim>\<open>ds >> vsm >> vss >> hashFork >> height\<close>\<close>

definition exchange_extra :: "(bytes \<times> bytes \<times> uint256 \<times> int32) loader" where
  "exchange_extra =
    ld_bind id_vector_basic (\<lambda>vsm. ld_bind id_vector_basic (\<lambda>vss. ld_bind id_basic (\<lambda>hashFork. ld_bind id_basic (\<lambda>height.
      ld_return (vsm, vss, hashFork, height)))))"

definition exchange_BuildTxSignature :: "bytes \<Rightarrow> bytes \<Rightarrow> bytes \<Rightarrow> stream_error + bool \<times> bytes" where
  "exchange_BuildTxSignature vchData vchPreSig vchSig =
    (case exchange_extra vchSig of
       Inl UndefinedRead \<Rightarrow> Inl UndefinedRead
     | Inl e \<Rightarrow> Inr (False, vchSig)
     | Inr ((vsm, vss, hashFork, height), rest) \<Rightarrow>
         Inr (True, vchData @ od_vector_basic vsm @ od_vector_basic vss @ od_vector_basic vchPreSig))"

text \<open>The public \<^verbatim>\<open>CTemplate::BuildTxSignature\<close> with the virtual function it ends in.\<close>

definition BuildTxSignature ::
    "crypto_env \<Rightarrow> CTemplate \<Rightarrow> uint256 \<Rightarrow> uint16 \<Rightarrow> uint256 \<Rightarrow> CDestination \<Rightarrow> int32 \<Rightarrow> bytes \<Rightarrow> bool
      \<Rightarrow> stream_error + bool \<times> bytes \<times> bool" where
  "BuildTxSignature E t hash nType hashAnchor destTo nForkHeight vchPreSig fCompleted =
    (let vchSig = t_vchData t in
     case template_VerifyTxSignature E t hash nType hashAnchor destTo vchPreSig nForkHeight fCompleted of
       Inl e \<Rightarrow> Inl e
     | Inr (False, fC) \<Rightarrow> Inr (False, vchSig, fC)
     | Inr (True, fC) \<Rightarrow>
         (case t_param t of
            PExchange _ \<Rightarrow>
              (case exchange_BuildTxSignature (t_vchData t) vchPreSig vchSig of
                 Inl e \<Rightarrow> Inl e
               | Inr (r, vch) \<Rightarrow> Inr (r, vch, fC))
          | _ \<Rightarrow> Inr (True, vchSig @ vchPreSig, fC)))"

definition BuildDexMatchTxSignature :: "bytes \<Rightarrow> bytes \<Rightarrow> bytes \<Rightarrow> stream_error + bytes option" where
  "BuildDexMatchTxSignature vchData vchSignExtraData vchPreSig =
    (case (if vchSignExtraData \<noteq> []
           then ld_bind id_vector_basic (\<lambda>vsm :: bytes. ld_bind id_vector_basic (\<lambda>vss :: bytes. ld_return (vsm, vss))) vchSignExtraData
           else Inr (([], []), [])) of
       Inl UndefinedRead \<Rightarrow> Inl UndefinedRead
     | Inl e \<Rightarrow> Inr None
     | Inr ((vsm, vss), rest) \<Rightarrow>
         Inr (Some (vchData @ od_vector_basic vsm @ od_vector_basic vss @ od_vector_basic vchPreSig)))"

section \<open>Who has to sign\<close>

text \<open>\<^verbatim>\<open>None\<close> is the answer false; \<open>Some\<close> carries the set of destinations and the inner signature.\<close>

type_synonym sign_request = "stream_error + (CDestination list \<times> bytes) option"

definition base_GetSignDestination :: "bytes \<Rightarrow> bytes \<Rightarrow> bytes \<Rightarrow> bytes option" where
  "base_GetSignDestination vchData vchSig vchSubSig =
    (if vchSig \<noteq> []
     then if length vchSig < length vchData then None else Some (drop (length vchData) vchSig)
     else Some vchSubSig)"

definition payment_GetSignDestination :: "CTemplatePayment \<Rightarrow> CTransaction \<Rightarrow> bytes \<Rightarrow> sign_request" where
  "payment_GetSignDestination t tx vchSubSig =
    (case ld_bind id_basic (\<lambda>height :: uint32. ld_bind id_basic (\<lambda>nValueIn :: int64. ld_return (height, nValueIn))) (tx_vchSig tx) of
       Inl e \<Rightarrow> Inr None
     | Inr ((height, nValueIn), rest) \<Rightarrow>
         Inr (if \<not> IsPubKey (m_business t) \<or> \<not> IsPubKey (m_customer t) then None
              else if height < m_height_exec t + SafeHeight then None
              else if height < m_height_end t then Some ([m_customer t], vchSubSig)
              else if nValueIn = m_amount t \<or> nValueIn = m_amount t + m_pledge t then Some ([m_business t], vchSubSig)
              else if nValueIn = m_pledge t then Some ([m_customer t], vchSubSig)
              else None))"

definition exchange_GetSignDestination :: "CTemplateExchange \<Rightarrow> CTransaction \<Rightarrow> bytes \<Rightarrow> sign_request" where
  "exchange_GetSignDestination t tx vchSubSig =
    (case exchange_extra (tx_vchSig tx) of
       Inl UndefinedRead \<Rightarrow> Inl UndefinedRead
     | Inl e \<Rightarrow> Inr None
     | Inr ((vsm, vss, forkid, height), rest) \<Rightarrow>
         Inr (if \<not> IsPubKey (te_destSpend_m t) \<or> \<not> IsPubKey (te_destSpend_s t) then None
              else let s1 = (if forkid = te_fork_m t
                             then if height > te_height_m t then [te_destSpend_m t] else [te_destSpend_s t]
                             else []);
                       s2 = (if forkid = te_fork_s t
                             then if height > te_height_s t then set_insert (te_destSpend_s t) s1
                                  else set_insert (te_destSpend_m t) s1
                             else s1)
                   in Some (s2, vchSubSig)))"

text \<open>The overrides that start with the function of the base class and then name the signers.\<close>

definition weighted_signers :: "CTemplateWeighted \<Rightarrow> CDestination list" where
  "weighted_signers t = map (\<lambda>kw. SetPubKey (fst kw)) (tw_mapPubKeyWeight t)"

definition delegate_signers :: "CTemplateDelegate \<Rightarrow> CTransaction \<Rightarrow> CDestination list" where
  "delegate_signers t tx = (if tx_nType tx = TX_CERT then [SetPubKey (td_keyDelegate t)] else [td_destOwner t])"

definition dexorder_signers :: "CTemplateDexOrder \<Rightarrow> CTransaction \<Rightarrow> CDestination list" where
  "dexorder_signers t tx =
    (if IsTemplate (tx_sendTo tx) \<and> tid_GetType (GetTemplateId (tx_sendTo tx)) = TEMPLATE_DEXMATCH
     then [to_destMatch t] else [to_destSeller t])"

definition dexmatch_signers :: "CTemplateDexMatch \<Rightarrow> int32 \<Rightarrow> CDestination list" where
  "dexmatch_signers t nHeight =
    (if sint nHeight \<le> sint (tm_nSellerValidHeight t) then [tm_destSellerDeal t] else [tm_destSeller t])"

lemmas signers_defs [simp] = weighted_signers_def delegate_signers_def dexorder_signers_def dexmatch_signers_def

fun sign_set :: "template_param \<Rightarrow> CTransaction \<Rightarrow> int32 \<Rightarrow> CDestination list" where
  "sign_set (PWeighted t) tx nHeight = weighted_signers t"
| "sign_set (PMultiSig t) tx nHeight = weighted_signers t"
| "sign_set (PFork t) tx nHeight = [tf_destRedeem t]"
| "sign_set (PProof t) tx nHeight = [tp_destSpend t]"
| "sign_set (PDelegate t) tx nHeight = delegate_signers t tx"
| "sign_set (PVote t) tx nHeight = [tv_destOwner t]"
| "sign_set (PDexOrder t) tx nHeight = dexorder_signers t tx"
| "sign_set (PDexMatch t) tx nHeight = dexmatch_signers t nHeight"
| "sign_set (PDexBbcMap t) tx nHeight = [tb_destOwner t]"
| "sign_set (PExchange t) tx nHeight = []"
| "sign_set (PPayment t) tx nHeight = []"

definition GetSignDestination :: "CTemplate \<Rightarrow> CTransaction \<Rightarrow> int32 \<Rightarrow> bytes \<Rightarrow> bytes \<Rightarrow> sign_request" where
  "GetSignDestination t tx nHeight vchSig vchSubSig =
    (case t_param t of
       PExchange e \<Rightarrow> exchange_GetSignDestination e tx vchSubSig
     | PPayment y \<Rightarrow> payment_GetSignDestination y tx vchSubSig
     | p \<Rightarrow> Inr (map_option (\<lambda>sub. (sign_set p tx nHeight, sub)) (base_GetSignDestination (t_vchData t) vchSig vchSubSig)))"

section \<open>Recorded destinations\<close>

definition FORK_TEMPLATE_SIGDATA_HEIGHT :: int where "FORK_TEMPLATE_SIGDATA_HEIGHT = 525230"

text \<open>A transaction to a recorded template carries the data of that template in front of its signature.\<close>

definition VerifyDestRecorded :: "crypto_env \<Rightarrow> CTransaction \<Rightarrow> int32 \<Rightarrow> bytes \<Rightarrow> stream_error + bytes option" where
  "VerifyDestRecorded E tx nHeight vchSigOut =
    (if tx_vchSig tx \<noteq> []
     then (case GetTemplateId_out (tx_sendTo tx) of
             None \<Rightarrow> Inr (Some (tx_vchSig tx))
           | Some tid \<Rightarrow>
               if \<not> IsDestInRecorded (tx_sendTo tx) then Inr (Some (tx_vchSig tx))
               else if tid_GetType tid = TEMPLATE_FORK \<and> sint nHeight < FORK_TEMPLATE_SIGDATA_HEIGHT
               then Inr (Some (tx_vchSig tx))
               else case CreateTemplatePtr (ce_hash E) (tid_GetType tid) (tx_vchSig tx) of
                 Inl e \<Rightarrow> Inl e
               | Inr None \<Rightarrow> Inr None
               | Inr (Some ptr) \<Rightarrow>
                   if t_nId ptr \<noteq> tid then Inr None
                   else map_sum id (map_option snd) (GetSignDestination ptr tx 0 (tx_vchSig tx) vchSigOut))
     else Inr (Some vchSigOut))"

text \<open>The vote template at the front of a signature and what follows it.\<close>

definition open_vote :: "crypto_env \<Rightarrow> bytes \<Rightarrow> stream_error + (CTemplate \<times> CTemplateVote) option" where
  "open_vote E vch =
    (case CreateTemplatePtr (ce_hash E) TEMPLATE_VOTE vch of
       Inl e \<Rightarrow> Inl e
     | Inr None \<Rightarrow> Inr None
     | Inr (Some ptr) \<Rightarrow> (case t_param ptr of PVote v \<Rightarrow> Inr (Some (ptr, v)) | _ \<Rightarrow> Inr None))"

definition ParseDelegateDest ::
    "crypto_env \<Rightarrow> CDestination \<Rightarrow> CDestination \<Rightarrow> bytes \<Rightarrow> CDestination \<Rightarrow> CDestination
      \<Rightarrow> stream_error + (CDestination \<times> CDestination) option" where
  "ParseDelegateDest E destIn sendTo vchSigIn destInDelegateOut sendToDelegateOut =
    (let second = (\<lambda>sendToDelegate vchSubSigOut.
       case GetTemplateId_out destIn of
         None \<Rightarrow> Inr (Some (destInDelegateOut, sendToDelegate))
       | Some tid \<Rightarrow>
           if tid_GetType tid = TEMPLATE_DELEGATE then Inr (Some (destIn, sendToDelegate))
           else if tid_GetType tid = TEMPLATE_VOTE
           then (case open_vote E vchSubSigOut of
                   Inl e \<Rightarrow> Inl e
                 | Inr None \<Rightarrow> Inr None
                 | Inr (Some (ptr, v)) \<Rightarrow> Inr (Some (fst (GetDelegateOwnerDestination v), sendToDelegate)))
           else Inr (Some (destInDelegateOut, sendToDelegate)))
     in case GetTemplateId_out sendTo of
          None \<Rightarrow> second sendToDelegateOut vchSigIn
        | Some tid \<Rightarrow>
            if tid_GetType tid = TEMPLATE_DELEGATE then second sendTo vchSigIn
            else if tid_GetType tid = TEMPLATE_VOTE
            then (case open_vote E vchSigIn of
                    Inl e \<Rightarrow> Inl e
                  | Inr None \<Rightarrow> Inr None
                  | Inr (Some (ptr, v)) \<Rightarrow>
                      (case base_GetSignDestination (t_vchData ptr) vchSigIn [] of
                         None \<Rightarrow> Inr None
                       | Some sub \<Rightarrow> second (fst (GetDelegateOwnerDestination v)) sub))
            else second sendToDelegateOut vchSigIn)"

section \<open>Payments\<close>

text \<open>\<open>None\<close> is the division by zero of an empty set of votes.\<close>

definition payment_VerifyTransaction ::
    "CTemplatePayment \<Rightarrow> CTransaction \<Rightarrow> uint32 \<Rightarrow> (int64 \<times> CDestination) list \<Rightarrow> uint256 \<Rightarrow> int64 \<Rightarrow> bool option" where
  "payment_VerifyTransaction t tx height mapVotes nAgreement nValueIn =
    (if length (tx_vInput tx) \<noteq> 1 then Some False
     else if height < m_height_exec t + SafeHeight then Some False
     else if height < m_height_end t
     then if tx_nAmount tx + tx_nTxFee tx \<noteq> m_amount t + m_pledge t then Some False
          else if mapVotes = [] then None
          else Some (snd (mapVotes ! (unat (ucast nAgreement :: uint32) mod length mapVotes)) = tx_sendTo tx)
     else if tx_sendTo tx = m_business t \<and> (nValueIn = m_amount t + m_pledge t \<or> nValueIn = m_amount t)
     then Some (tx_nAmount tx + tx_nTxFee tx = m_amount t)
     else if tx_sendTo tx = m_customer t \<and> (nValueIn = m_amount t + m_pledge t \<or> nValueIn = m_pledge t)
     then Some (tx_nAmount tx + tx_nTxFee tx = m_pledge t)
     else Some False)"

section \<open>Lemmas\<close>

lemma dest_VerifyTxSignature_template:
  assumes "IsTemplate d"
  shows "dest_VerifyTxSignature E hash nType hashAnchor destTo h d vchSig fC =
    (case CTemplate_open E (GetTemplateId d) vchSig of
       Inl e \<Rightarrow> Inl e
     | Inr None \<Rightarrow> Inr (False, fC)
     | Inr (Some (ptr, sub)) \<Rightarrow> template_VerifyTxSignature E ptr hash nType hashAnchor destTo sub h fC)"
  using assms by (subst dest_VerifyTxSignature.simps)
    (simp add: IsPubKey_def IsTemplate_def prefix_defs template_VerifyTxSignature_def cong: sum.case_cong option.case_cong)

lemma dest_VerifyTxSignature_pubkey:
  "IsPubKey d \<Longrightarrow> dest_VerifyTxSignature E hash nType hashAnchor destTo h d vchSig fC =
    Inr (pubkey_Verify E (GetPubKey d) hash vchSig, pubkey_Verify E (GetPubKey d) hash vchSig)"
  by (subst dest_VerifyTxSignature.simps) (simp add: Let_def)

lemma GetTemplateId_SetTemplateId [simp]: "GetTemplateId (SetTemplateId tid) = tid" "IsTemplate (SetTemplateId tid)"
  by (simp_all add: GetTemplateId_def SetTemplateId_def IsTemplate_def)

lemma CTemplate_open_built:
  assumes "param_valid p" "ValidateParam p" "ce_hash E = H"
  shows "CTemplate_open E (t_nId (built H p)) (BuildTemplateData p @ s) = Inr (Some (built H p, s))"
  using CreateTemplatePtr_built [OF assms(1,2), of H s] assms(3) by (simp add: CTemplate_open_def tid_GetType_CTemplateId)

text \<open>The destination a template hands over to is the one \<^verbatim>\<open>GetSignDestination\<close> names.\<close>

lemma CallDest_sign_set:
  assumes "param_VerifyTxSignature E p hash (tx_nType tx) hashAnchor (tx_sendTo tx) vchSig h fC = CallDest d s"
  shows "sign_set p tx h = [d]"
  using assms by (cases p) (auto simp: delegate_VerifyTxSignature_def dexorder_VerifyTxSignature_def dexmatch_VerifyTxSignature_def
      split: if_splits sum.splits stream_error.splits)

text \<open>It is a public key or a weighted template.\<close>

lemma dex_spendable:
  "dexorder_ValidateParam o1 \<Longrightarrow> IsTxSpendable (to_destSeller o1)"
  "dexorder_ValidateParam o1 \<Longrightarrow> IsTxSpendable (to_destMatch o1)"
  "dexmatch_ValidateParam m1 \<Longrightarrow> IsTxSpendable (tm_destSeller m1)"
  "dexmatch_ValidateParam m1 \<Longrightarrow> IsTxSpendable (tm_destSellerDeal m1)"
  by (simp_all add: dexorder_ValidateParam_def dexmatch_ValidateParam_def split: if_split_asm)

lemma CallDest_spendable:
  assumes "param_VerifyTxSignature E p hash nType hashAnchor destTo vchSig h fC = CallDest d s" "ValidateParam p"
  shows "IsTxSpendable d"
proof (cases p)
  case (PDexMatch t)
  then show ?thesis
    using assms dex_spendable(3,4) [of t]
    by (auto simp: dexmatch_VerifyTxSignature_def split: if_splits sum.splits stream_error.splits)
next
  case (PDexOrder t)
  then show ?thesis
    using assms dex_spendable(1,2) [of t] by (auto simp: dexorder_VerifyTxSignature_def split: if_splits)
qed (use assms in \<open>auto simp: delegate_VerifyTxSignature_def fork_ValidateParam_def proof_ValidateParam_def
      delegate_ValidateParam_def vote_ValidateParam_def dexbbcmap_ValidateParam_def IsTxSpendable_def SetPubKey_def IsPubKey_def
      split: if_splits\<close>)

text \<open>The weight of one key, and of the keys that a multiple signature reports.\<close>

definition key_weight :: "CTemplateWeighted \<Rightarrow> uint256 \<Rightarrow> nat" where
  "key_weight t key = (case map_of (tw_mapPubKeyWeight t) key of Some w \<Rightarrow> unat w | None \<Rightarrow> 0)"

lemma signed_weight_sum: "distinct part \<Longrightarrow> signed_weight (tw_mapPubKeyWeight t) part = (\<Sum>key\<in>set part. key_weight t key)"
  by (simp add: signed_weight_def key_weight_def [abs_def] sum_list_distinct_conv_sum_set)

lemma total_weight:
  assumes "ordered_keys (tw_mapPubKeyWeight t)"
  shows "(\<Sum>kw\<leftarrow>tw_mapPubKeyWeight t. unat (snd kw)) = (\<Sum>key\<in>fst ` set (tw_mapPubKeyWeight t). key_weight t key)"
proof -
  let ?m = "tw_mapPubKeyWeight t"
  have d: "distinct (map fst ?m)"
    by (rule ordered_keys_distinct [OF assms])
  have "(\<Sum>kw\<leftarrow>?m. unat (snd kw)) = (\<Sum>kw\<leftarrow>?m. key_weight t (fst kw))"
    using d by (intro arg_cong [where f = sum_list] map_cong) (auto simp: key_weight_def)
  also have "\<dots> = sum_list (map (key_weight t) (map fst ?m))"
    by (simp add: comp_def)
  finally show ?thesis
    using d by (simp add: sum_list_distinct_conv_sum_set del: map_map)
qed

lemma weighted_VerifyTxSignature_multi:
  assumes "sint h \<le> 0 \<or> ce_multi_height E \<le> h"
  shows "weighted_VerifyTxSignature E t hash hashAnchor vchSig h fC =
    (case CryptoMultiVerify (ce_verify E) (map fst (tw_mapPubKeyWeight t)) (le_bytes 32 hash) vchSig [] of
       (ok, part) \<Rightarrow> if ok then (True, unat (tw_nRequired t) \<le> signed_weight (tw_mapPubKeyWeight t) part) else (False, fC))"
  using assms by (auto simp: weighted_VerifyTxSignature_def Let_def split: prod.split)

text \<open>\<open>owner_signed\<close>: a public key signed, or the weighted template the destination names was completed.\<close>

definition owner_signed :: "crypto_env \<Rightarrow> uint256 \<Rightarrow> uint256 \<Rightarrow> int32 \<Rightarrow> CDestination \<Rightarrow> bytes \<Rightarrow> bool" where
  "owner_signed E hash hashAnchor h d vchSig \<longleftrightarrow>
    IsPubKey d \<and> pubkey_Verify E (GetPubKey d) hash vchSig \<or>
    (\<exists>w sub. IsTemplate d \<and> weighted_VerifyTxSignature E w hash hashAnchor sub h False = (True, True) \<and>
      (CTemplate_open E (GetTemplateId d) vchSig = Inr (Some (built (ce_hash E) (PWeighted w), sub)) \<or>
       CTemplate_open E (GetTemplateId d) vchSig = Inr (Some (built (ce_hash E) (PMultiSig w), sub))))"

lemma dest_VerifyTxSignature_opened:
  assumes "IsTemplate d" "dest_VerifyTxSignature E hash nType hashAnchor destTo h d vchSig False = Inr (True, True)"
  obtains p sub where "CTemplate_open E (GetTemplateId d) vchSig = Inr (Some (built (ce_hash E) p, sub))"
    "template_VerifyTxSignature E (built (ce_hash E) p) hash nType hashAnchor destTo sub h False = Inr (True, True)"
    "ValidateParam p" "param_type p = tid_GetType (GetTemplateId d)" "length (BuildTemplateData p) \<le> length vchSig"
    "sub = drop (length (BuildTemplateData p)) vchSig" "GetTemplateId d = t_nId (built (ce_hash E) p)"
proof -
  obtain t sub where t: "CTemplate_open E (GetTemplateId d) vchSig = Inr (Some (t, sub))"
      "template_VerifyTxSignature E t hash nType hashAnchor destTo sub h False = Inr (True, True)"
    using assms(2) unfolding dest_VerifyTxSignature_template [OF assms(1)] by (auto split: sum.splits option.splits)
  obtain p where p: "t = built (ce_hash E) p" "tid_GetType (GetTemplateId d) = param_type p" "ValidateParam p"
      "length (BuildTemplateData p) \<le> length vchSig"
    using CreateTemplatePtr_Some [OF CTemplate_open_Some(1) [OF t(1)]] by blast
  show thesis
    using t CTemplate_open_Some(2,3) [OF t(1)] p by (intro that [of p sub]) simp_all
qed

lemma spendable_owner_signed:
  assumes "IsTxSpendable d" "dest_VerifyTxSignature E hash nType hashAnchor destTo h d vchSig False = Inr (True, True)"
  shows "owner_signed E hash hashAnchor h d vchSig"
proof (cases "IsPubKey d")
  case True
  then show ?thesis
    using assms(2) by (simp add: dest_VerifyTxSignature_pubkey owner_signed_def)
next
  case False
  then have d: "IsTemplate d"
    using assms(1) by (auto simp: IsTxSpendable_def split: if_splits)
  obtain p sub where p: "CTemplate_open E (GetTemplateId d) vchSig = Inr (Some (built (ce_hash E) p, sub))"
      "template_VerifyTxSignature E (built (ce_hash E) p) hash nType hashAnchor destTo sub h False = Inr (True, True)"
      "param_type p = tid_GetType (GetTemplateId d)"
    by (rule dest_VerifyTxSignature_opened [OF d assms(2)])
  have "CSpendableTemplate (param_class p)"
    using assms(1) False d GetTypeInfoByType_param [of p] p(3) by (auto simp: IsTxSpendable_def)
  then show ?thesis
    using p(1,2) d by (cases p) (auto simp: CSpendableTemplate_def owner_signed_def template_VerifyTxSignature_def)
qed

lemma payment_accepted:
  "payment_VerifyTxSignature E y hash destTo sub h False = (True, True) \<Longrightarrow> m_height_exec y + SafeHeight \<le> h \<and>
    (pubkey_Verify E (GetPubKey (m_customer y)) hash sub \<and> (h < m_height_end y \<or> destTo = m_customer y) \<or>
     pubkey_Verify E (GetPubKey (m_business y)) hash sub \<and> m_height_end y \<le> h \<and> destTo = m_business y)"
  by (auto simp: payment_VerifyTxSignature_def Let_def split: if_splits)

lemma accepted_CallDest:
  assumes "template_VerifyTxSignature E (built H p) hash nType hashAnchor destTo sub h False = Inr (True, True)"
    and "param_class p \<notin> {TWeighted, TMultiSig, TPayment, TExchange}"
  shows "\<exists>d s. param_VerifyTxSignature E p hash nType hashAnchor destTo sub h False = CallDest d s"
proof (cases "param_VerifyTxSignature E p hash nType hashAnchor destTo sub h False")
  case (Answer v)
  then have "v = Inr (True, True)"
    using assms(1) by (simp add: template_VerifyTxSignature_def)
  with Answer assms(2) show ?thesis
    by (cases p) (auto simp: delegate_VerifyTxSignature_def dexorder_VerifyTxSignature_def dexmatch_VerifyTxSignature_def
        split: if_splits sum.splits stream_error.splits)
qed simp

lemma template_VerifyTxSignature_owner:
  assumes "template_VerifyTxSignature E (built H p) hash (tx_nType tx) hashAnchor (tx_sendTo tx) sub h False = Inr (True, True)"
    and "ValidateParam p" "param_VerifyTxSignature E p hash (tx_nType tx) hashAnchor (tx_sendTo tx) sub h False = CallDest d s"
  shows "sign_set p tx h = [d] \<and> owner_signed E hash hashAnchor h d s"
  using assms CallDest_sign_set [OF assms(3)] CallDest_spendable [OF assms(3,2)]
  by (simp add: template_VerifyTxSignature_def spendable_owner_signed)

lemma three_vectors_save:
  assumes "length a < 2 ^ 64" "length b < 2 ^ 64" "length c < 2 ^ 64"
  shows "three_vectors (od_vector_basic a @ od_vector_basic b @ od_vector_basic c @ s) = Inr ((a, b, c), s)"
  using assms by (simp add: three_vectors_def ld_bind_Inr ld_return_apply vector_load_save)

lemma BuildDexMatch_vectors:
  assumes "BuildDexMatchTxSignature vchData vchExtra vchPreSig = Inr (Some vchSig)"
  shows "\<exists>(vsm :: bytes) (vss :: bytes). length vsm < 2 ^ 64 \<and> length vss < 2 ^ 64
    \<and> vchSig = vchData @ od_vector_basic vsm @ od_vector_basic vss @ od_vector_basic vchPreSig"
proof (cases "vchExtra = []")
  case True
  with assms show ?thesis
    by (intro exI [of _ "[]"]) (auto simp: BuildDexMatchTxSignature_def)
next
  case False
  let ?ld = "ld_bind id_vector_basic (\<lambda>vsm :: bytes. ld_bind id_vector_basic (\<lambda>vss :: bytes. ld_return (vsm, vss)))"
  have wp: "ld_wp ?ld (\<lambda>(a, b) n. length a < 2 ^ 64 \<and> length b < 2 ^ 64)"
    by (intro wp_rules) simp
  obtain vsm vss r where r: "?ld vchExtra = Inr ((vsm, vss), r)"
      "vchSig = vchData @ od_vector_basic vsm @ od_vector_basic vss @ od_vector_basic vchPreSig"
    using assms False by (auto simp: BuildDexMatchTxSignature_def split: sum.splits stream_error.splits)
  then show ?thesis
    using ld_wpD [OF wp r(1)] by auto
qed

lemma BuildDexMatch_CallDest:
  assumes "p = PDexMatch m" "40 < length vchPreSig" "length vchPreSig < 2 ^ 64"
    and "BuildDexMatchTxSignature (BuildTemplateData p) vchExtra vchPreSig = Inr (Some vchSig)"
  shows "\<exists>s. vchSig = BuildTemplateData p @ s
    \<and> param_VerifyTxSignature E p hash nType hashAnchor destTo s h fC = CallDest (hd (sign_set p tx h)) vchPreSig"
proof -
  obtain vsm vss :: bytes where v: "length vsm < 2 ^ 64" "length vss < 2 ^ 64"
      "vchSig = BuildTemplateData p @ od_vector_basic vsm @ od_vector_basic vss @ od_vector_basic vchPreSig"
    using BuildDexMatch_vectors [OF assms(4)] by auto
  then show ?thesis
    using assms(1,2) three_vectors_save [OF v(1,2) assms(3), of "[]"] by (auto simp: dexmatch_VerifyTxSignature_def)
qed

lemma BuildTxSignature_True:
  assumes "BuildTxSignature E (built H p) hash nType hashAnchor destTo h vchPreSig fC0 = Inr (True, vchSig, fC)"
    and "param_type p \<noteq> TEMPLATE_EXCHANGE"
  shows "template_VerifyTxSignature E (built H p) hash nType hashAnchor destTo vchPreSig h fC0 = Inr (True, fC)
    \<and> vchSig = BuildTemplateData p @ vchPreSig"
  using assms by (cases p) (auto simp: BuildTxSignature_def Let_def split: sum.splits prod.splits bool.splits)

section \<open>Properties\<close>









text \<open>C36: A block signature is not bound to the minting address: whoever holds any key can sign a block for any address of a
  proof-of-work or delegate template by putting template data with that key in front of the signature, because the
  id of the template read from the signature is not compared with the address.\<close>

theorem mint_signature_unbound:
  assumes "tid_GetType tid = TEMPLATE_PROOF \<or> tid_GetType tid = TEMPLATE_DELEGATE" "key \<noteq> 0" "IsTxSpendable dest"
    and "pubkey_Verify E key hash vchSig"
  shows "dest_VerifyBlockSignature E (SetTemplateId tid) hash (od_push key @ dest_ToDataStream dest @ vchSig) = Inr True"
proof -
  have p: "CreateTemplatePtr H TEMPLATE_PROOF (od_push key @ dest_ToDataStream dest @ vchSig)
      = Inr (Some (built H (PProof \<lparr>tp_keyMint = key, tp_destSpend = dest\<rparr>)))" for H
    using CreateTemplatePtr_built [of "PProof \<lparr>tp_keyMint = key, tp_destSpend = dest\<rparr>" H vchSig] assms(2,3)
    by (simp add: proof_ValidateParam_def proof_BuildTemplateData_def)
  have q: "CreateTemplatePtr H TEMPLATE_DELEGATE (od_push key @ dest_ToDataStream dest @ vchSig)
      = Inr (Some (built H (PDelegate \<lparr>td_keyDelegate = key, td_destOwner = dest\<rparr>)))" for H
    using CreateTemplatePtr_built [of "PDelegate \<lparr>td_keyDelegate = key, td_destOwner = dest\<rparr>" H vchSig] assms(2,3)
    by (simp add: delegate_ValidateParam_def delegate_BuildTemplateData_def)
  have "\<not> IsPubKey (SetTemplateId tid)"
    by (simp add: IsPubKey_def SetTemplateId_def prefix_defs)
  then show ?thesis
    using assms(1,4) p [of "ce_hash E"] q [of "ce_hash E"]
    by (auto simp: dest_VerifyBlockSignature_def mint_VerifyBlockSignature_def Let_def proof_BuildTemplateData_def
        delegate_BuildTemplateData_def)
qed

theorem mint_signature_unbound_witness:
  "dest_VerifyBlockSignature
      \<lparr>ce_hash = \<lambda>x. 5, ce_verify = \<lambda>k m s. k = 8, ce_multi_defect = \<lambda>k a m s. (False, []), ce_multi_height = 0\<rparr>
      (SetTemplateId (CTemplateId TEMPLATE_DELEGATE 77)) 3
      (od_push (8 :: uint256) @ dest_ToDataStream (CDestination 1 9) @ replicate 64 7) = Inr True"
  by (rule mint_signature_unbound)
    (simp_all add: tid_GetType_CTemplateId IsTxSpendable_def IsPubKey_def prefix_defs pubkey_Verify_def CryptoVerify_def)

text \<open>C37: A signature for an exchange template is not bound to the address: whoever holds any key can spend from any exchange
  address by naming that key in template data of their own, because the id built from the signature is not
  compared with the address. A signature shorter than the data raises an exception that the caller does not catch.\<close>

theorem exchange_signature_unbound:
  assumes "tid_GetType tid = TEMPLATE_EXCHANGE" "te_destSpend_m t = SetPubKey key" "te_fork_m t = fork" "te_height_m t < h"
    and "length (a :: bytes) = 64" "length (b :: bytes) = 64" "pubkey_Verify E key hash s"
  shows "dest_VerifyTxSignature_fork E hash nType hashAnchor destTo h fork (SetTemplateId tid)
      (exchange_BuildTemplateData t @ od_vector_basic a @ od_vector_basic b @ od_vector_basic s) = Inr True
    \<and> dest_VerifyTxSignature_fork E hash nType hashAnchor destTo h fork (SetTemplateId tid) [] = Inl RangeError"
proof -
  have s: "length s = 64"
    using assms(7) by (simp add: pubkey_Verify_def CryptoVerify_def)
  have l: "length (exchange_BuildTemplateData t) = exchange_DataLen"
    by (simp add: exchange_BuildTemplateData_def exchange_DataLen_def)
  have "three_vectors (od_vector_basic a @ od_vector_basic b @ od_vector_basic s @ []) = Inr ((a, b, s), [])"
    using assms(5,6) s by (intro three_vectors_save) simp_all
  moreover have "exchange_SetTemplateData (exchange_BuildTemplateData t @ x) = Inr (t, x)" for x
    by (rule cexchange.load_save) simp
  moreover have "GetPubKey (SetPubKey key) = key"
    by (simp add: GetPubKey_def SetPubKey_def)
  moreover have "exchange_SetTemplateData [] = Inl RangeError"
    by (simp add: exchange_SetTemplateData_def id_basic_def id_pop_def ld_bind_def)
  ultimately show ?thesis
    using assms l s by (simp add: dest_VerifyTxSignature_fork_def CTemplateExchange_bytes_def exchange_VerifySignature_def
        exchange_DataLen_def Let_def)
qed

theorem exchange_signature_unbound_witness:
  "\<exists>vchSig. dest_VerifyTxSignature_fork
      \<lparr>ce_hash = \<lambda>x. 5, ce_verify = \<lambda>k m s. k = 8, ce_multi_defect = \<lambda>k a m s. (False, []), ce_multi_height = 0\<rparr>
      3 0 0 (CDestination 1 1) 20 4 (SetTemplateId (CTemplateId TEMPLATE_EXCHANGE 77)) vchSig = Inr True"
proof -
  let ?E = "\<lparr>ce_hash = \<lambda>x. 5, ce_verify = \<lambda>k m s. k = 8, ce_multi_defect = \<lambda>k a m s. (False, []), ce_multi_height = 0\<rparr>"
  let ?t = "\<lparr>te_destSpend_m = SetPubKey 8, te_destSpend_s = SetPubKey 8, te_height_m = 1, te_height_s = 2, te_fork_m = 4, te_fork_s = 6\<rparr>"
  show ?thesis
    using exchange_signature_unbound [of "CTemplateId TEMPLATE_EXCHANGE 77" ?t 8 4 20 "replicate 64 0" "replicate 64 0" ?E 3 "replicate 64 7"]
    by (simp add: tid_GetType_CTemplateId pubkey_Verify_def CryptoVerify_def) blast
qed

end
