(* ===== verification/Base25519.thy ===== *)
theory Base25519
  imports Prelude
begin

text \<open>
  The multi-precision helpers of \<^verbatim>\<open>src/crypto/curve25519/base25519.cpp\<close>. A 32-byte buffer is the 256-bit word
  whose little-endian image it holds; the pointer casts of the code to \<^verbatim>\<open>uint64_t*\<close> and \<^verbatim>\<open>uint128_t*\<close> read its limbs.
  The branch of the preprocessor for targets with a 128-bit integer is modelled. Every routine is
  translated limb by limb and shown to compute the operation of 256-bit words or of integers that its
  comment announces.
\<close>

unbundle bit_operations_syntax

type_synonym uint128 = "128 word"
type_synonym uint512 = "512 word"

section \<open>Limbs\<close>

definition limb64 :: "'a::len word \<Rightarrow> nat \<Rightarrow> uint64" where
  "limb64 x i = ucast (drop_bit (64 * i) x)"

definition limb128 :: "'a::len word \<Rightarrow> nat \<Rightarrow> uint128" where
  "limb128 x i = ucast (drop_bit (128 * i) x)"

primrec of_limbs :: "'l::len word list \<Rightarrow> 'a::len word" where
  "of_limbs [] = 0"
| "of_limbs (l # ls) = ucast l OR push_bit LENGTH('l) (of_limbs ls)"

primrec limbs_val :: "'l::len word list \<Rightarrow> int" where
  "limbs_val [] = 0"
| "limbs_val (l # ls) = uint l + 2 ^ LENGTH('l) * limbs_val ls"

lemma limbs_val_bounds: "0 \<le> limbs_val ls \<and> limbs_val (ls :: 'l::len word list) < 2 ^ (LENGTH('l) * length ls)"
proof (induction ls)
  case (Cons l ls)
  have "uint l < 2 ^ LENGTH('l)" "0 \<le> uint l"
    by simp_all
  moreover have "2 ^ LENGTH('l) * (limbs_val ls + 1) \<le> (2 ^ LENGTH('l) * 2 ^ (LENGTH('l) * length ls) :: int)"
    using Cons by (intro mult_left_mono) simp_all
  ultimately have lt: "uint l + 2 ^ LENGTH('l) * limbs_val ls < 2 ^ LENGTH('l) * 2 ^ (LENGTH('l) * length ls)"
    unfolding distrib_left by linarith
  have "(2 :: int) ^ (LENGTH('l) * length (l # ls)) = 2 ^ LENGTH('l) * 2 ^ (LENGTH('l) * length ls)"
    by (simp add: power_add)
  moreover have "0 \<le> 2 ^ LENGTH('l) * limbs_val ls"
    using Cons by (intro mult_nonneg_nonneg) simp_all
  ultimately show ?case
    using lt by (simp only: limbs_val.simps add_nonneg_nonneg uint_ge_0)
qed simp

lemma limbs_Cons_add: "of_limbs ((l :: 'l::len word) # ls) = (ucast l + push_bit LENGTH('l) (of_limbs ls) :: 'a::len word)"
  unfolding of_limbs.simps by (rule disjunctive_add [symmetric]) (auto simp: bit_simps dest: bit_imp_le_length)

lemma uint_limbs_mod: "uint (of_limbs (ls :: 'l::len word list) :: 'a::len word) = limbs_val ls mod 2 ^ LENGTH('a)"
proof -
  have "of_limbs ls = (word_of_int (limbs_val ls) :: 'a word)"
  proof (induction ls)
    case (Cons l ls)
    have "push_bit LENGTH('l) (of_limbs ls) = (word_of_int (2 ^ LENGTH('l) * limbs_val ls) :: 'a word)"
      unfolding Cons push_bit_eq_mult of_int_mult of_int_power of_int_numeral by (rule mult.commute)
    then show ?case
      unfolding limbs_Cons_add limbs_val.simps ucast_eq of_int_add by (rule arg_cong)
  qed simp
  then show ?thesis
    by (simp add: uint_word_of_int)
qed

lemma uint_limbs:
  assumes "LENGTH('l) * length ls \<le> LENGTH('a)"
  shows "uint (of_limbs (ls :: 'l::len word list) :: 'a::len word) = limbs_val ls"
proof -
  have "limbs_val ls < 2 ^ LENGTH('a)"
    using limbs_val_bounds [of ls] power_increasing [OF assms, of "2 :: int"] by linarith
  then show ?thesis
    using limbs_val_bounds [of ls] by (simp add: uint_limbs_mod)
qed

lemma uint_limb64: "uint (limb64 x i) = uint x div 2 ^ (64 * i) mod 2 ^ 64"
  unfolding limb64_def unsigned_ucast_eq unsigned_drop_bit_eq by (simp add: drop_bit_eq_div take_bit_eq_mod)

lemma uint_limb128: "uint (limb128 x i) = uint x div 2 ^ (128 * i) mod 2 ^ 128"
  unfolding limb128_def unsigned_ucast_eq unsigned_drop_bit_eq by (simp add: drop_bit_eq_div take_bit_eq_mod)

lemma word256_limbs128: "uint (x :: uint256) = uint (limb128 x 0) + 2 ^ 128 * uint (limb128 x 1)"
proof -
  have "uint x div 2 ^ 128 < 2 ^ 128"
    using uint_bounded [of x] by (simp add: div_less_iff_less_mult)
  then have "uint (limb128 x 1) = uint x div 2 ^ 128"
    unfolding uint_limb128 by (simp add: pos_imp_zdiv_nonneg_iff mod_pos_pos_trivial)
  then show ?thesis
    using mod_mult_div_eq [of "uint x" "2 ^ 128"] by (simp add: uint_limb128)
qed

lemma word256_limbs64:
  "uint (x :: uint256) = uint (limb64 x 0) + 2 ^ 64 * uint (limb64 x 1) + 2 ^ 128 * uint (limb64 x 2) + 2 ^ 192 * uint (limb64 x 3)"
proof -
  have d: "uint x div 2 ^ 64 div 2 ^ 64 = uint x div 2 ^ 128" "uint x div 2 ^ 128 div 2 ^ 64 = uint x div 2 ^ 192"
    by (simp_all add: zdiv_zmult2_eq [symmetric])
  have "uint x div 2 ^ 192 < 2 ^ 64"
    using uint_bounded [of x] by (simp add: div_less_iff_less_mult)
  then have "uint (limb64 x 3) = uint x div 2 ^ 192"
    unfolding uint_limb64 by (simp add: pos_imp_zdiv_nonneg_iff mod_pos_pos_trivial)
  moreover have "uint x = uint (limb64 x 0) + 2 ^ 64 * (uint x div 2 ^ 64)"
    using mod_mult_div_eq [of "uint x" "2 ^ 64"] by (simp add: uint_limb64)
  moreover have "uint x div 2 ^ 64 = uint (limb64 x 1) + 2 ^ 64 * (uint x div 2 ^ 128)"
    unfolding d(1) [symmetric] uint_limb64 mult_1_right by (rule mod_mult_div_eq [symmetric])
  moreover have "uint x div 2 ^ 128 = uint (limb64 x 2) + 2 ^ 64 * (uint x div 2 ^ 192)"
    unfolding d(2) [symmetric] uint_limb64 by (simp add: mod_mult_div_eq)
  ultimately show ?thesis
    by simp
qed

section \<open>Addition and subtraction\<close>

text \<open>One round of the loop of \<^verbatim>\<open>Add32\<close>: the sum and the next carry.\<close>

definition add_step :: "uint128 \<Rightarrow> uint128 \<Rightarrow> uint32 \<Rightarrow> uint128 \<times> uint32" where
  "add_step x y carry =
    (let sum = x + y + ucast carry
     in (sum, if carry \<noteq> 0 then (if sum > x then 0 else 1) else (if sum \<ge> x then 0 else 1)))"

definition Add32 :: "uint256 \<Rightarrow> uint256 \<Rightarrow> uint256 \<times> uint32" where
  "Add32 n1 n2 =
    (let (po0, carry0) = add_step (limb128 n1 0) (limb128 n2 0) 0;
         (po1, carry1) = add_step (limb128 n1 1) (limb128 n2 1) carry0
     in (of_limbs [po0, po1], carry1))"

definition sub_step :: "uint128 \<Rightarrow> uint128 \<Rightarrow> uint32 \<Rightarrow> uint128 \<times> uint32" where
  "sub_step x y borrow =
    (let diff = x - y - ucast borrow
     in (diff, if borrow \<noteq> 0 then (if x > y then 0 else 1) else (if x \<ge> y then 0 else 1)))"

definition Sub32 :: "uint256 \<Rightarrow> uint256 \<Rightarrow> uint256 \<times> uint32" where
  "Sub32 n1 n2 =
    (let (po0, borrow0) = sub_step (limb128 n1 0) (limb128 n2 0) 0;
         (po1, borrow1) = sub_step (limb128 n1 1) (limb128 n2 1) borrow0
     in (of_limbs [po0, po1], borrow1))"

lemma add_step_correct:
  assumes "add_step x y c = (s, c')" "c = 0 \<or> c = 1"
  shows "uint s + 2 ^ 128 * uint c' = uint x + uint y + uint c" "c' = 0 \<or> c' = 1"
proof -
  have b: "uint x < 2 ^ 128" "uint y < 2 ^ 128" "uint c \<le> 1"
    using uint_bounded [of x] uint_bounded [of y] assms(2) by auto
  have c: "uint (ucast c :: uint128) = uint c"
    using assms(2) by auto
  have s: "uint s = (uint x + uint y + uint c) mod 2 ^ 128"
    using assms(1) c by (auto simp: add_step_def Let_def uint_word_ariths mod_add_left_eq)
  have c': "c' = (if c \<noteq> 0 then (if uint s > uint x then 0 else 1) else (if uint s \<ge> uint x then 0 else 1))"
    using assms(1) by (auto simp: add_step_def Let_def word_less_def word_le_def)
  show "c' = 0 \<or> c' = 1"
    by (simp add: c')
  show "uint s + 2 ^ 128 * uint c' = uint x + uint y + uint c"
  proof (cases "uint x + uint y + uint c < 2 ^ 128")
    case True
    then have "uint s = uint x + uint y + uint c"
      using s by simp
    then show ?thesis
      using assms(2) by (auto simp: c')
  next
    case False
    have "uint s = (uint x + uint y + uint c - 2 ^ 128) mod 2 ^ 128"
      unfolding s by (rule minus_mod_self2 [symmetric])
    also have "\<dots> = uint x + uint y + uint c - 2 ^ 128"
      using b False by (intro mod_pos_pos_trivial) linarith+
    finally show ?thesis
      using assms(2) b by (auto simp: c')
  qed
qed

lemma sub_step_correct:
  assumes "sub_step x y c = (s, c')" "c = 0 \<or> c = 1"
  shows "uint s - 2 ^ 128 * uint c' = uint x - uint y - uint c" "c' = 0 \<or> c' = 1"
proof -
  have b: "uint x < 2 ^ 128" "uint y < 2 ^ 128" "0 \<le> uint x" "0 \<le> uint y" "0 \<le> uint c" "uint c \<le> 1"
    using uint_bounded [of x] uint_bounded [of y] assms(2) by auto
  have c: "uint (ucast c :: uint128) = uint c"
    using assms(2) by auto
  have s: "uint s = (uint x - uint y - uint c) mod 2 ^ 128"
    using assms(1) c by (auto simp: sub_step_def Let_def uint_word_ariths mod_diff_left_eq)
  have c': "c' = (if c \<noteq> 0 then (if uint x > uint y then 0 else 1) else (if uint x \<ge> uint y then 0 else 1))"
    using assms(1) by (auto simp: sub_step_def Let_def word_less_def word_le_def)
  show "c' = 0 \<or> c' = 1"
    by (simp add: c')
  show "uint s - 2 ^ 128 * uint c' = uint x - uint y - uint c"
  proof (cases "0 \<le> uint x - uint y - uint c")
    case True
    then have "uint s = uint x - uint y - uint c"
      unfolding s using b by (intro mod_pos_pos_trivial) linarith+
    then show ?thesis
      using assms(2) True by (auto simp: c')
  next
    case False
    have "uint s = (uint x - uint y - uint c + 2 ^ 128) mod 2 ^ 128"
      unfolding s by (rule mod_add_self2 [symmetric])
    also have "\<dots> = uint x - uint y - uint c + 2 ^ 128"
      using b False by (intro mod_pos_pos_trivial) linarith+
    finally show ?thesis
      using assms(2) False by (auto simp: c')
  qed
qed

lemma limbs2_uint: "uint (of_limbs [a, b] :: uint256) = uint a + 2 ^ 128 * uint (b :: uint128)"
  using uint_limbs [of "[a, b]", where 'a = 256] by simp

lemma word256_range:
  obtains n where "uint (w :: uint256) = n" "0 \<le> n" "n < 2 ^ 256"
  using uint_bounded [of w] by (intro that [OF refl]) simp_all

lemma word256_eqI:
  assumes "uint (w :: uint256) + 2 ^ 256 * k = z"
  shows "w = word_of_int z"
proof -
  have "word_of_int z = w + (2 ^ 256) * word_of_int k"
    unfolding assms [symmetric] of_int_add of_int_mult of_int_power of_int_numeral word_of_int_uint ..
  moreover have "(2 ^ 256 :: uint256) = 0"
    unfolding exp_eq_zero_iff by simp
  ultimately show ?thesis
    by (simp only: mult_zero_left add_0_right)
qed

lemma Add32_correct:
  shows "fst (Add32 a b) = a + b" "snd (Add32 a b) = (if uint a + uint b < 2 ^ 256 then 0 else 1)"
proof -
  obtain s0 c0 s1 c1 where s: "add_step (limb128 a 0) (limb128 b 0) 0 = (s0, c0)" "add_step (limb128 a 1) (limb128 b 1) c0 = (s1, c1)"
    by fastforce
  note s0 = add_step_correct [OF s(1)]
  note s1 = add_step_correct [OF s(2) s0(2)]
  obtain n where n: "uint (of_limbs [s0, s1] :: uint256) = n" "0 \<le> n" "n < 2 ^ 256"
    by (rule word256_range)
  have A: "Add32 a b = (of_limbs [s0, s1], c1)"
    by (simp only: Add32_def s Let_def prod.case)
  have v: "uint (of_limbs [s0, s1] :: uint256) + 2 ^ 256 * uint c1 = uint a + uint b" and c1: "c1 = 0 \<or> c1 = 1"
    using s0 s1 unfolding limbs2_uint word256_limbs128 [of a] word256_limbs128 [of b] by (auto simp: algebra_simps)
  show "fst (Add32 a b) = a + b"
    unfolding A fst_conv using word256_eqI [OF v] by simp
  show "snd (Add32 a b) = (if uint a + uint b < 2 ^ 256 then 0 else 1)"
    unfolding A snd_conv using c1 v n(2,3) unfolding n(1) by auto
qed

lemma Sub32_correct:
  shows "fst (Sub32 a b) = a - b" "snd (Sub32 a b) = (if uint b \<le> uint a then 0 else 1)"
proof -
  obtain s0 c0 s1 c1 where s: "sub_step (limb128 a 0) (limb128 b 0) 0 = (s0, c0)" "sub_step (limb128 a 1) (limb128 b 1) c0 = (s1, c1)"
    by fastforce
  note s0 = sub_step_correct [OF s(1)]
  note s1 = sub_step_correct [OF s(2) s0(2)]
  obtain n where n: "uint (of_limbs [s0, s1] :: uint256) = n" "0 \<le> n" "n < 2 ^ 256"
    by (rule word256_range)
  have A: "Sub32 a b = (of_limbs [s0, s1], c1)"
    by (simp only: Sub32_def s Let_def prod.case)
  have v: "uint (of_limbs [s0, s1] :: uint256) + 2 ^ 256 * - uint c1 = uint a - uint b" and c1: "c1 = 0 \<or> c1 = 1"
    using s0 s1 unfolding limbs2_uint word256_limbs128 [of a] word256_limbs128 [of b] by (auto simp: algebra_simps)
  show "fst (Sub32 a b) = a - b"
    unfolding A fst_conv using word256_eqI [OF v] by simp
  show "snd (Sub32 a b) = (if uint b \<le> uint a then 0 else 1)"
    unfolding A snd_conv using c1 v n(2,3) unfolding n(1) by auto
qed

section \<open>Comparisons and predicates\<close>

definition Compare32 :: "uint256 \<Rightarrow> uint256 \<Rightarrow> int" where
  "Compare32 lhs rhs =
    (if limb128 lhs 1 > limb128 rhs 1 then 1
     else if limb128 lhs 1 < limb128 rhs 1 then -1
     else if limb128 lhs 0 > limb128 rhs 0 then 1
     else if limb128 lhs 0 < limb128 rhs 0 then -1
     else 0)"

definition CompareSigned32 :: "uint256 \<Rightarrow> uint256 \<Rightarrow> int" where
  "CompareSigned32 lhs rhs =
    (if sint (limb128 lhs 1) > sint (limb128 rhs 1) then 1
     else if sint (limb128 lhs 1) < sint (limb128 rhs 1) then -1
     else if limb128 lhs 0 > limb128 rhs 0 then 1
     else if limb128 lhs 0 < limb128 rhs 0 then -1
     else 0)"

definition IsZero32 :: "uint256 \<Rightarrow> bool" where
  "IsZero32 n \<longleftrightarrow> limb64 n 0 OR limb64 n 1 OR limb64 n 2 OR limb64 n 3 = 0"

definition IsOne32 :: "uint256 \<Rightarrow> bool" where
  "IsOne32 n \<longleftrightarrow> (limb64 n 0 - 1) OR limb64 n 1 OR limb64 n 2 OR limb64 n 3 = 0"

definition IsEven :: "uint256 \<Rightarrow> bool" where
  "IsEven n \<longleftrightarrow> (ucast n :: uint8) AND 1 = 0"

lemma sint_msb: "sint (w :: 'a::len word) = uint w - 2 ^ LENGTH('a) * of_bool (bit w (LENGTH('a) - Suc 0))"
proof -
  have "Suc (LENGTH('a) - Suc 0) = LENGTH('a)"
    by simp
  then show ?thesis
    unfolding sint_uint signed_take_bit_eq_take_bit_minus by (simp add: bit_uint_iff take_bit_int_eq_self uint_bounded)
qed

lemma sint_limbs128: "sint (x :: uint256) = uint (limb128 x 0) + 2 ^ 128 * sint (limb128 x 1)"
proof -
  have "bit (limb128 x 1) 127 = bit x 255"
    by (simp add: limb128_def bit_simps)
  moreover have "sint x = uint x - 2 ^ 256 * of_bool (bit x 255)" "sint (limb128 x 1) = uint (limb128 x 1) - 2 ^ 128 * of_bool (bit (limb128 x 1) 127)"
    by (simp_all add: sint_msb)
  ultimately show ?thesis
    using word256_limbs128 [of x] by (simp add: algebra_simps)
qed

lemma lex_compare:
  fixes a0 a1 b0 b1 :: int
  assumes "0 \<le> a0" "a0 < m" "0 \<le> b0" "b0 < m"
  shows "a0 + m * a1 > b0 + m * b1 \<longleftrightarrow> a1 > b1 \<or> a1 = b1 \<and> a0 > b0"
proof (cases "a1 = b1")
  case False
  have "m * c + m \<le> m * d" if "c < d" for c d
    using mult_left_mono [of "c + 1" d m] that assms by (simp add: algebra_simps)
  from this [of a1 b1] this [of b1 a1] False show ?thesis
    using assms by linarith
qed simp

lemma Compare32_correct: "Compare32 a b = (if uint a > uint b then 1 else if uint a < uint b then -1 else 0)"
proof -
  have b: "0 \<le> uint (limb128 x i) \<and> uint (limb128 x i) < 2 ^ 128" for x :: uint256 and i
    using uint_bounded [of "limb128 x i"] by simp
  show ?thesis
    unfolding Compare32_def word_less_def word256_limbs128 [of a] word256_limbs128 [of b]
    using b [of a 0] b [of b 0] by (simp only: lex_compare) auto
qed

lemma CompareSigned32_correct: "CompareSigned32 a b = (if sint a > sint b then 1 else if sint a < sint b then -1 else 0)"
proof -
  have b: "0 \<le> uint (limb128 x i) \<and> uint (limb128 x i) < 2 ^ 128" for x :: uint256 and i
    using uint_bounded [of "limb128 x i"] by simp
  show ?thesis
    unfolding CompareSigned32_def word_less_def sint_limbs128 [of a] sint_limbs128 [of b]
    using b [of a 0] b [of b 0] by (simp only: lex_compare) auto
qed

lemma IsZero32_iff: "IsZero32 n \<longleftrightarrow> n = 0"
proof -
  have "n = 0" if "limb64 n 0 = 0" "limb64 n 1 = 0" "limb64 n 2 = 0" "limb64 n 3 = 0"
    using word256_limbs64 [of n] that by (intro word_uint_eqI) simp
  then show ?thesis
    by (auto simp: IsZero32_def or_eq_0_iff limb64_def)
qed

lemma IsOne32_iff: "IsOne32 n \<longleftrightarrow> n = 1"
proof -
  have "n = 1" if "limb64 n 0 = 1" "limb64 n 1 = 0" "limb64 n 2 = 0" "limb64 n 3 = 0"
    using word256_limbs64 [of n] that by (intro word_uint_eqI) simp
  then show ?thesis
    by (auto simp: IsOne32_def or_eq_0_iff limb64_def)
qed

lemma IsEven_iff: "IsEven n \<longleftrightarrow> even (uint n)"
proof -
  have "(ucast n :: uint8) AND 1 = 0 \<longleftrightarrow> \<not> bit (ucast n :: uint8) 0"
    by (simp add: and_one_eq bit_0 even_iff_mod_2_eq_zero)
  also have "\<dots> \<longleftrightarrow> \<not> bit (uint n) 0"
    unfolding bit_ucast_iff bit_uint_iff by simp
  finally show ?thesis
    by (simp add: IsEven_def bit_0)
qed

section \<open>Halving, signed reduction and shifting\<close>

definition Half32 :: "uint256 \<Rightarrow> uint256" where
  "Half32 n =
    (let p0 = limb128 n 0; p1 = limb128 n 1
     in of_limbs [drop_bit 1 p0 OR push_bit 127 p1, drop_bit 1 p1])"

definition HalfSigned32 :: "uint256 \<Rightarrow> uint256" where
  "HalfSigned32 n =
    (let p0 = limb128 n 0; p1 = limb128 n 1
     in of_limbs [drop_bit 1 p0 OR push_bit 127 p1, signed_drop_bit 1 p1])"

definition ReduceSigned32 :: "uint256 \<Rightarrow> uint256 \<Rightarrow> uint256 \<Rightarrow> uint256" where
  "ReduceSigned32 output n prime =
    (if (ucast (drop_bit 248 n) :: uint8) AND 0x80 \<noteq> 0 then fst (Add32 n prime)
     else if Compare32 n prime \<ge> 0 then fst (Sub32 n prime)
     else output)"

definition ShiftLeft32 :: "uint256 \<Rightarrow> nat \<Rightarrow> uint256" where
  "ShiftLeft32 n b =
    (let p0 = limb128 n 0; p1 = limb128 n 1 in
     if b = 0 then n
     else if b \<ge> 256 then 0
     else if b < 128 then of_limbs [push_bit b p0, push_bit b p1 OR drop_bit (128 - b) p0]
     else if b = 128 then of_limbs [0, p0]
     else of_limbs [0, push_bit (b - 128) p0])"

lemma bit_limbs2: "bit (of_limbs [a, b] :: uint256) i \<longleftrightarrow> (if i < 128 then bit a i else i < 256 \<and> bit (b :: uint128) (i - 128))"
  by (auto simp: bit_simps dest: bit_imp_le_length)

lemma Half32_eq: "Half32 n = drop_bit 1 n"
proof (rule bit_word_eqI)
  fix i
  assume "i < LENGTH(256)"
  then show "bit (Half32 n) i = bit (drop_bit 1 n) i"
    unfolding Half32_def Let_def bit_limbs2
    by (cases "i = 127") (auto simp: bit_simps limb128_def not_less dest: bit_imp_le_length)
qed

lemma HalfSigned32_eq: "HalfSigned32 n = signed_drop_bit 1 n"
proof (rule bit_word_eqI)
  fix i
  assume "i < LENGTH(256)"
  then show "bit (HalfSigned32 n) i = bit (signed_drop_bit 1 n) i"
    unfolding HalfSigned32_def Let_def bit_limbs2
    by (cases "i = 127") (auto simp: bit_simps limb128_def not_less)
qed

lemma sint_neg_iff: "sint (n :: uint256) < 0 \<longleftrightarrow> bit n 255"
  using uint_bounded [of n] by (auto simp: sint_msb not_less)

lemma ReduceSigned32_eq: "ReduceSigned32 n n prime = (if sint n < 0 then n + prime else if uint prime \<le> uint n then n - prime else n)"
proof -
  have "(ucast (drop_bit 248 n) :: uint8) AND 0x80 \<noteq> 0 \<longleftrightarrow> bit n 255"
    using and_exp_eq_0_iff_not_bit [of "ucast (drop_bit 248 n) :: uint8" 7] by (simp add: bit_simps)
  then show ?thesis
    by (simp add: ReduceSigned32_def sint_neg_iff Add32_correct Sub32_correct Compare32_correct)
qed

lemma ShiftLeft32_eq: "ShiftLeft32 n b = push_bit b n"
proof (rule bit_word_eqI)
  fix i
  assume "i < LENGTH(256)"
  then show "bit (ShiftLeft32 n b) i = bit (push_bit b n) i"
    unfolding ShiftLeft32_def Let_def by (auto simp: bit_limbs2 bit_simps limb128_def not_less simp del: of_limbs.simps)
qed

section \<open>Multiplication\<close>

text \<open>\<^verbatim>\<open>(uint128_t)x * y\<close> for 64-bit numbers, which is also \<^verbatim>\<open>Multiply8_8\<close>.\<close>

definition wide :: "uint64 \<Rightarrow> uint64 \<Rightarrow> uint128" where
  "wide x y = ucast x * ucast y"

text \<open>The array \<^verbatim>\<open>product\<close> of \<^verbatim>\<open>Mul32\<close> and \<^verbatim>\<open>Multiply32_32\<close>, and the pointer \<^verbatim>\<open>p\<close> that reads it in 64-bit words.\<close>

definition products :: "uint256 \<Rightarrow> uint256 \<Rightarrow> uint128 list" where
  "products n1 n2 =
    (let p1 = limb64 n1; p2 = limb64 n2 in
     [wide (p1 0) (p2 0), wide (p1 0) (p2 1), wide (p1 1) (p2 0), wide (p1 0) (p2 2), wide (p1 1) (p2 1),
     wide (p1 2) (p2 0), wide (p1 0) (p2 3), wide (p1 1) (p2 2), wide (p1 2) (p2 1), wide (p1 3) (p2 0),
     wide (p1 1) (p2 3), wide (p1 2) (p2 2), wide (p1 3) (p2 1), wide (p1 2) (p2 3), wide (p1 3) (p2 2),
     wide (p1 3) (p2 3)])"

definition words64 :: "uint128 list \<Rightarrow> nat \<Rightarrow> uint64" where
  "words64 product i = limb64 (product ! (i div 2)) (i mod 2)"

definition sum128 :: "uint64 list \<Rightarrow> uint128" where
  "sum128 ps = sum_list (map ucast ps)"

definition Mul32 :: "uint256 \<Rightarrow> uint256 \<Rightarrow> uint128 list" where
  "Mul32 n1 n2 =
    (let p = words64 (products n1 n2) in
     [sum128 [p 0],
      sum128 [p 1, p 2, p 4],
      sum128 [p 3, p 5, p 6, p 8, p 10],
      sum128 [p 7, p 9, p 11, p 12, p 14, p 16, p 18],
      sum128 [p 13, p 15, p 17, p 19, p 20, p 22, p 24],
      sum128 [p 21, p 23, p 25, p 26, p 28],
      sum128 [p 27, p 29, p 30],
      sum128 [p 31]])"

lemma schoolbook:
  fixes a0 :: int
  assumes "q0 + 2 ^ 64 * q1 = a0 * b0" "q2 + 2 ^ 64 * q3 = a0 * b1" "q4 + 2 ^ 64 * q5 = a1 * b0" "q6 + 2 ^ 64 * q7 = a0 * b2"
    "q8 + 2 ^ 64 * q9 = a1 * b1" "q10 + 2 ^ 64 * q11 = a2 * b0" "q12 + 2 ^ 64 * q13 = a0 * b3"
    "q14 + 2 ^ 64 * q15 = a1 * b2" "q16 + 2 ^ 64 * q17 = a2 * b1" "q18 + 2 ^ 64 * q19 = a3 * b0"
    "q20 + 2 ^ 64 * q21 = a1 * b3" "q22 + 2 ^ 64 * q23 = a2 * b2" "q24 + 2 ^ 64 * q25 = a3 * b1"
    "q26 + 2 ^ 64 * q27 = a2 * b3" "q28 + 2 ^ 64 * q29 = a3 * b2" "q30 + 2 ^ 64 * q31 = a3 * b3"
  shows "q0 + 2 ^ 64 * (q1 + q2 + q4) + 2 ^ 128 * (q3 + q5 + q6 + q8 + q10) +
      2 ^ 192 * (q7 + q9 + q11 + q12 + q14 + q16 + q18) + 2 ^ 256 * (q13 + q15 + q17 + q19 + q20 + q22 + q24) +
      2 ^ 320 * (q21 + q23 + q25 + q26 + q28) + 2 ^ 384 * (q27 + q29 + q30) + 2 ^ 448 * (q31) =
    (a0 + 2 ^ 64 * a1 + 2 ^ 128 * a2 + 2 ^ 192 * a3) * (b0 + 2 ^ 64 * b1 + 2 ^ 128 * b2 + 2 ^ 192 * b3)" (is "?q = _")
proof -
  have "(a0 + 2 ^ 64 * a1 + 2 ^ 128 * a2 + 2 ^ 192 * a3) * (b0 + 2 ^ 64 * b1 + 2 ^ 128 * b2 + 2 ^ 192 * b3) =
      2 ^ 0 * (a0 * b0) + 2 ^ 64 * (a0 * b1 + a1 * b0) + 2 ^ 128 * (a0 * b2 + a1 * b1 + a2 * b0) +
      2 ^ 192 * (a0 * b3 + a1 * b2 + a2 * b1 + a3 * b0) + 2 ^ 256 * (a1 * b3 + a2 * b2 + a3 * b1) +
      2 ^ 320 * (a2 * b3 + a3 * b2) + 2 ^ 384 * (a3 * b3)"
    by (simp add: algebra_simps)
  also have "\<dots> = ?q"
    unfolding assms [symmetric] by algebra
  finally show ?thesis ..
qed

lemma uint_wide: "uint (wide x y) = uint x * uint y"
proof -
  have "uint x * uint y < 2 ^ 64 * 2 ^ 64"
    using uint_bounded [of x] uint_bounded [of y] by (intro mult_strict_mono) simp_all
  then show ?thesis
    by (simp add: wide_def uint_word_ariths uint_up_ucast is_up)
qed

lemma word128_limbs64: "uint (s :: uint128) = uint (limb64 s 0) + 2 ^ 64 * uint (limb64 s 1)"
proof -
  have "uint s div 2 ^ 64 < 2 ^ 64"
    using uint_bounded [of s] by (simp add: div_less_iff_less_mult)
  then have "uint (limb64 s 1) = uint s div 2 ^ 64"
    unfolding uint_limb64 by (simp add: pos_imp_zdiv_nonneg_iff mod_pos_pos_trivial)
  then show ?thesis
    using mod_mult_div_eq [of "uint s" "2 ^ 64"] by (simp add: uint_limb64)
qed

lemma uint_sum128:
  assumes "length ps \<le> 2 ^ 64"
  shows "uint (sum128 ps) = sum_list (map uint ps)" "sum_list (map uint ps) < int (length ps) * 2 ^ 64 + 1"
proof -
  have b: "0 \<le> sum_list (map uint qs) \<and> sum_list (map uint qs) \<le> int (length qs) * (2 ^ 64 - 1)" for qs :: "uint64 list"
  proof (induction qs)
    case (Cons q qs)
    then show ?case
      using uint_bounded [of q] by (simp add: algebra_simps)
  qed simp
  have "int (length ps) * (2 ^ 64 - 1) \<le> 2 ^ 64 * (2 ^ 64 - 1)"
    using assms by (intro mult_right_mono) simp_all
  then have "sum_list (map uint ps) < 2 ^ 128"
    using b [of ps] by simp
  moreover have "sum128 ps = word_of_int (sum_list (map uint ps))"
    unfolding sum128_def by (induction ps) simp_all
  ultimately show "uint (sum128 ps) = sum_list (map uint ps)"
    using b [of ps] by (simp add: uint_word_of_int)
  show "sum_list (map uint ps) < int (length ps) * 2 ^ 64 + 1"
    using b [of ps] by (simp add: algebra_simps)
qed

lemma words64_pair: "uint (words64 P (2 * k)) + 2 ^ 64 * uint (words64 P (2 * k + 1)) = uint (P ! k)"
  unfolding word128_limbs64 [of "P ! k"] by (simp add: words64_def)

lemma nth_products: "products a b ! k = wide (limb64 a i) (limb64 b j)"
  if "(k, i, j) \<in> {(0, 0, 0), (1, 0, 1), (2, 1, 0), (3, 0, 2), (4, 1, 1), (5, 2, 0), (6, 0, 3), (7, 1, 2), (8, 2, 1), (9, 3, 0),
    (10, 1, 3), (11, 2, 2), (12, 3, 1), (13, 2, 3), (14, 3, 2), (15, 3, 3)}"
  using that by (auto simp: products_def Let_def)

lemma products_pair:
  assumes "(k, i, j) \<in> {(0, 0, 0), (1, 0, 1), (2, 1, 0), (3, 0, 2), (4, 1, 1), (5, 2, 0), (6, 0, 3), (7, 1, 2), (8, 2, 1), (9, 3, 0),
    (10, 1, 3), (11, 2, 2), (12, 3, 1), (13, 2, 3), (14, 3, 2), (15, 3, 3)}"
  shows "uint (words64 (products a b) (2 * k)) + 2 ^ 64 * uint (words64 (products a b) (2 * k + 1)) = uint (limb64 a i) * uint (limb64 b j)"
  unfolding words64_pair nth_products [OF assms] uint_wide ..

lemma products_sum:
  fixes a b :: uint256
  defines "q i \<equiv> uint (words64 (products a b) i)"
  shows "q 0 + 2 ^ 64 * (q 1 + q 2 + q 4) + 2 ^ 128 * (q 3 + q 5 + q 6 + q 8 + q 10) + 2 ^ 192 * (q 7 + q 9 + q 11 + q 12 + q 14 + q 16 + q 18) +
    2 ^ 256 * (q 13 + q 15 + q 17 + q 19 + q 20 + q 22 + q 24) + 2 ^ 320 * (q 21 + q 23 + q 25 + q 26 + q 28) + 2 ^ 384 * (q 27 + q 29 + q 30) + 2 ^ 448 * (q 31) = uint a * uint b"
proof -
  note pp = products_pair [of 0 0 0 a b] products_pair [of 1 0 1 a b] products_pair [of 2 1 0 a b] products_pair [of 3 0 2 a b]
    products_pair [of 4 1 1 a b] products_pair [of 5 2 0 a b] products_pair [of 6 0 3 a b] products_pair [of 7 1 2 a b]
    products_pair [of 8 2 1 a b] products_pair [of 9 3 0 a b] products_pair [of 10 1 3 a b] products_pair [of 11 2 2 a b]
    products_pair [of 12 3 1 a b] products_pair [of 13 2 3 a b] products_pair [of 14 3 2 a b] products_pair [of 15 3 3 a b]
  show ?thesis
    unfolding word256_limbs64 [of a] word256_limbs64 [of b] q_def using pp by (intro schoolbook) simp_all
qed

lemma sum128_less: "length ps \<le> 7 \<Longrightarrow> uint (sum128 ps) < 2 ^ 67"
  using uint_sum128 [of ps] by simp

lemma Mul32_val:
  "uint (Mul32 a b ! 0) + 2 ^ 64 * uint (Mul32 a b ! 1) + 2 ^ 128 * uint (Mul32 a b ! 2) + 2 ^ 192 * uint (Mul32 a b ! 3)
    + 2 ^ 256 * uint (Mul32 a b ! 4) + 2 ^ 320 * uint (Mul32 a b ! 5) + 2 ^ 384 * uint (Mul32 a b ! 6)
    + 2 ^ 448 * uint (Mul32 a b ! 7) = uint a * uint b"
  unfolding products_sum [symmetric] Mul32_def Let_def by (simp add: uint_sum128 add.assoc)

lemma Mul32_less: "m \<in> set (Mul32 a b) \<Longrightarrow> uint m < 2 ^ 67"
  by (auto simp: Mul32_def Let_def simp del: power_numeral intro: sum128_less)

lemma length_Mul32 [simp]: "length (Mul32 a b) = 8"
  by (simp add: Mul32_def Let_def)

text \<open>The product of 128 and 64 bits; the buffer is the 256-bit word of the four 64-bit limbs.\<close>

definition Multiply16_8 :: "uint128 \<Rightarrow> uint64 \<Rightarrow> uint256" where
  "Multiply16_8 n1 n2 =
    (let product = [wide (limb64 n1 0) n2, wide (limb64 n1 1) n2];
         p = words64 product;
         s = ucast (p 1) + product ! 1
     in of_limbs [p 0, limb64 s 0, limb64 s 1, 0])"

text \<open>\<^verbatim>\<open>*(uint128_t*)&po[i] += v\<close>\<close>

definition add128_at :: "nat \<Rightarrow> uint128 \<Rightarrow> uint64 list \<Rightarrow> uint64 list" where
  "add128_at i v po =
    (let s = of_limbs [po ! i, po ! (i + 1)] + v in po[i := limb64 s 0, i + 1 := limb64 s 1])"

definition Multiply32_32 :: "uint256 \<Rightarrow> uint256 \<Rightarrow> uint512" where
  "Multiply32_32 n1 n2 =
    (let product = products n1 n2; p = words64 product;
         s = sum128 [p 1, p 2, p 4];
         po = (replicate 8 0)[0 := p 0, 1 := limb64 s 0, 2 := limb64 s 1];
         po = add128_at 2 (sum128 [p 3, p 5, p 6, p 8, p 10]) po;
         po = add128_at 3 (sum128 [p 7, p 9, p 11, p 12, p 14, p 16, p 18]) po;
         po = add128_at 4 (sum128 [p 13, p 15, p 17, p 19, p 20, p 22, p 24]) po;
         po = add128_at 5 (sum128 [p 21, p 23, p 25, p 26, p 28]) po;
         po = add128_at 6 (sum128 [p 27, p 29] + product ! 15) po
     in of_limbs po)"


lemma Multiply16_8_correct: "uint (Multiply16_8 a b) = uint a * uint b"
proof -
  let ?P = "[wide (limb64 a 0) b, wide (limb64 a 1) b]"
  let ?s = "ucast (words64 ?P 1) + ?P ! 1"
  have e: "uint (words64 ?P 0) + 2 ^ 64 * uint (words64 ?P 1) = uint (limb64 a 0) * uint b"
    using words64_pair [of ?P 0] by (simp add: uint_wide)
  have "uint (words64 ?P 1) < 2 ^ 64"
    using uint_bounded [of "words64 ?P 1"] by simp
  moreover have "uint (limb64 a 1) * uint b \<le> (2 ^ 64 - 1) * (2 ^ 64 - 1)"
    using uint_bounded [of "limb64 a 1"] uint_bounded [of b] by (intro mult_mono) simp_all
  ultimately have "uint ?s = uint (words64 ?P 1) + uint (limb64 a 1) * uint b"
    by (simp add: uint_word_ariths uint_up_ucast is_up uint_wide)
  moreover have "uint (Multiply16_8 a b) = uint (words64 ?P 0) + 2 ^ 64 * uint ?s"
    unfolding word128_limbs64 [of ?s] Multiply16_8_def Let_def by (subst uint_limbs) simp_all
  ultimately show ?thesis
    using e unfolding word128_limbs64 [of a] by (simp add: algebra_simps)
qed

text \<open>The chain of sums that the overlapping additions of \<^verbatim>\<open>Multiply32_32\<close> leave in the buffer: each takes the upper half
  of the one before it.\<close>

definition carry_sum :: "uint128 \<Rightarrow> uint128 \<Rightarrow> uint128" where
  "carry_sum s v = ucast (limb64 s 1) + v"

lemma add128_at_carry:
  "add128_at 2 v (a # b # limb64 s 1 # 0 # ys) = a # b # limb64 (carry_sum s v) 0 # limb64 (carry_sum s v) 1 # ys"
  "add128_at 3 v (a # b # c # limb64 s 1 # 0 # ys) = a # b # c # limb64 (carry_sum s v) 0 # limb64 (carry_sum s v) 1 # ys"
  "add128_at 4 v (a # b # c # d # limb64 s 1 # 0 # ys) = a # b # c # d # limb64 (carry_sum s v) 0 # limb64 (carry_sum s v) 1 # ys"
  "add128_at 5 v (a # b # c # d # e # limb64 s 1 # 0 # ys) = a # b # c # d # e # limb64 (carry_sum s v) 0 # limb64 (carry_sum s v) 1 # ys"
  "add128_at 6 v (a # b # c # d # e # f # limb64 s 1 # 0 # ys) = a # b # c # d # e # f # limb64 (carry_sum s v) 0 # limb64 (carry_sum s v) 1 # ys"
  by (simp_all add: add128_at_def Let_def carry_sum_def numeral_eq_Suc)

lemma Multiply32_32_chain:
  fixes a b :: uint256
  defines "p \<equiv> words64 (products a b)"
  defines "s1 \<equiv> sum128 [p 1, p 2, p 4]"
  defines "s2 \<equiv> carry_sum s1 (sum128 [p 3, p 5, p 6, p 8, p 10])"
  defines "s3 \<equiv> carry_sum s2 (sum128 [p 7, p 9, p 11, p 12, p 14, p 16, p 18])"
  defines "s4 \<equiv> carry_sum s3 (sum128 [p 13, p 15, p 17, p 19, p 20, p 22, p 24])"
  defines "s5 \<equiv> carry_sum s4 (sum128 [p 21, p 23, p 25, p 26, p 28])"
  defines "s6 \<equiv> carry_sum s5 (sum128 [p 27, p 29] + products a b ! 15)"
  shows "Multiply32_32 a b =
    of_limbs [p 0, limb64 s1 0, limb64 s2 0, limb64 s3 0, limb64 s4 0, limb64 s5 0, limb64 s6 0, limb64 s6 1]"
proof -
  have l: "(replicate 8 0)[0 := p 0, 1 := limb64 s1 0, 2 := limb64 s1 1] = [p 0, limb64 s1 0, limb64 s1 1, 0, 0, 0, 0, 0]"
    by (simp add: numeral_eq_Suc)
  show ?thesis
    unfolding Multiply32_32_def Let_def p_def [symmetric] s1_def [symmetric] l add128_at_carry
    unfolding s2_def [symmetric] s3_def [symmetric] s4_def [symmetric] s5_def [symmetric] s6_def [symmetric] ..
qed

lemma uint_carry_sum:
  assumes "uint (limb64 s 1) + uint v < 2 ^ 128"
  shows "uint (carry_sum s v) = uint (limb64 s 1) + uint v"
  using assms by (simp add: carry_sum_def uint_word_ariths uint_up_ucast is_up)

lemma uint_carry_sum128:
  assumes "length ps \<le> 7"
  shows "uint (carry_sum s (sum128 ps)) = uint (limb64 s 1) + sum_list (map uint ps)"
proof -
  have "uint (limb64 s 1) < 2 ^ 64"
    using uint_bounded [of "limb64 s 1"] by simp
  then show ?thesis
    using sum128_less [OF assms] assms by (subst uint_carry_sum) (simp_all add: uint_sum128)
qed

lemma carry_chain:
  fixes q0 :: int
  assumes "l1 + 2 ^ 64 * h1 = r1" "l2 + 2 ^ 64 * h2 = h1 + r2" "l3 + 2 ^ 64 * h3 = h2 + r3" "l4 + 2 ^ 64 * h4 = h3 + r4"
    "l5 + 2 ^ 64 * h5 = h4 + r5"
  shows "q0 + 2 ^ 64 * l1 + 2 ^ 128 * l2 + 2 ^ 192 * l3 + 2 ^ 256 * l4 + 2 ^ 320 * l5 + 2 ^ 384 * (h5 + x) =
    q0 + 2 ^ 64 * r1 + 2 ^ 128 * r2 + 2 ^ 192 * r3 + 2 ^ 256 * r4 + 2 ^ 320 * r5 + 2 ^ 384 * x"
proof -
  have r: "r1 = l1 + 2 ^ 64 * h1" "r2 = l2 + 2 ^ 64 * h2 - h1" "r3 = l3 + 2 ^ 64 * h3 - h2" "r4 = l4 + 2 ^ 64 * h4 - h3"
    "r5 = l5 + 2 ^ 64 * h5 - h4"
    using assms by simp_all
  show ?thesis
    unfolding r by algebra
qed

lemma Multiply32_32_correct: "uint (Multiply32_32 a b) = uint a * uint b"
proof -
  let ?p = "words64 (products a b)"
  let ?s1 = "sum128 [?p 1, ?p 2, ?p 4]"
  let ?s2 = "carry_sum ?s1 (sum128 [?p 3, ?p 5, ?p 6, ?p 8, ?p 10])"
  let ?s3 = "carry_sum ?s2 (sum128 [?p 7, ?p 9, ?p 11, ?p 12, ?p 14, ?p 16, ?p 18])"
  let ?s4 = "carry_sum ?s3 (sum128 [?p 13, ?p 15, ?p 17, ?p 19, ?p 20, ?p 22, ?p 24])"
  let ?s5 = "carry_sum ?s4 (sum128 [?p 21, ?p 23, ?p 25, ?p 26, ?p 28])"
  let ?v = "sum128 [?p 27, ?p 29] + products a b ! 15"
  let ?s6 = "carry_sum ?s5 ?v"
  obtain s1 s2 s3 s4 s5 s6 where s: "s1 = ?s1" "s2 = ?s2" "s3 = ?s3" "s4 = ?s4" "s5 = ?s5" "s6 = ?s6"
    by blast
  obtain q where q: "q = (\<lambda>i. uint (?p i))"
    by blast
  have u: "uint s1 = q 1 + q 2 + q 4" "uint s2 = uint (limb64 s1 1) + (q 3 + q 5 + q 6 + q 8 + q 10)"
    "uint s3 = uint (limb64 s2 1) + (q 7 + q 9 + q 11 + q 12 + q 14 + q 16 + q 18)"
    "uint s4 = uint (limb64 s3 1) + (q 13 + q 15 + q 17 + q 19 + q 20 + q 22 + q 24)"
    "uint s5 = uint (limb64 s4 1) + (q 21 + q 23 + q 25 + q 26 + q 28)"
    unfolding s q by (simp_all add: uint_sum128 uint_carry_sum128)
  note lo = word128_limbs64 [of s1] word128_limbs64 [of s2] word128_limbs64 [of s3] word128_limbs64 [of s4] word128_limbs64 [of s5]
  let ?lo = "\<lambda>s. uint (limb64 s 0)"
  have v: "q 30 + 2 ^ 64 * q 31 = uint (products a b ! 15)"
    using words64_pair [of "products a b" 15] by (simp add: q)
  have exact: "q 0 + 2 ^ 64 * ?lo s1 + 2 ^ 128 * ?lo s2 + 2 ^ 192 * ?lo s3 + 2 ^ 256 * ?lo s4 + 2 ^ 320 * ?lo s5
      + 2 ^ 384 * (uint (limb64 s5 1) + (q 27 + q 29 + uint (products a b ! 15))) = uint a * uint b"
    unfolding products_sum [of a b, symmetric] carry_chain [OF u [unfolded lo]] v [symmetric] unfolding q by simp
  let ?k = "uint (limb64 s5 1) + (q 27 + q 29 + uint (products a b ! 15))"
  have pos: "0 \<le> q i" for i
    by (simp add: q)
  have "0 \<le> q 0 + 2 ^ 64 * ?lo s1 + 2 ^ 128 * ?lo s2 + 2 ^ 192 * ?lo s3 + 2 ^ 256 * ?lo s4 + 2 ^ 320 * ?lo s5"
    using pos by (intro add_nonneg_nonneg mult_nonneg_nonneg) simp_all
  then have "2 ^ 384 * ?k \<le> uint a * uint b"
    unfolding exact [symmetric] by (rule le_add_same_cancel2 [THEN iffD2])
  also have "\<dots> < 2 ^ 256 * 2 ^ 256"
    using uint_bounded [of a] uint_bounded [of b] by (intro mult_strict_mono) simp_all
  finally have k: "?k < 2 ^ 128"
    by simp
  have "uint ?v = q 27 + q 29 + uint (products a b ! 15)"
  proof -
    have "0 \<le> uint (limb64 s5 1)" "0 \<le> q 27 + q 29 + uint (products a b ! 15)"
      using pos by simp_all
    then have "(q 27 + q 29 + uint (products a b ! 15)) mod 2 ^ 128 = q 27 + q 29 + uint (products a b ! 15)"
      using k by (intro mod_pos_pos_trivial) linarith+
    then show ?thesis
      by (simp add: uint_word_ariths uint_sum128 q)
  qed
  then have "uint s6 = ?k"
    using k unfolding s(6) s(5) [symmetric] by (subst uint_carry_sum) simp_all
  then have "?lo s6 + 2 ^ 64 * uint (limb64 s6 1) = ?k"
    using word128_limbs64 [of s6] by simp
  moreover have "Multiply32_32 a b =
      of_limbs [?p 0, limb64 s1 0, limb64 s2 0, limb64 s3 0, limb64 s4 0, limb64 s5 0, limb64 s6 0, limb64 s6 1]"
    unfolding s by (rule Multiply32_32_chain)
  ultimately show ?thesis
    unfolding exact [symmetric] by (simp add: uint_limbs q del: of_limbs.simps)
qed

end
