(* ===== verification/Fp25519.thy ===== *)
theory Fp25519
  imports Base25519
begin

text \<open>
  The field of the curve: \<^verbatim>\<open>src/crypto/curve25519/fp25519.cpp\<close>. An object of \<^verbatim>\<open>CFP25519\<close> is its member \<^verbatim>\<open>value\<close>. The arithmetic of
  the class on four 64-bit limbs is shown to be the arithmetic of the integers modulo the prime
  \<open>2 ^ 255 - 19\<close>, the ring \<open>gf\<close>: sums, differences, products with their lazy reduction, the binary extended
  Euclidean algorithm, windowed powers and square roots.
\<close>

unbundle bit_operations_syntax

section \<open>The ring\<close>

type_synonym gf = "57896044618658097711785492504343953926634992332820282019728792003956564819949"

abbreviation p25519 :: int where "p25519 \<equiv> 2 ^ 255 - 19"

lemma card_gf: "int CARD(gf) = p25519"
  by simp

lemma of_int_bit1_eq: "(of_int a :: 'n::finite bit1) = of_int b \<longleftrightarrow> a mod int CARD('n bit1) = b mod int CARD('n bit1)"
  unfolding bit1.of_int_eq by (metis bit1.Rep_Abs_mod)

lemma of_int_gf_eq: "(of_int a :: gf) = of_int b \<longleftrightarrow> a mod p25519 = b mod p25519"
  unfolding of_int_bit1_eq card_gf ..

lemma gf_mod [simp]: "(of_int (a mod p25519) :: gf) = of_int a"
  by (simp only: of_int_gf_eq mod_mod_trivial)

type_synonym CFP25519 = uint256

definition fp_val :: "CFP25519 \<Rightarrow> gf" where
  "fp_val a = of_int (uint a)"

definition fp_ok :: "CFP25519 \<Rightarrow> bool" where
  "fp_ok a \<longleftrightarrow> uint a < p25519"

lemma fp_val_inject: "fp_ok a \<Longrightarrow> fp_ok b \<Longrightarrow> fp_val a = fp_val b \<longleftrightarrow> a = b"
  unfolding fp_ok_def fp_val_def of_int_gf_eq by (simp add: mod_pos_pos_trivial word_uint_eq_iff)

section \<open>Reduction\<close>

definition fp_prime :: uint256 where
  "fp_prime = of_limbs [0xFFFFFFFFFFFFFFED, 0xFFFFFFFFFFFFFFFF, 0xFFFFFFFFFFFFFFFF, 0x7FFFFFFFFFFFFFFF :: uint64]"

definition halfPrime :: uint256 where
  "halfPrime = of_limbs [0xFFFFFFFFFFFFFFF6, 0xFFFFFFFFFFFFFFFF, 0xFFFFFFFFFFFFFFFF, 0x3FFFFFFFFFFFFFFF :: uint64]"

definition minusOne :: uint256 where
  "minusOne = of_limbs [0xFFFFFFFFFFFFFFEC, 0xFFFFFFFFFFFFFFFF, 0xFFFFFFFFFFFFFFFF, 0x7FFFFFFFFFFFFFFF :: uint64]"

lemma uint_fp_prime: "uint fp_prime = p25519" and uint_halfPrime: "uint halfPrime = 2 ^ 254 - 10"
  and uint_minusOne: "uint minusOne = 2 ^ 255 - 20"
  unfolding fp_prime_def halfPrime_def minusOne_def by (subst uint_limbs; simp)+

function fp_Reduce :: "uint256 \<Rightarrow> uint256" where
  "fp_Reduce value = (if Compare32 value fp_prime \<ge> 0 then fp_Reduce (fst (Sub32 value fp_prime)) else value)"
  by auto

lemma sub_prime: "p25519 \<le> uint v \<Longrightarrow> uint (v - fp_prime) = uint v - p25519"
  by (simp add: uint_sub_if' uint_fp_prime)

termination fp_Reduce
proof (relation "measure unat")
  fix v
  assume "0 \<le> Compare32 v fp_prime"
  then have "p25519 \<le> uint v"
    by (simp add: Compare32_correct uint_fp_prime split: if_splits)
  then have "v - fp_prime < v"
    by (simp add: word_less_def sub_prime)
  then show "(fst (Sub32 v fp_prime), v) \<in> measure unat"
    by (simp add: Sub32_correct unat_mono)
qed simp

declare fp_Reduce.simps [simp del]

lemma fp_Reduce_correct: "uint (fp_Reduce v) = uint v mod p25519"
proof (induction v rule: fp_Reduce.induct)
  case (1 v)
  show ?case
  proof (cases "p25519 \<le> uint v")
    case True
    then show ?thesis
      using 1 by (subst fp_Reduce.simps) (simp add: Compare32_correct Sub32_correct uint_fp_prime sub_prime)
  next
    case False
    then show ?thesis
      by (subst fp_Reduce.simps) (simp add: Compare32_correct uint_fp_prime mod_pos_pos_trivial)
  qed
qed

text \<open>\<^verbatim>\<open>Range\<close> folds the bits from 255 on, which are worth 19 each time, back into the value until there are none. The
  carry is a 32-bit number; the sum that updates it is computed with 64 bits.\<close>

definition range_carry :: "uint32 \<Rightarrow> uint256 \<Rightarrow> uint32" where
  "range_carry carry value = ucast ((ucast (push_bit 1 carry) + drop_bit 63 (limb64 value 3)) * 19 :: uint64)"

primrec range_add :: "uint64 list \<Rightarrow> uint32 \<Rightarrow> uint64 list \<times> uint32" where
  "range_add [] carry = ([], carry)"
| "range_add (v # vs) carry =
    (let sum = v + ucast carry;
         (ws, c) = range_add vs (if sum \<ge> v then 0 else 1)
     in (sum # ws, c))"

definition limbs64 :: "uint256 \<Rightarrow> uint64 list" where
  "limbs64 value = [limb64 value 0, limb64 value 1, limb64 value 2, limb64 value 3]"

definition clear_top :: "uint256 \<Rightarrow> uint64 list" where
  "clear_top value = (limbs64 value)[3 := limb64 value 3 AND 0x7FFFFFFFFFFFFFFF]"

lemma range_add_correct:
  "range_add vs c = (ws, c') \<Longrightarrow>
    length ws = length vs \<and> limbs_val ws + 2 ^ (64 * length vs) * uint c' = limbs_val vs + uint c"
proof (induction vs arbitrary: c ws c')
  case (Cons v vs)
  let ?s = "v + ucast c :: uint64" and ?c = "if v + ucast c \<ge> v then 0 else 1 :: uint32"
  obtain ws' where ws: "range_add vs ?c = (ws', c')" "ws = ?s # ws'"
    using Cons.prems by (auto simp: Let_def split: prod.splits)
  have u: "uint (ucast c :: uint64) = uint c" "uint c < 2 ^ 32" "uint v < 2 ^ 64"
    using uint_bounded [of c] uint_bounded [of v] by (simp_all add: uint_up_ucast is_up)
  have "uint ?s + 2 ^ 64 * uint ?c = uint v + uint c"
    using u by (auto simp: word_le_def uint_plus_if')
  then show ?case
    using Cons.IH [OF ws(1)] ws(2) by (simp add: power_add algebra_simps)
qed simp

lemma limbs_val_limbs64: "limbs_val (limbs64 v) = uint v"
  unfolding word256_limbs64 [of v] by (simp add: limbs64_def)

lemma uint_limb3: "uint (limb64 (v :: uint256) 3) = uint v div 2 ^ 192"
proof -
  have "uint v div 2 ^ 192 < 2 ^ 64"
    using uint_bounded [of v] by (simp add: div_less_iff_less_mult)
  then show ?thesis
    unfolding uint_limb64 by (simp add: pos_imp_zdiv_nonneg_iff mod_pos_pos_trivial)
qed

lemma limbs_val_mask_top: "limbs_val ((limbs64 v)[3 := limb64 v 3 AND mask k]) = uint v mod 2 ^ (192 + k)"
proof -
  have m: "uint (limb64 v 3 AND mask k) = uint v div 2 ^ 192 mod 2 ^ k"
    by (simp only: take_bit_eq_mask [symmetric] unsigned_take_bit_eq uint_limb3) (simp only: take_bit_eq_mod)
  have "limbs_val ((limbs64 v)[3 := limb64 v 3 AND mask k]) = uint v - 2 ^ 192 * (uint v div 2 ^ 192) + 2 ^ 192 * (uint v div 2 ^ 192 mod 2 ^ k)"
    using word256_limbs64 [of v] by (simp add: limbs64_def m uint_limb3)
  also have "\<dots> = uint v mod (2 ^ 192 * 2 ^ k)"
    by (subst zmod_zmult2_eq) (simp_all add: minus_mult_div_eq_mod)
  finally show ?thesis
    by (simp only: power_add)
qed

lemma limbs_val_clear_top: "limbs_val (clear_top v) = uint v mod 2 ^ 255"
proof -
  have "(0x7FFFFFFFFFFFFFFF :: uint64) = mask 63"
    by (simp add: mask_eq_exp_minus_1)
  then show ?thesis
    using limbs_val_mask_top [of v 63] by (simp add: clear_top_def)
qed

lemma clear_top_carry: "uint (drop_bit 63 (limb64 v 3)) = uint (v :: uint256) div 2 ^ 255"
proof -
  have "uint (drop_bit 63 (limb64 v 3)) = uint v div 2 ^ 192 div 2 ^ 63"
    by (simp add: drop_bit_eq_div uint_div uint_limb3)
  then show ?thesis
    by (simp add: zdiv_zmult2_eq [symmetric])
qed

function fp_Range :: "uint32 \<Rightarrow> uint256 \<Rightarrow> uint256" where
  "fp_Range carry value =
    (let carry' = range_carry carry value in
     if carry' \<noteq> 0
     then let (vs, c) = range_add (clear_top value) carry' in fp_Range c (of_limbs vs)
     else fp_Reduce value)"
  by pat_completeness auto

text \<open>The number that carry and value stand for, and one pass of the loop over it.\<close>

abbreviation range_val :: "uint32 \<Rightarrow> uint256 \<Rightarrow> int" where
  "range_val carry value \<equiv> uint value + 2 ^ 256 * uint carry"

lemma range_pass:
  assumes "range_add (clear_top v) c = (vs, c')"
  shows "range_val c' (of_limbs vs) = uint v mod 2 ^ 255 + uint c"
proof -
  have "length vs = 4" "limbs_val vs + 2 ^ (64 * 4) * uint c' = uint v mod 2 ^ 255 + uint c"
    using range_add_correct [OF assms] by (simp_all add: limbs_val_clear_top [unfolded clear_top_def limbs64_def, simplified] clear_top_def limbs64_def)
  then show ?thesis
    by (simp add: uint_limbs)
qed

lemma range_carry_val:
  assumes "uint c < 2 ^ 20"
  shows "uint (range_carry c v) = 19 * (range_val c v div 2 ^ 255)"
proof -
  let ?t = "uint v div 2 ^ 255"
  have t: "0 \<le> ?t" "?t \<le> 1"
  proof -
    have "?t < 2"
      using uint_bounded [of v] by (simp add: div_less_iff_less_mult)
    then show "0 \<le> ?t" "?t \<le> 1"
      by (simp_all add: pos_imp_zdiv_nonneg_iff)
  qed
  have p: "uint (c * 2) = 2 * uint c"
    using assms by (simp add: uint_word_ariths mult.commute)
  have u: "uint (ucast (push_bit 1 c) + drop_bit 63 (limb64 v 3) :: uint64) = 2 * uint c + ?t"
    using assms t by (subst uint_plus_if') (simp add: uint_up_ucast is_up p clear_top_carry)
  have "uint ((ucast (push_bit 1 c) + drop_bit 63 (limb64 v 3)) * 19 :: uint64) = 19 * (2 * uint c + ?t)"
  proof -
    have "uint (s * 19) = 19 * uint s" if "uint s < 2 ^ 40" for s :: uint64
      using that by (simp add: uint_word_ariths mult.commute)
    moreover have "2 * uint c + ?t < 2 ^ 40"
      using assms t by simp
    ultimately show ?thesis
      unfolding u [symmetric] .
  qed
  moreover have "range_val c v div 2 ^ 255 = 2 * uint c + ?t"
    by simp
  ultimately show ?thesis
    using assms t unfolding range_carry_def by (simp add: unsigned_ucast_eq take_bit_eq_mod)
qed

lemma range_val_decreases:
  assumes "range_carry c v \<noteq> 0" "range_add (clear_top v) (range_carry c v) = (vs, c')"
  shows "range_val c' (of_limbs vs) < range_val c v"
proof (cases "c = 0")
  case True
  have "uint (range_carry c v) = 19 * (uint v div 2 ^ 255)"
    using range_carry_val [of c v] True by simp
  moreover from this have "0 < uint v div 2 ^ 255"
    using assms(1) pos_imp_zdiv_nonneg_iff [of "2 ^ 255" "uint v"] by (auto simp: word_uint_eq_iff order_less_le)
  moreover have "r + 19 * q < v" if "0 < q" "2 ^ 255 * q + r = v" for q r v :: int
    using that by simp
  from this [OF _ mult_div_mod_eq] have "0 < uint v div 2 ^ 255 \<Longrightarrow> uint v mod 2 ^ 255 + 19 * (uint v div 2 ^ 255) < uint v" .
  ultimately show ?thesis
    unfolding range_pass [OF assms(2)] using True by simp
next
  case False
  then have "1 \<le> uint c"
    using unsigned_eq_0_iff [of c] uint_ge_0 [of c] by (simp only: order_le_less int_one_le_iff_zero_less) auto
  moreover have lt: "r + k < w + 2 ^ 256 * d" if "1 \<le> d" "r < 2 ^ 255" "k < 2 ^ 32" "0 \<le> w" for r k w d :: int
    using that by simp
  ultimately show ?thesis
    unfolding range_pass [OF assms(2)] using uint_bounded [of "range_carry c v"] by (intro lt) simp_all
qed

termination fp_Range
proof (relation "measure (\<lambda>(c, v). nat (range_val c v))")
  fix carry v x y vs c
  assume "x = range_carry carry v" "x \<noteq> 0" "y = range_add (clear_top v) x" "(vs, c) = y"
  then have "range_val c (of_limbs vs) < range_val carry v"
    using range_val_decreases [of carry v vs c] by simp
  then show "((c, of_limbs vs), (carry, v)) \<in> measure (\<lambda>(c, v). nat (range_val c v))"
    by (simp only: in_measure prod.case nat_less_eq_zless add_nonneg_nonneg mult_nonneg_nonneg uint_ge_0 zero_le_power zero_le_numeral)
qed auto

declare fp_Range.simps [simp del]

lemma fold_mod: "(2 ^ 255 * q + r) mod p25519 = (r + 19 * q) mod p25519"
proof -
  have "(2 ^ 255 * q + r) = (r + 19 * q) + q * p25519"
    by (simp add: algebra_simps)
  then show ?thesis
    by (simp only: mod_mult_self1)
qed

lemma fp_Range_correct: "uint c < 2 ^ 20 \<Longrightarrow> uint (fp_Range c v) = range_val c v mod p25519"
proof (induction c v rule: fp_Range.induct)
  case (1 c v)
  obtain vs c' where a: "range_add (clear_top v) (range_carry c v) = (vs, c')"
    by fastforce
  have d: "range_val c v div 2 ^ 255 = 2 * uint c + uint v div 2 ^ 255"
    by simp
  have m: "range_val c v mod 2 ^ 255 = uint v mod 2 ^ 255"
    using mod_mult_self2 [of "uint v" "2 ^ 255" "2 * uint c"] by simp
  have e: "range_val c v mod p25519 = (uint v mod 2 ^ 255 + uint (range_carry c v)) mod p25519"
    using fold_mod [of "range_val c v div 2 ^ 255" "range_val c v mod 2 ^ 255"] unfolding range_carry_val [OF 1(2)] m
    by (simp only: mult_div_mod_eq m [symmetric])
  show ?case
  proof (cases "range_carry c v = 0")
    case True
    then have "2 * uint c + uint v div 2 ^ 255 = 0"
      using range_carry_val [OF 1(2), of v] d by simp
    moreover have "0 \<le> uint v div 2 ^ 255" "0 \<le> uint c"
      by (simp_all add: pos_imp_zdiv_nonneg_iff)
    ultimately have "uint v div 2 ^ 255 = 0"
      by linarith
    then have "uint v mod 2 ^ 255 = uint v"
      using mult_div_mod_eq [of "2 ^ 255" "uint v"] by (simp only: mult_zero_right add_0_left)
    with True e show ?thesis
      by (subst fp_Range.simps) (simp add: fp_Reduce_correct)
  next
    case False
    have r: "range_val c' (of_limbs vs) = uint v mod 2 ^ 255 + uint (range_carry c v)"
      by (rule range_pass [OF a])
    have "d < 2 ^ 20" if "w + 2 ^ 256 * d = m + k" "m < 2 ^ 255" "k < 2 ^ 32" "0 \<le> w" for w d m k :: int
      using that by simp
    from this [OF r] have "uint c' < 2 ^ 20"
      using uint_bounded [of "range_carry c v"] by simp
    from "1.IH" [OF refl False a [symmetric] refl this] show ?thesis
      unfolding r e using False a by (subst fp_Range.simps) simp
  qed
qed

section \<open>Ring operations\<close>

definition fp_u64 :: "uint64 \<Rightarrow> CFP25519" where
  "fp_u64 u64 = ucast u64"

definition fp_bytes :: "uint256 \<Rightarrow> CFP25519" where
  "fp_bytes md32 = fp_Reduce (of_limbs (clear_top md32))"

definition fp_Pack :: "CFP25519 \<Rightarrow> uint256" where
  "fp_Pack value =
    (if limb64 value 3 = 0x7FFFFFFFFFFFFFFF \<and> limb64 value 2 = 0xFFFFFFFFFFFFFFFF \<and> limb64 value 1 = 0xFFFFFFFFFFFFFFFF
       \<and> limb64 value 0 \<ge> 0xFFFFFFFFFFFFFFED
     then of_limbs [limb64 value 0 - 0xFFFFFFFFFFFFFFED, 0, 0, 0] else value)"

definition fp_IsZero :: "CFP25519 \<Rightarrow> bool" where
  "fp_IsZero value \<longleftrightarrow> IsZero32 value"

definition fp_Parity :: "CFP25519 \<Rightarrow> uint8" where
  "fp_Parity value =
    (let over = (limb64 value 3 = limb64 fp_prime 3 \<and> limb64 value 2 = limb64 fp_prime 2
                 \<and> limb64 value 1 = limb64 fp_prime 1 \<and> limb64 value 0 \<ge> limb64 fp_prime 0)
     in ucast (limb64 value 0 XOR of_bool over) AND 1)"

definition fp_add :: "CFP25519 \<Rightarrow> CFP25519 \<Rightarrow> CFP25519" where
  "fp_add a b = fp_Reduce (fst (Add32 a b))"

definition fp_sub :: "CFP25519 \<Rightarrow> CFP25519 \<Rightarrow> CFP25519" where
  "fp_sub a b =
    (let (value, borrow) = Sub32 a b
     in if borrow > 0 then fst (Add32 value fp_prime) else value)"

text \<open>The loop of \<^verbatim>\<open>operator*=\<close>, which adds 38 times the upper half of the product to the lower half.\<close>

fun mul_fold :: "uint128 list \<Rightarrow> uint128 list \<Rightarrow> uint64 \<Rightarrow> uint64 list \<times> uint64" where
  "mul_fold (l # ls) (h # hs) carry =
    (let m = l + (ucast carry + h * 38);
         (vs, c) = mul_fold ls hs (limb64 m 1)
     in (limb64 m 0 # vs, c))"
| "mul_fold _ _ carry = ([], carry)"

definition fp_mul :: "CFP25519 \<Rightarrow> CFP25519 \<Rightarrow> CFP25519" where
  "fp_mul a b =
    (let m = Mul32 a b;
         (vs, carry) = mul_fold (take 4 m) (drop 4 m) 0
     in fp_Range (ucast carry) (of_limbs vs))"

definition fp_Square :: "CFP25519 \<Rightarrow> CFP25519" where
  "fp_Square a = fp_mul a a"

definition fp_neg :: "CFP25519 \<Rightarrow> CFP25519" where
  "fp_neg a = fp_sub 0 a"

definition fp_eq :: "CFP25519 \<Rightarrow> CFP25519 \<Rightarrow> bool" where
  "fp_eq a b \<longleftrightarrow> Compare32 a b = 0"

lemma mul_step:
  assumes "uint l < 2 ^ 67" "uint h < 2 ^ 67" "uint (c :: uint64) < 2 ^ 10"
  shows "uint (l + (ucast c + h * 38) :: uint128) = uint l + uint c + 38 * uint h" "uint (limb64 (l + (ucast c + h * 38) :: uint128) 1) < 2 ^ 10"
proof -
  have h: "uint (h * 38) = 38 * uint h"
    using assms(2) by (simp add: uint_word_ariths mult.commute)
  have "uint (ucast c + h * 38 :: uint128) = uint c + 38 * uint h"
    using assms by (subst uint_plus_if') (simp add: uint_up_ucast is_up h)
  then show u: "uint (l + (ucast c + h * 38) :: uint128) = uint l + uint c + 38 * uint h"
    using assms by (subst uint_plus_if') simp
  have "uint (l + (ucast c + h * 38) :: uint128) < 2 ^ 74"
    using assms unfolding u by simp
  then have "uint (l + (ucast c + h * 38) :: uint128) div 2 ^ 64 < 2 ^ 10"
    by (simp add: div_less_iff_less_mult)
  then show "uint (limb64 (l + (ucast c + h * 38) :: uint128) 1) < 2 ^ 10"
    unfolding uint_limb64 by (simp add: mod_pos_pos_trivial pos_imp_zdiv_nonneg_iff)
qed

primrec wide_val :: "uint128 list \<Rightarrow> int" where
  "wide_val [] = 0"
| "wide_val (m # ms) = uint m + 2 ^ 64 * wide_val ms"

lemma mul_fold_correct:
  assumes "\<forall>x \<in> set ls \<union> set hs. uint x < 2 ^ 67" "length ls = length hs" "uint c < 2 ^ 10"
    and "mul_fold ls hs c = (vs, c')"
  shows "length vs = length ls \<and> uint c' < 2 ^ 10
    \<and> limbs_val vs + 2 ^ (64 * length ls) * uint c' = uint c + wide_val ls + 38 * wide_val hs"
  using assms
proof (induction ls hs c arbitrary: vs c' rule: mul_fold.induct)
  case (1 l ls h hs c)
  let ?m = "l + (ucast c + h * 38)"
  obtain ws where ws: "mul_fold ls hs (limb64 ?m 1) = (ws, c')" "vs = limb64 ?m 0 # ws"
    using "1.prems"(4) by (auto simp: Let_def split: prod.splits)
  have m: "uint ?m = uint l + uint c + 38 * uint h" "uint (limb64 ?m 1) < 2 ^ 10"
    using mul_step [of l h c] "1.prems" by simp_all
  have "length ws = length ls \<and> uint c' < 2 ^ 10
      \<and> limbs_val ws + 2 ^ (64 * length ls) * uint c' = uint (limb64 ?m 1) + wide_val ls + 38 * wide_val hs"
    using "1.prems" m(2) ws(1) by (intro "1.IH" [OF refl]) simp_all
  then show ?case
    using m(1) word128_limbs64 [of ?m] by (simp add: ws(2) power_add algebra_simps)
qed auto

lemma Mul32_halves: "wide_val (take 4 (Mul32 a b)) + 2 ^ 256 * wide_val (drop 4 (Mul32 a b)) = uint a * uint b"
proof -
  obtain m0 m1 m2 m3 m4 m5 m6 m7 where "Mul32 a b = [m0, m1, m2, m3, m4, m5, m6, m7]"
    unfolding Mul32_def Let_def by blast
  then show ?thesis
    unfolding Mul32_val [of a b, symmetric] by simp
qed

lemma fp_mul_correct: "uint (fp_mul a b) = uint a * uint b mod p25519"
proof -
  obtain vs c where f: "mul_fold (take 4 (Mul32 a b)) (drop 4 (Mul32 a b)) 0 = (vs, c)"
    by fastforce
  have v: "length vs = 4" "uint c < 2 ^ 10"
    "limbs_val vs + 2 ^ 256 * uint c = wide_val (take 4 (Mul32 a b)) + 38 * wide_val (drop 4 (Mul32 a b))"
    using mul_fold_correct [OF _ _ _ f] Mul32_less [of _ a b] by (auto dest: in_set_takeD in_set_dropD)
  have c: "uint (ucast c :: uint32) = uint c"
    using v(2) by (simp add: unsigned_ucast_eq take_bit_int_eq_self)
  have "uint (fp_mul a b) = range_val (ucast c) (of_limbs vs) mod p25519"
    using v(2) by (simp add: fp_mul_def f fp_Range_correct c)
  also have "\<dots> = (wide_val (take 4 (Mul32 a b)) + 38 * wide_val (drop 4 (Mul32 a b))) mod p25519"
  proof -
    have "uint (of_limbs vs :: uint256) = limbs_val vs"
      using v(1) by (simp add: uint_limbs)
    then show ?thesis
      by (simp only: c v(3))
  qed
  also have "\<dots> = uint a * uint b mod p25519"
  proof -
    have "lo + 2 ^ 256 * hi = lo + 38 * hi + 2 * hi * p25519" for lo hi :: int
      by (simp add: algebra_simps)
    then show ?thesis
      unfolding Mul32_halves [symmetric] by (simp only: mod_mult_self1)
  qed
  finally show ?thesis .
qed

lemma fp_val_mod: "fp_val a = of_int (uint a mod p25519)"
  by (simp only: fp_val_def gf_mod)

lemma fp_ok_mod: "uint a = k mod p25519 \<Longrightarrow> fp_ok a"
  by (simp add: fp_ok_def)

lemma fp_mul_val: "fp_val (fp_mul a b) = fp_val a * fp_val b" and fp_mul_ok: "fp_ok (fp_mul a b)"
proof -
  show "fp_val (fp_mul a b) = fp_val a * fp_val b"
    unfolding fp_val_def fp_mul_correct gf_mod by simp
qed (rule fp_ok_mod [OF fp_mul_correct])

lemma fp_add_correct: "fp_ok a \<Longrightarrow> fp_ok b \<Longrightarrow> uint (fp_add a b) = (uint a + uint b) mod p25519"
  unfolding fp_add_def fp_Reduce_correct Add32_correct fp_ok_def by (simp add: uint_plus_if')

lemma fp_sub_correct:
  assumes "fp_ok a" "fp_ok b"
  shows "uint (fp_sub a b) = (uint a - uint b) mod p25519"
proof (cases "uint b \<le> uint a")
  case True
  then have "fp_sub a b = a - b" "uint (a - b) = uint a - uint b"
    by (simp_all add: fp_sub_def Sub32_correct split_beta uint_sub_if')
  moreover have m: "(x - y) mod p25519 = x - y" if "y \<le> x" "x < p25519" "0 \<le> y" for x y :: int
    using that by (intro mod_pos_pos_trivial) simp_all
  ultimately show ?thesis
    using m [OF True] assms by (simp add: fp_ok_def)
next
  case False
  then have "fp_sub a b = (a - b) + fp_prime"
    by (simp add: fp_sub_def Sub32_correct Add32_correct split_beta)
  moreover have "uint (a - b) = uint a - uint b + 2 ^ 256"
    using False by (simp add: uint_sub_if')
  moreover have m: "(x - y) mod p25519 = x - y + p25519" "x - y + p25519 < 2 ^ 256" "0 \<le> x - y + p25519"
    if "x < y" "y < p25519" "0 \<le> x" for x y :: int
  proof -
    have "(x - y) mod p25519 = (x - y + p25519) mod p25519"
      by (rule mod_add_self2 [symmetric])
    also have "\<dots> = x - y + p25519"
      using that by (intro mod_pos_pos_trivial) simp_all
    finally show "(x - y) mod p25519 = x - y + p25519" .
  qed (use that in simp_all)
  ultimately show ?thesis
    using m [of "uint a" "uint b"] False assms by (simp add: fp_ok_def uint_plus_if' uint_fp_prime)
qed

lemma fp_add_val: "fp_ok a \<Longrightarrow> fp_ok b \<Longrightarrow> fp_val (fp_add a b) = fp_val a + fp_val b"
  unfolding fp_val_def by (simp only: fp_add_correct gf_mod of_int_add)

lemma fp_sub_val: "fp_ok a \<Longrightarrow> fp_ok b \<Longrightarrow> fp_val (fp_sub a b) = fp_val a - fp_val b"
  unfolding fp_val_def by (simp only: fp_sub_correct gf_mod of_int_diff)

lemma fp_ok_0 [simp]: "fp_ok 0" and fp_ok_1 [simp]: "fp_ok 1" and fp_val_0 [simp]: "fp_val 0 = 0" and fp_val_1 [simp]: "fp_val 1 = 1"
  by (simp_all add: fp_ok_def fp_val_def)

lemma fp_eq_iff: "fp_eq a b \<longleftrightarrow> a = b"
  by (simp add: fp_eq_def Compare32_correct word_uint_eq_iff)

lemma fp_bytes_correct: "uint (fp_bytes m) = uint m mod 2 ^ 255 mod p25519"
proof -
  have "uint (of_limbs (clear_top m) :: uint256) = uint m mod 2 ^ 255"
    using limbs_val_clear_top [of m] by (subst uint_limbs) (simp_all add: clear_top_def limbs64_def)
  then show ?thesis
    by (simp only: fp_bytes_def fp_Reduce_correct)
qed

section \<open>The ring\<close>

lemma fp_neg_val: "fp_ok a \<Longrightarrow> fp_val (fp_neg a) = - fp_val a"
  by (simp add: fp_neg_def fp_sub_val)

lemma fp_add_ok: "fp_ok a \<Longrightarrow> fp_ok b \<Longrightarrow> fp_ok (fp_add a b)"
  by (rule fp_ok_mod [OF fp_add_correct])

lemma fp_sub_ok: "fp_ok a \<Longrightarrow> fp_ok b \<Longrightarrow> fp_ok (fp_sub a b)"
  by (rule fp_ok_mod [OF fp_sub_correct])

text \<open>C38: on reduced operands the addition, subtraction, negation, multiplication and squaring of field elements compute
  the operations of the integers modulo \<open>2 ^ 255 - 19\<close> and leave reduced values, on which the comparison of the limbs
  decides equality; the element read from 32 bytes is their low 255 bits, reduced.
\<close>

theorem field_operations:
  assumes "fp_ok a" "fp_ok b"
  shows "fp_val (fp_add a b) = fp_val a + fp_val b \<and> fp_val (fp_sub a b) = fp_val a - fp_val b
    \<and> fp_val (fp_neg a) = - fp_val a \<and> fp_val (fp_mul a b) = fp_val a * fp_val b \<and> fp_val (fp_Square a) = fp_val a ^ 2
    \<and> list_all fp_ok [fp_add a b, fp_sub a b, fp_neg a, fp_mul a b, fp_Square a, fp_bytes m]
    \<and> (fp_eq a b \<longleftrightarrow> fp_val a = fp_val b) \<and> fp_val (fp_bytes m) = of_int (uint m mod 2 ^ 255)"
proof -
  have "fp_val (fp_bytes m) = of_int (uint m mod 2 ^ 255)"
    unfolding fp_val_def fp_bytes_correct by (rule gf_mod)
  moreover have "fp_ok (fp_bytes m)"
    by (rule fp_ok_mod [OF fp_bytes_correct])
  ultimately show ?thesis
    using assms by (simp add: fp_add_val fp_sub_val fp_neg_val fp_mul_val fp_Square_def power2_eq_square fp_add_ok fp_sub_ok
        fp_mul_ok fp_neg_def fp_eq_iff fp_val_inject)
qed

lemma field_operations_witness:
  "fp_val (fp_sub 3 5) = fp_val 3 - fp_val 5 \<and> fp_val (fp_mul minusOne 5) = fp_val minusOne * fp_val 5"
  using field_operations [of 3 5] field_operations [of minusOne 5] by (simp add: fp_ok_def uint_minusOne)

end
