(* ===== verification/FpInverse.thy ===== *)
theory FpInverse
  imports Fp25519
begin

text \<open>
  Division, powers and square roots of \<^verbatim>\<open>src/crypto/curve25519/fp25519.cpp\<close>. \<^verbatim>\<open>Inverse\<close> is the binary extended Euclidean algorithm on
  signed 256-bit numbers; its loops would not end on a value that shares a factor with the prime, so
  they are partial functions, and what calls them passes the missing result on. They are shown to
  return, with the inverse, on every value that is coprime to the prime.
\<close>

unbundle bit_operations_syntax

section \<open>Signed arithmetic\<close>

lemma sint_small: "uint (x :: uint256) < 2 ^ 255 \<Longrightarrow> sint x = uint x"
  unfolding sint_uint by (intro signed_take_bit_int_eq_self order_trans [OF _ uint_ge_0 [of x]]) simp_all

lemma sint_HalfSigned32: "sint (HalfSigned32 n) = sint n div 2"
  by (simp add: HalfSigned32_eq sint_signed_drop_bit_eq drop_bit_Suc)

lemma sint_diff:
  assumes "- (2 ^ 255) \<le> sint a - sint b" "sint a - sint b < 2 ^ 255"
  shows "sint (a - b :: uint256) = sint a - sint b"
proof -
  have "a - b = word_of_int (sint a - sint b)"
    by simp
  then show ?thesis
    using assms by (simp only: sint_sbintrunc') (simp add: signed_take_bit_int_eq_self)
qed

lemma even_uint_sint: "even (uint (x :: uint256)) \<longleftrightarrow> even (sint x)"
  by (simp add: sint_msb)

text \<open>Reduction of a number between \<open>- p\<close> and \<open>p\<close>.\<close>

lemma ReduceSigned32_small:
  assumes "- p25519 < sint n" "sint n < p25519"
  shows "uint (ReduceSigned32 n n fp_prime) = sint n mod p25519"
proof (cases "sint n < 0")
  case True
  have m: "x mod p25519 = x + p25519" "0 \<le> x + p25519" "x + p25519 < p25519" if "- p25519 < x" "x < 0" for x :: int
  proof -
    have "x mod p25519 = (x + p25519) mod p25519"
      by (rule mod_add_self2 [symmetric])
    also have "\<dots> = x + p25519"
      using that by (intro mod_pos_pos_trivial) simp_all
    finally show "x mod p25519 = x + p25519" .
  qed (use that in simp_all)
  have "n + fp_prime = word_of_int (sint n + p25519)"
    by (simp only: of_int_add of_int_sint scast_id uint_fp_prime [symmetric] word_of_int_uint)
  moreover have "uint (word_of_int k :: uint256) = k" if "0 \<le> k" "k < p25519" for k
    using that by (simp add: uint_word_of_int)
  then have "uint (word_of_int (sint n + p25519) :: uint256) = sint n + p25519"
    using m(2,3) [OF assms(1) True] by blast
  ultimately show ?thesis
    using True m(1) [OF assms(1) True] by (simp add: ReduceSigned32_eq)
next
  case False
  then have "sint n = uint n"
    unfolding sint_neg_iff by (simp add: sint_msb)
  then show ?thesis
    using False assms(2) by (simp add: ReduceSigned32_eq uint_fp_prime)
qed

section \<open>The Euclidean algorithm\<close>

text \<open>The two inner loops: halve \<open>u\<close> while it is even, and \<open>B\<close> with it, modulo the prime.\<close>

definition half_mod :: "uint256 \<Rightarrow> uint256" where
  "half_mod B = (if IsEven B then HalfSigned32 B else fst (Sub32 (HalfSigned32 B) halfPrime))"

partial_function (option) halve_loop :: "uint256 \<Rightarrow> uint256 \<Rightarrow> (uint256 \<times> uint256) option" where
  "halve_loop u B =
    (let u' = HalfSigned32 u; B' = half_mod B
     in if IsEven u' then halve_loop u' B' else Some (u', B'))"

definition halve :: "uint256 \<Rightarrow> uint256 \<Rightarrow> (uint256 \<times> uint256) option" where
  "halve u B =
    (if IsEven u then map_option (\<lambda>(u, B). (u, ReduceSigned32 B B fp_prime)) (halve_loop u B) else Some (u, B))"

partial_function (option) Inverse_loop :: "uint256 \<Rightarrow> uint256 \<Rightarrow> uint256 \<Rightarrow> uint256 \<Rightarrow> uint256 option" where
  "Inverse_loop u v B D =
    (if IsOne32 v then Some D
     else Option.bind (halve u B) (\<lambda>(u, B).
          Option.bind (halve v D) (\<lambda>(v, D).
            if CompareSigned32 u v \<ge> 0
            then (let B' = fst (Sub32 B D) in Inverse_loop (fst (Sub32 u v)) v (ReduceSigned32 B' B' fp_prime) D)
            else (let D' = fst (Sub32 D B) in Inverse_loop u (fst (Sub32 v u)) B (ReduceSigned32 D' D' fp_prime)))))"

definition fp_Inverse :: "CFP25519 \<Rightarrow> CFP25519 option" where
  "fp_Inverse value =
    (if fp_IsZero value then Some 0
     else map_option (\<lambda>D. fp_bytes (ReduceSigned32 D D fp_prime)) (Inverse_loop fp_prime value 0 1))"

text \<open>The prime is odd, so that two can be cancelled.\<close>

lemma gf_two_cancel: "2 * x = 2 * y \<Longrightarrow> x = (y :: gf)"
proof -
  assume "2 * x = 2 * y"
  then have "of_int (2 ^ 254 - 9) * (2 * x) = of_int (2 ^ 254 - 9) * (2 * y)"
    by (rule arg_cong)
  moreover have "(of_int ((2 ^ 254 - 9) * 2) :: gf) = of_int 1"
    unfolding of_int_gf_eq by simp
  then have "of_int (2 ^ 254 - 9) * (2 * z) = z" for z :: gf
    by (simp only: mult.assoc [symmetric] of_int_mult of_int_numeral of_int_1 mult_1_left)
  ultimately show ?thesis
    by (simp only:)
qed

lemma sint_halfPrime: "sint halfPrime = 2 ^ 254 - 10"
  using sint_small [of halfPrime] by (simp add: uint_halfPrime)

lemma half_mod_sint:
  assumes "- p25519 < sint B" "sint B < p25519"
  shows "sint (half_mod B) = (if even (sint B) then sint B div 2 else (sint B - p25519) div 2)"
proof (cases "even (sint B)")
  case True
  then show ?thesis
    by (simp add: half_mod_def IsEven_iff even_uint_sint sint_HalfSigned32)
next
  case False
  have r: "- (2 ^ 255) \<le> x div 2 - (2 ^ 254 - 10)" "x div 2 - (2 ^ 254 - 10) < 2 ^ 255" "x div 2 - (2 ^ 254 - 10) = (x - p25519) div 2"
    if "- p25519 < x" "x < p25519" "odd x" for x :: int
    using that by (auto elim!: oddE)
  have "half_mod B = HalfSigned32 B - halfPrime"
    using False by (simp add: half_mod_def IsEven_iff even_uint_sint Sub32_correct)
  then have "sint (half_mod B) = sint B div 2 - (2 ^ 254 - 10)"
    using r [OF assms False] by (simp only: sint_diff sint_HalfSigned32 sint_halfPrime)
  then show ?thesis
    using False r(3) [OF assms False] by simp
qed

text \<open>A coefficient of the algorithm between two reductions, and its value in the ring.\<close>

definition coeff_ok :: "uint256 \<Rightarrow> bool" where
  "coeff_ok B \<longleftrightarrow> - p25519 < sint B \<and> sint B < p25519"

definition coeff_val :: "uint256 \<Rightarrow> gf" where
  "coeff_val B = of_int (sint B)"

lemma half_mod_correct:
  assumes "coeff_ok B"
  shows "coeff_ok (half_mod B)" "2 * coeff_val (half_mod B) = coeff_val B"
proof -
  note B = assms [unfolded coeff_ok_def, THEN conjunct1] assms [unfolded coeff_ok_def, THEN conjunct2]
  have h: "- p25519 < (if even x then x div 2 else (x - p25519) div 2)" "(if even x then x div 2 else (x - p25519) div 2) < p25519"
    "2 * (if even x then x div 2 else (x - p25519) div 2) = (if even x then x else x - p25519)"
    if "- p25519 < x" "x < p25519" for x :: int
    using that by (auto elim!: oddE evenE)
  show "coeff_ok (half_mod B)"
    unfolding coeff_ok_def half_mod_sint [OF B] using h(1,2) [OF B] by (rule conjI)
  have "2 * (of_int (sint (half_mod B)) :: gf) = of_int (2 * sint (half_mod B))"
    by simp
  also have "\<dots> = of_int (if even (sint B) then sint B else sint B - p25519)"
    unfolding half_mod_sint [OF B] h(3) [OF B] ..
  also have "\<dots> = of_int (sint B)"
    unfolding of_int_gf_eq by (cases "even (sint B)") (simp_all only: minus_mod_self2 if_True if_False)
  finally show "2 * coeff_val (half_mod B) = coeff_val B"
    unfolding coeff_val_def .
qed

lemma halve_loop_correct:
  assumes "0 < uint u" "uint u < 2 ^ 255" "even (uint u)" "coeff_ok B" "coeff_val B * n = fp_val u"
  shows "\<exists>u' B'. halve_loop u B = Some (u', B') \<and> uint u' dvd uint u \<and> 0 < uint u' \<and> uint u' < uint u
    \<and> coeff_ok B' \<and> coeff_val B' * n = fp_val u'"
  using assms
proof (induction "unat u" arbitrary: u B rule: less_induct)
  case less
  let ?u = "HalfSigned32 u" and ?B = "half_mod B"
  note h = half_mod_correct [OF less.prems(4)]
  obtain w where w: "uint u = 2 * w" "0 < w"
    using less.prems(1,3) by (auto elim!: evenE)
  have "sint ?u = w"
    using less.prems(2) w by (simp add: sint_HalfSigned32 sint_small)
  then have u: "uint ?u = w"
    using w(2) sint_neg_iff [of ?u] by (simp add: sint_msb)
  have B: "coeff_val ?B * n = fp_val ?u"
  proof (rule gf_two_cancel)
    have "2 * (coeff_val ?B * n) = coeff_val B * n"
      by (simp only: h(2) [symmetric] mult.assoc)
    also have "\<dots> = 2 * fp_val ?u"
      unfolding less.prems(5) fp_val_def u w(1) by simp
    finally show "2 * (coeff_val ?B * n) = 2 * fp_val ?u" .
  qed
  show ?case
  proof (cases "even (uint ?u)")
    case True
    have "?u < u"
      using u w by (simp add: word_less_def)
    then have "unat ?u < unat u"
      by (rule unat_mono)
    moreover have "uint ?u < 2 ^ 255" "0 < uint ?u" "uint ?u dvd uint u" "uint ?u < uint u"
      using u w less.prems(2) by simp_all
    moreover obtain u' B' where "halve_loop ?u ?B = Some (u', B')"
        "uint u' dvd uint ?u" "0 < uint u'" "uint u' < uint ?u" "coeff_ok B'" "coeff_val B' * n = fp_val u'"
      using less.hyps [OF calculation(1) calculation(3,2) True h(1) B] by blast
    ultimately show ?thesis
      using True by (subst halve_loop.simps) (auto simp: Let_def IsEven_iff intro: dvd_trans)
  next
    case False
    then show ?thesis
      using u w h B by (subst halve_loop.simps) (auto simp: Let_def IsEven_iff)
  qed
qed

lemma reduce_coeff:
  assumes "coeff_ok B"
  shows "fp_ok (ReduceSigned32 B B fp_prime)" "fp_val (ReduceSigned32 B B fp_prime) = coeff_val B"
proof -
  have r: "uint (ReduceSigned32 B B fp_prime) = sint B mod p25519"
    using assms unfolding coeff_ok_def by (intro ReduceSigned32_small) blast+
  show "fp_ok (ReduceSigned32 B B fp_prime)"
    by (rule fp_ok_mod [OF r])
  show "fp_val (ReduceSigned32 B B fp_prime) = coeff_val B"
    unfolding fp_val_def r coeff_val_def by (rule gf_mod)
qed

lemma fp_ok_sint: "fp_ok B \<Longrightarrow> sint B = uint B"
  by (intro sint_small) (simp add: fp_ok_def)

lemma coeff_fp:
  assumes "fp_ok B"
  shows "coeff_ok B" "coeff_val B = fp_val B"
proof -
  have "- p25519 < uint B"
    by (rule less_le_trans [OF _ uint_ge_0]) simp
  then show "coeff_ok B" "coeff_val B = fp_val B"
    using assms by (simp_all only: coeff_ok_def coeff_val_def fp_val_def fp_ok_sint fp_ok_def simp_thms)
qed

lemma coeff_diff:
  assumes "fp_ok B" "fp_ok D"
  shows "coeff_ok (B - D)" "coeff_val (B - D) = fp_val B - fp_val D"
proof -
  have r: "- p25519 < x - y" "x - y < p25519" if "0 \<le> x" "x < p25519" "0 \<le> y" "y < p25519" for x y :: int
    using that by simp_all
  have "sint (B - D) = uint B - uint D"
    using r [of "uint B" "uint D"] assms by (subst sint_diff) (simp_all add: fp_ok_sint [unfolded fp_ok_def] fp_ok_def)
  then show "coeff_ok (B - D)" "coeff_val (B - D) = fp_val B - fp_val D"
    using r [of "uint B" "uint D"] assms by (simp_all add: coeff_ok_def coeff_val_def fp_val_def fp_ok_def)
qed

lemma halve_correct:
  assumes "0 < uint u" "uint u < 2 ^ 255" "fp_ok B" "fp_val B * n = fp_val u"
  obtains u' B' where "halve u B = Some (u', B')" "uint u' dvd uint u" "0 < uint u'" "uint u' \<le> uint u"
    "fp_ok B'" "fp_val B' * n = fp_val u'"
proof (cases "even (uint u)")
  case True
  obtain u' B' where h: "halve_loop u B = Some (u', B')" "uint u' dvd uint u" "0 < uint u'" "uint u' < uint u"
      "coeff_ok B'" "coeff_val B' * n = fp_val u'"
    using halve_loop_correct [OF assms(1,2) True coeff_fp(1) [OF assms(3)], of n] assms(4)
    unfolding coeff_fp(2) [OF assms(3)] by blast
  show ?thesis
    by (rule that [of u' "ReduceSigned32 B' B' fp_prime"])
      (use True h reduce_coeff [OF h(5)] in \<open>simp_all add: halve_def IsEven_iff\<close>)
next
  case False
  then show ?thesis
    using assms by (intro that [of u B]) (simp_all add: halve_def IsEven_iff)
qed

text \<open>One subtraction of the main loop, for either of the two numbers.\<close>

lemma subtract_correct:
  assumes "uint v \<le> uint u" "fp_ok B" "fp_ok D" "fp_val B * n = fp_val u" "fp_val D * n = fp_val v"
  shows "uint (u - v) = uint u - uint v" "fp_ok (ReduceSigned32 (B - D) (B - D) fp_prime)"
    "fp_val (ReduceSigned32 (B - D) (B - D) fp_prime) * n = fp_val (u - v)"
proof -
  show u: "uint (u - v) = uint u - uint v"
    using assms(1) by (simp add: uint_sub_if')
  note d = coeff_diff [OF assms(2,3)]
  show "fp_ok (ReduceSigned32 (B - D) (B - D) fp_prime)"
    by (rule reduce_coeff [OF d(1)])
  show "fp_val (ReduceSigned32 (B - D) (B - D) fp_prime) * n = fp_val (u - v)"
    unfolding reduce_coeff(2) [OF d(1)] d(2) left_diff_distrib assms(4,5) by (simp only: fp_val_def u of_int_diff)
qed

lemma Inverse_loop_correct:
  assumes "uint u < 2 ^ 255" "0 < uint v" "uint v < 2 ^ 255" "fp_ok B" "fp_ok D"
    and "fp_val B * n = fp_val u" "fp_val D * n = fp_val v" "coprime (uint u) (uint v)"
  shows "\<exists>D'. Inverse_loop u v B D = Some D' \<and> fp_ok D' \<and> fp_val D' * n = 1"
  using assms
proof (induction "unat u + unat v" arbitrary: u v B D rule: less_induct)
  case less
  show ?case
  proof (cases "v = 1")
    case True
    with less.prems show ?thesis
      by (subst Inverse_loop.simps) (simp add: IsOne32_iff)
  next
    case False
    have "0 < uint u"
      using less.prems(2,8) False by (cases "uint u = 0") (auto simp: word_uint_eq_iff order_less_le)
    obtain u1 B1 where u1: "halve u B = Some (u1, B1)" "uint u1 dvd uint u" "0 < uint u1" "uint u1 \<le> uint u"
        "fp_ok B1" "fp_val B1 * n = fp_val u1"
      by (rule halve_correct [OF \<open>0 < uint u\<close> less.prems(1,4,6)])
    obtain v1 D1 where v1: "halve v D = Some (v1, D1)" "uint v1 dvd uint v" "0 < uint v1" "uint v1 \<le> uint v"
        "fp_ok D1" "fp_val D1 * n = fp_val v1"
      by (rule halve_correct [OF less.prems(2,3,5,7)])
    have co: "coprime (uint u1) (uint v1)"
      using less.prems(8) u1(2) v1(2) by (rule coprime_divisors [rotated 2])
    have b: "uint u1 < 2 ^ 255" "uint v1 < 2 ^ 255"
      using u1(4) v1(4) less.prems(1,3) by simp_all
    have le: "CompareSigned32 u1 v1 \<ge> 0 \<longleftrightarrow> uint v1 \<le> uint u1"
      by (simp add: CompareSigned32_correct sint_small [OF b(1)] sint_small [OF b(2)])
    show ?thesis
    proof (cases "uint v1 \<le> uint u1")
      case True
      note s = subtract_correct [OF True u1(5) v1(5) u1(6) v1(6)]
      have "unat (u1 - v1) + unat v1 < unat u + unat v"
        using u1(3,4) v1(3,4) s(1) by (simp add: unat_eq_nat_uint nat_add_distrib [symmetric] del: nat_uint_eq)
      moreover have "coprime (uint (u1 - v1)) (uint v1)"
        using co unfolding s(1) by (simp add: coprime_iff_gcd_eq_1 gcd_diff1)
      ultimately have "\<exists>D'. Inverse_loop (u1 - v1) v1 (ReduceSigned32 (B1 - D1) (B1 - D1) fp_prime) D1 = Some D' \<and> fp_ok D' \<and> fp_val D' * n = 1"
        using s b v1(3,5,6) by (intro less.hyps) simp_all
      then show ?thesis
        using True False u1(1) v1(1) le by (subst Inverse_loop.simps) (simp add: IsOne32_iff Sub32_correct Let_def)
    next
      case gt: False
      then have "uint u1 \<le> uint v1" "0 < uint v1 - uint u1"
        by simp_all
      note s = subtract_correct [OF this(1) v1(5) u1(5) v1(6) u1(6)]
      have "unat u1 + unat (v1 - u1) < unat u + unat v"
        using u1(3,4) v1(3,4) s(1) by (simp add: unat_eq_nat_uint nat_add_distrib [symmetric] del: nat_uint_eq)
      moreover have "coprime (uint u1) (uint (v1 - u1))"
        using co unfolding s(1) by (simp add: coprime_iff_gcd_eq_1 gcd.commute [of "uint u1"] gcd_diff1)
      ultimately have "\<exists>D'. Inverse_loop u1 (v1 - u1) B1 (ReduceSigned32 (D1 - B1) (D1 - B1) fp_prime) = Some D' \<and> fp_ok D' \<and> fp_val D' * n = 1"
        using s b u1(3,5,6) \<open>0 < uint v1 - uint u1\<close> by (intro less.hyps) simp_all
      then show ?thesis
        using gt False u1(1) v1(1) le by (subst Inverse_loop.simps) (simp add: IsOne32_iff Sub32_correct Let_def)
    qed
  qed
qed

lemma fp_Inverse_correct:
  assumes "fp_ok a" "coprime (uint a) p25519"
  obtains b where "fp_Inverse a = Some b" "fp_ok b" "fp_val b * fp_val a = 1"
proof -
  have "uint a \<noteq> 0"
    using assms(2) by auto
  then have a: "0 < uint a" "uint a < 2 ^ 255" "a \<noteq> 0"
    using assms(1) uint_ge_0 [of a] by (auto simp: fp_ok_def order_less_le simp del: uint_ge_0)
  have p: "fp_val 0 * fp_val a = fp_val fp_prime"
    using of_int_gf_eq [of 0 p25519] by (simp add: fp_val_def uint_fp_prime)
  obtain D where D: "Inverse_loop fp_prime a 0 1 = Some D" "fp_ok D" "fp_val D * fp_val a = 1"
    using Inverse_loop_correct [of fp_prime a 0 1 "fp_val a"] a p assms(2) by (auto simp: uint_fp_prime coprime_commute)
  have "uint (fp_bytes (ReduceSigned32 D D fp_prime)) = uint D"
    using D(2) unfolding fp_bytes_correct ReduceSigned32_eq fp_ok_sint [OF D(2)] by (simp add: fp_ok_def uint_fp_prime)
  then have "fp_bytes (ReduceSigned32 D D fp_prime) = D"
    by (rule word_uint_eqI)
  then show ?thesis
    using D a(3) by (intro that [of D]) (simp_all add: fp_Inverse_def fp_IsZero_def IsZero32_iff)
qed

definition fp_div :: "CFP25519 \<Rightarrow> CFP25519 \<Rightarrow> CFP25519 option" where
  "fp_div a b = map_option (fp_mul a) (fp_Inverse b)"

section \<open>Powers\<close>

text \<open>The table of the first sixteen powers, and one byte of the exponent, most significant first.\<close>

definition pow_entry :: "CFP25519 \<Rightarrow> nat \<Rightarrow> CFP25519 list \<Rightarrow> CFP25519 list" where
  "pow_entry x i pre =
    (let pre = pre[i := fp_Square (pre ! (i div 2))] in pre[i + 1 := fp_mul (pre ! i) x])"

definition pow_table :: "CFP25519 \<Rightarrow> CFP25519 list" where
  "pow_table x = fold (pow_entry x) [2, 4, 6, 8, 10, 12, 14] ((replicate 16 0)[0 := fp_u64 1, 1 := x])"

definition pow_byte :: "CFP25519 list \<Rightarrow> uint8 \<Rightarrow> CFP25519 \<Rightarrow> CFP25519" where
  "pow_byte pre b r =
    (let r = fp_Square (fp_Square (fp_Square (fp_Square r)));
         r = fp_mul r (pre ! unat (drop_bit 4 b));
         r = fp_Square (fp_Square (fp_Square (fp_Square r)))
     in fp_mul r (pre ! unat (b AND 15)))"

definition fp_Power :: "CFP25519 \<Rightarrow> uint256 \<Rightarrow> CFP25519" where
  "fp_Power x md32 = fold (pow_byte (pow_table x)) (rev (le_bytes 32 md32)) (fp_u64 1)"

definition fp_Power58 :: "CFP25519 \<Rightarrow> CFP25519 option" where
  "fp_Power58 value =
    (let g = fp_Square (fp_bytes value);
         g3 = fp_mul value g;
         g = (fp_Square ^^ 251) g
     in map_option (fp_mul g) (fp_Inverse g3))"

definition sqrt_minus1 :: uint256 where
  "sqrt_minus1 = le_word
    [0xb0, 0xa0, 0x0e, 0x4a, 0x27, 0x1b, 0xee, 0xc4, 0x78, 0xe4, 0x2f, 0xad, 0x06, 0x18, 0x43, 0x2f,
     0xa7, 0xd7, 0xfb, 0x3d, 0x99, 0x00, 0x4d, 0x2b, 0x0b, 0xdf, 0xc1, 0x4f, 0x80, 0x24, 0x83, 0x2b]"

definition fp_Sqrt :: "CFP25519 \<Rightarrow> CFP25519 option" where
  "fp_Sqrt value =
    (if \<not> fp_IsZero value
     then Option.bind (fp_Power58 value) (\<lambda>z58.
       let z38 = fp_mul z58 value;
           z14 = fp_mul z58 z38
       in if IsOne32 z14 then Some z38
          else if Compare32 z14 minusOne = 0 then Some (fp_mul z38 (fp_bytes sqrt_minus1))
          else Some 0)
     else Some 0)"

lemma fp_Square_val [simp]: "fp_val (fp_Square a) = fp_val a ^ 2"
  by (simp add: fp_Square_def fp_mul_val power2_eq_square)

lemma pow_entry_correct:
  assumes "length pre = 16" "\<forall>j<i. fp_val (pre ! j) = fp_val x ^ j" "i = 2 * k" "0 < k" "k < 8"
  shows "length (pow_entry x i pre) = 16" "\<forall>j<i + 2. fp_val (pow_entry x i pre ! j) = fp_val x ^ j"
proof -
  show "length (pow_entry x i pre) = 16"
    using assms(1) by (simp add: pow_entry_def Let_def)
  have sq: "fp_val (fp_Square (pre ! (i div 2))) = fp_val x ^ i"
    using assms by (simp add: power_mult [symmetric] mult.commute)
  show "\<forall>j<i + 2. fp_val (pow_entry x i pre ! j) = fp_val x ^ j"
  proof (intro allI impI)
    fix j
    assume "j < i + 2"
    then consider "j < i" | "j = i" | "j = i + 1"
      by linarith
    then show "fp_val (pow_entry x i pre ! j) = fp_val x ^ j"
      using assms sq by cases (simp_all add: pow_entry_def Let_def nth_list_update fp_mul_val mult.commute)
  qed
qed

lemma pow_table_correct:
  assumes "j < 16"
  shows "fp_val (pow_table x ! j) = fp_val x ^ j"
proof -
  define P where "P i pre \<longleftrightarrow> length pre = 16 \<and> (\<forall>j<i. fp_val (pre ! j) = fp_val x ^ j)" for i and pre :: "CFP25519 list"
  have step: "P (2 * k + 2) (pow_entry x (2 * k) pre)" if "P (2 * k) pre" "0 < k" "k < 8" for k pre
    using pow_entry_correct [of pre "2 * k" x k] that unfolding P_def by simp
  have "P 2 ((replicate 16 0)[0 := fp_u64 1, 1 := x])"
    by (auto simp: P_def fp_u64_def less_2_cases_iff)
  then have "P 16 (pow_table x)"
    using step [of 1] step [of 2] step [of 3] step [of 4] step [of 5] step [of 6] step [of 7] by (simp add: pow_table_def)
  with assms show ?thesis
    by (simp add: P_def)
qed

lemma pow_byte_correct:
  assumes "\<forall>j<16. fp_val (pre ! j) = x ^ j"
  shows "fp_val (pow_byte pre b r) = fp_val r ^ 256 * x ^ unat b"
proof -
  have "b AND 15 = take_bit 4 b"
    using take_bit_eq_mask [of 4 b] by (simp add: mask_eq_exp_minus_1)
  then have b: "unat (drop_bit 4 b) = unat b div 16" "unat (b AND 15) = unat b mod 16"
    by (simp_all add: unat_drop_bit_eq unsigned_take_bit_eq drop_bit_eq_div take_bit_eq_mod unat_div unat_mod)
  have "unat b < 256"
    using unsigned_less [of b, where 'a = nat] by simp
  then have "unat b div 16 < 16"
    by simp
  then have "fp_val (pow_byte pre b r) = (fp_val r ^ 16 * x ^ (unat b div 16)) ^ 16 * x ^ (unat b mod 16)"
    using assms by (simp add: pow_byte_def Let_def fp_mul_val b power_mult [symmetric])
  also have "\<dots> = fp_val r ^ 256 * x ^ (unat b div 16 * 16 + unat b mod 16)"
    unfolding power_add by (simp add: power_mult_distrib power_mult [symmetric] mult.assoc)
  finally show ?thesis
    unfolding div_mult_mod_eq .
qed

lemma of_limbs_le_word: "of_limbs bs = (le_word bs :: 'a::len word)" for bs :: bytes
  by (induction bs) simp_all

lemma limbs_val_le_bytes: "limbs_val (le_bytes 32 m) = uint (m :: uint256)"
  using uint_limbs [of "le_bytes 32 m", where 'a = 256] by (simp add: of_limbs_le_word le_word_le_bytes)

lemma fp_Power_correct: "fp_val (fp_Power x e) = fp_val x ^ unat e"
proof -
  let ?f = "pow_byte (pow_table x)"
  have "fp_val (foldr ?f bs (fp_u64 1)) = fp_val x ^ nat (limbs_val bs)" for bs
  proof (induction bs)
    case (Cons b bs)
    have "fp_val (?f b (foldr ?f bs (fp_u64 1))) = (fp_val x ^ nat (limbs_val bs)) ^ 256 * fp_val x ^ unat b"
      unfolding Cons [symmetric] by (intro pow_byte_correct allI impI pow_table_correct)
    also have "\<dots> = fp_val x ^ (unat b + 256 * nat (limbs_val bs))"
      by (simp add: power_mult [symmetric] power_add mult.commute)
    also have "unat b + 256 * nat (limbs_val bs) = nat (limbs_val (b # bs))"
      using limbs_val_bounds [of bs] by (simp add: nat_add_distrib nat_mult_distrib)
    finally show ?case
      by simp
  qed (simp add: fp_u64_def)
  from this [of "le_bytes 32 e"] show ?thesis
    unfolding fp_Power_def limbs_val_le_bytes by (simp add: foldr_conv_fold)
qed

section \<open>Square roots\<close>

lemma fp_bytes_val: "fp_ok m \<Longrightarrow> fp_bytes m = m"
  by (rule word_uint_eqI) (simp add: fp_bytes_correct fp_ok_def)

lemma coprime_fp_mul: "coprime (uint a) p25519 \<Longrightarrow> coprime (uint b) p25519 \<Longrightarrow> coprime (uint (fp_mul a b)) p25519"
  by (simp only: fp_mul_correct coprime_mod_left_iff coprime_mult_left_iff) simp

lemma sqrt_minus1_square: "fp_val (fp_bytes sqrt_minus1) ^ 2 = - 1"
proof -
  have "uint sqrt_minus1 = 19681161376707505956807079304988542015446066515923890162744021073123829784752"
    unfolding sqrt_minus1_def of_limbs_le_word [symmetric] by (subst uint_limbs) simp_all
  then have "uint (fp_bytes sqrt_minus1) = 19681161376707505956807079304988542015446066515923890162744021073123829784752"
    by (simp add: fp_bytes_correct)
  moreover have "(19681161376707505956807079304988542015446066515923890162744021073123829784752 :: int) ^ 2 =
      - 1 + 6690407189080634018507799843845558368979872843924222843531373839242004886245 * p25519"
    by simp
  then have "(of_int (19681161376707505956807079304988542015446066515923890162744021073123829784752 ^ 2) :: gf) = of_int (- 1)"
    unfolding of_int_gf_eq by (simp only: mod_mult_self1)
  ultimately show ?thesis
    by (simp only: fp_val_def of_int_power [symmetric] of_int_minus of_int_1)
qed

lemma unit_cancel:
  fixes x y z i :: gf
  assumes "i * x = 1" "y * x ^ n = z * x ^ n"
  shows "y = z"
proof -
  have "w * x ^ n * i ^ n = w" for w
    using assms(1) by (simp add: mult.assoc power_mult_distrib [symmetric] mult.commute [of x])
  then show ?thesis
    using assms(2) by metis
qed

lemma fp_Power58_correct:
  assumes "fp_ok a" "coprime (uint a) p25519"
  obtains z where "fp_Power58 a = Some z" "fp_ok z" "fp_val z = fp_val a ^ (2 ^ 252 - 3)"
proof -
  have pow: "fp_val ((fp_Square ^^ n) g) = fp_val g ^ 2 ^ n" for n g
    by (induction n) (simp_all add: power_mult [symmetric] mult.commute)
  let ?g3 = "fp_mul a (fp_Square a)" and ?g = "(fp_Square ^^ 251) (fp_Square a)"
  have "coprime (uint ?g3) p25519"
    unfolding fp_Square_def by (intro coprime_fp_mul assms(2))
  then obtain i where i: "fp_Inverse ?g3 = Some i" "fp_ok i" "fp_val i * fp_val ?g3 = 1"
    by (rule fp_Inverse_correct [OF fp_mul_ok])
  obtain j where j: "fp_val j * fp_val a = 1"
    by (rule fp_Inverse_correct [OF assms])
  have g3: "fp_val ?g3 = fp_val a ^ 3"
    by (simp add: fp_mul_val power3_eq_cube power2_eq_square)
  show ?thesis
  proof (rule that)
    show "fp_Power58 a = Some (fp_mul ?g i)"
      by (simp add: fp_Power58_def Let_def i(1) fp_bytes_val [OF assms(1)])
    have "fp_val (fp_mul ?g i) * fp_val a ^ 3 = (fp_val a ^ 2) ^ 2 ^ 251 * (fp_val i * fp_val a ^ 3)"
      unfolding fp_mul_val pow fp_Square_val by (rule mult.assoc)
    also have "\<dots> = fp_val a ^ (2 ^ 252 - 3 + 3)"
      unfolding i(3) [unfolded g3] power_mult [symmetric] mult_1_right by (rule arg_cong [where f = "\<lambda>k. fp_val a ^ k"]) simp
    finally show "fp_val (fp_mul ?g i) = fp_val a ^ (2 ^ 252 - 3)"
      unfolding power_add by (rule unit_cancel [OF j])
  qed (rule fp_mul_ok)
qed

lemma fp_val_minusOne: "fp_val minusOne = - 1"
proof -
  have "(of_int (2 ^ 255 - 20) :: gf) = of_int (- 1)"
    unfolding of_int_gf_eq by simp
  then show ?thesis
    unfolding fp_val_def uint_minusOne by (simp only: of_int_minus of_int_1)
qed

text \<open>
  The root is found exactly for the values whose power \<open>(p - 1) / 4\<close> is one or minus one, which for a prime
  are the squares.
\<close>

lemma fp_Sqrt_correct:
  assumes "fp_ok a" "coprime (uint a) p25519"
  obtains r where "fp_Sqrt a = Some r" "fp_ok r"
    "if fp_val a ^ (2 ^ 253 - 5) \<in> {1, - 1} then fp_val r ^ 2 = fp_val a else r = 0"
proof -
  obtain z where z: "fp_Power58 a = Some z" "fp_ok z" "fp_val z = fp_val a ^ (2 ^ 252 - 3)"
    by (rule fp_Power58_correct [OF assms])
  let ?z38 = "fp_mul z a" and ?z14 = "fp_mul z (fp_mul z a)"
  let ?r = "if ?z14 = 1 then ?z38 else if ?z14 = minusOne then fp_mul ?z38 (fp_bytes sqrt_minus1) else 0"
  have "a \<noteq> 0"
    using assms(2) by auto
  then have s: "fp_Sqrt a = Some ?r"
    by (simp add: fp_Sqrt_def z(1) Let_def fp_IsZero_def IsZero32_iff IsOne32_iff fp_eq_iff [unfolded fp_eq_def])
  have "fp_val ?z14 = fp_val a ^ (2 ^ 252 - 3 + (2 ^ 252 - 3 + 1))"
    unfolding fp_mul_val z(3) power_add power_one_right ..
  then have w: "fp_val ?z14 = fp_val a ^ (2 ^ 253 - 5)"
    by simp
  have one: "?z14 = 1 \<longleftrightarrow> fp_val ?z14 = 1" "?z14 = minusOne \<longleftrightarrow> fp_val ?z14 = - 1"
    using fp_val_inject [OF fp_mul_ok, of 1] fp_val_inject [OF fp_mul_ok, of minusOne]
    by (simp_all add: fp_val_minusOne fp_ok_def uint_minusOne)
  have sq: "fp_val ?z38 ^ 2 = fp_val ?z14 * fp_val a"
    by (simp add: fp_mul_val power2_eq_square ac_simps)
  have "fp_val (fp_mul ?z38 (fp_bytes sqrt_minus1)) ^ 2 = fp_val ?z38 ^ 2 * fp_val (fp_bytes sqrt_minus1) ^ 2"
    by (simp only: fp_mul_val power_mult_distrib)
  then have m: "fp_val ?z14 = - 1 \<Longrightarrow> fp_val (fp_mul ?z38 (fp_bytes sqrt_minus1)) ^ 2 = fp_val a"
    unfolding sqrt_minus1_square sq by simp
  have "if fp_val ?z14 \<in> {1, - 1} then fp_val ?r ^ 2 = fp_val a else ?r = 0"
    using sq m unfolding one by auto
  then show ?thesis
    using that [OF s] unfolding w by (simp add: fp_mul_ok)
qed

section \<open>Canonical texts\<close>

lemma over_limbs:
  fixes a0 a1 a2 a3 :: int
  assumes "0 \<le> a0" "a0 < 2 ^ 64" "0 \<le> a1" "a1 < 2 ^ 64" "0 \<le> a2" "a2 < 2 ^ 64" "0 \<le> a3"
    and "p25519 \<le> a0 + 2 ^ 64 * a1 + 2 ^ 128 * a2 + 2 ^ 192 * a3" "a0 + 2 ^ 64 * a1 + 2 ^ 128 * a2 + 2 ^ 192 * a3 < 2 ^ 255"
  shows "a3 = 2 ^ 63 - 1 \<and> a2 = 2 ^ 64 - 1 \<and> a1 = 2 ^ 64 - 1 \<and> 2 ^ 64 - 19 \<le> a0"
proof -
  have a3: "a3 = 2 ^ 63 - 1"
    using assms by simp
  have a2: "a2 = 2 ^ 64 - 1"
    using assms unfolding a3 by simp
  have a1: "a1 = 2 ^ 64 - 1"
    using assms unfolding a3 a2 by simp
  show ?thesis
    using assms unfolding a3 a2 a1 by simp
qed

lemma fp_over_iff:
  "(limb64 v 3 = 0x7FFFFFFFFFFFFFFF \<and> limb64 v 2 = 0xFFFFFFFFFFFFFFFF \<and> limb64 v 1 = 0xFFFFFFFFFFFFFFFF
      \<and> limb64 v 0 \<ge> 0xFFFFFFFFFFFFFFED) \<longleftrightarrow> p25519 \<le> uint (v :: uint256) \<and> uint v < 2 ^ 255" (is "?over \<longleftrightarrow> _")
proof
  assume o: ?over
  then have "2 ^ 64 - 19 \<le> uint (limb64 v 0)" "uint (limb64 v 0) < 2 ^ 64"
    using uint_bounded [of "limb64 v 0"] by (simp_all add: word_le_def)
  with o show "p25519 \<le> uint v \<and> uint v < 2 ^ 255"
    unfolding word256_limbs64 [of v] by simp
next
  assume "p25519 \<le> uint v \<and> uint v < 2 ^ 255"
  then show ?over
    using over_limbs [of "uint (limb64 v 0)" "uint (limb64 v 1)" "uint (limb64 v 2)" "uint (limb64 v 3)"]
      uint_bounded [of "limb64 v 0"] uint_bounded [of "limb64 v 1"] uint_bounded [of "limb64 v 2"]
    unfolding word256_limbs64 [of v] word_uint_eq_iff word_le_def by simp
qed

lemma fp_Pack_correct:
  assumes "uint v < 2 ^ 255"
  shows "uint (fp_Pack v) = uint v mod p25519"
proof (cases "p25519 \<le> uint v")
  case True
  with assms have o: "limb64 v 3 = 0x7FFFFFFFFFFFFFFF" "limb64 v 2 = 0xFFFFFFFFFFFFFFFF" "limb64 v 1 = 0xFFFFFFFFFFFFFFFF"
      "limb64 v 0 \<ge> 0xFFFFFFFFFFFFFFED"
    using fp_over_iff [of v] by simp_all
  have "uint (limb64 v 0 - 0xFFFFFFFFFFFFFFED) = uint (limb64 v 0) - 0xFFFFFFFFFFFFFFED"
    using o(4) by (simp add: uint_sub_if' word_le_def)
  moreover have "uint v = uint (limb64 v 0) + (2 ^ 255 - 2 ^ 64)"
    unfolding word256_limbs64 [of v] using o(1-3) by simp
  moreover have "uint (fp_Pack v) = uint (limb64 v 0 - 0xFFFFFFFFFFFFFFED)"
    unfolding fp_Pack_def using o by (simp add: uint_up_ucast is_up)
  moreover have "uint v mod p25519 = (uint v - p25519) mod p25519"
    by (rule minus_mod_self2 [symmetric])
  moreover have "(uint v - p25519) mod p25519 = uint v - p25519"
    using True assms by (intro mod_pos_pos_trivial) simp_all
  ultimately show ?thesis
    by simp
next
  case False
  then have "fp_Pack v = v"
    unfolding fp_Pack_def fp_over_iff by simp
  then show ?thesis
    using False by (simp add: mod_pos_pos_trivial)
qed

lemma limbs_fp_prime:
  "limb64 fp_prime 3 = 0x7FFFFFFFFFFFFFFF" "limb64 fp_prime 2 = 0xFFFFFFFFFFFFFFFF" "limb64 fp_prime 1 = 0xFFFFFFFFFFFFFFFF"
  "limb64 fp_prime 0 = 0xFFFFFFFFFFFFFFED"
  by (rule word_uint_eqI; simp add: uint_limb64 uint_fp_prime)+

lemma fp_Parity_correct:
  assumes "uint v < 2 ^ 255"
  shows "fp_Parity v = of_bool (odd (uint v mod p25519))"
proof -
  have e: "uint v mod p25519 = (if p25519 \<le> uint v then uint v - p25519 else uint v)"
  proof (cases "p25519 \<le> uint v")
    case True
    have "uint v mod p25519 = (uint v - p25519) mod p25519"
      by (rule minus_mod_self2 [symmetric])
    also have "\<dots> = uint v - p25519"
      using True assms by (intro mod_pos_pos_trivial) simp_all
    finally show ?thesis
      using True by simp
  qed (simp add: mod_pos_pos_trivial)
  have low: "(ucast w :: uint8) AND 1 = of_bool (bit w 0)" for w :: uint64
    unfolding and_one_eq mod_2_eq_odd bit_0 [symmetric] bit_ucast_iff by simp
  have "fp_Parity v = of_bool (bit (limb64 v 0 XOR of_bool (p25519 \<le> uint v \<and> uint v < 2 ^ 255)) 0)"
    unfolding fp_Parity_def limbs_fp_prime fp_over_iff Let_def low ..
  also have "bit (limb64 v 0 XOR of_bool (p25519 \<le> uint v \<and> uint v < 2 ^ 255)) 0 = (odd (uint v) \<noteq> (p25519 \<le> uint v))"
  proof -
    have "odd (uint v) = bit v 0"
      unfolding bit_0 [symmetric] bit_uint_iff by simp
    moreover have "bit (limb64 v 0) 0 = bit v 0"
      unfolding limb64_def bit_ucast_iff by simp
    moreover have "bit (of_bool b :: uint64) 0 = b" for b
      by simp
    ultimately show ?thesis
      using assms unfolding bit_xor_iff by (simp only: simp_thms)
  qed
  also have "\<dots> = odd (uint v mod p25519)"
    unfolding e by simp
  finally show ?thesis .
qed

section \<open>Properties\<close>

text \<open>C39: the loops of the binary extended Euclidean algorithm end on every reduced value that is coprime to the modulus
  and return its inverse, so that division is the inverse of multiplication; zero is sent to zero.
\<close>

theorem field_division:
  assumes "fp_ok a" "coprime (uint a) p25519"
  shows "(\<exists>i. fp_Inverse a = Some i \<and> fp_ok i \<and> fp_val i * fp_val a = 1)
    \<and> (\<exists>q. fp_div b a = Some q \<and> fp_ok q \<and> fp_val q * fp_val a = fp_val b) \<and> fp_Inverse 0 = Some 0"
proof -
  obtain i where i: "fp_Inverse a = Some i" "fp_ok i" "fp_val i * fp_val a = 1"
    by (rule fp_Inverse_correct [OF assms])
  then have "fp_div b a = Some (fp_mul b i)" "fp_val (fp_mul b i) * fp_val a = fp_val b"
    by (simp_all add: fp_div_def fp_mul_val mult.assoc)
  moreover have "fp_Inverse 0 = Some 0"
    by (simp add: fp_Inverse_def fp_IsZero_def IsZero32_iff)
  ultimately show ?thesis
    using i fp_mul_ok by blast
qed

lemma field_division_witness: "\<exists>q. fp_div 7 2 = Some q \<and> fp_ok q \<and> fp_val q * fp_val 2 = fp_val 7"
  using field_division [of 2 7] by (simp add: fp_ok_def)

text \<open>C40: the windowed power is the power, on every base and exponent; the square root of a reduced value coprime to the
  modulus is computed without getting stuck, it squares back to the value whenever the value's power \<open>(p - 1) / 4\<close> is one or
  minus one, and is zero otherwise.
\<close>

theorem field_power_root:
  assumes "fp_ok a" "coprime (uint a) p25519"
  shows "fp_val (fp_Power x e) = fp_val x ^ unat e
    \<and> (\<exists>r. fp_Sqrt a = Some r \<and> fp_ok r
        \<and> (if fp_val a ^ ((2 ^ 255 - 20) div 4) \<in> {1, - 1} then fp_val r ^ 2 = fp_val a else r = 0))"
proof -
  have "(2 ^ 255 - 20) div 4 = (2 ^ 253 - 5 :: nat)"
    by simp
  moreover obtain r where "fp_Sqrt a = Some r" "fp_ok r"
      "if fp_val a ^ (2 ^ 253 - 5) \<in> {1, - 1} then fp_val r ^ 2 = fp_val a else r = 0"
    by (rule fp_Sqrt_correct [OF assms])
  ultimately show ?thesis
    unfolding fp_Power_correct by metis
qed

lemma field_power_root_witness: "fp_val (fp_Power 3 10) = fp_val 3 ^ unat (10 :: uint256) \<and> (\<exists>r. fp_Sqrt 2 = Some r \<and> fp_ok r)"
  using field_power_root [of 2 3 10] by (auto simp: fp_ok_def)

end
