(* ===== verification/Spec2Isabelle.thy ===== *)
theory Spec2Isabelle
  imports ScheduleCache TemplateSig FpInverse
begin

text \<open>
  A verification library for the BigBang node, \<^verbatim>\<open>src/src\<close> of the repository: the data the node exchanges and stores, the
  addresses that hold coins and the conditions under which they are spent, the scheduler that fetches
  blocks and transactions from peers, and the arithmetic below them.

  \<^bold>\<open>The program.\<close> Numbers and hashes are \<^verbatim>\<open>uint256\<close> (\<^verbatim>\<open>crypto/uint256.h\<close>); keys and template ids are shown to users as Base32
  text with a checksum (\<^verbatim>\<open>crypto/base32.cpp\<close>, \<^verbatim>\<open>crypto/crc24q.cpp\<close>). A destination (\<^verbatim>\<open>common/destination.cpp\<close>) is a public key
  or the id of a template; a template (\<^verbatim>\<open>common/template\<close>) is a typed list of parameters whose hash is the id, and
  decides which signatures spend the coins of the address. Transactions and blocks (\<^verbatim>\<open>common/transaction.h\<close>,
  \<^verbatim>\<open>common/block.h\<close>, \<^verbatim>\<open>common/proof.h\<close>) are serialized by the streams of \<^verbatim>\<open>xengine/stream\<close> and travel in messages
  (\<^verbatim>\<open>network/proto.h\<close>). Peers announce them as inventories; the scheduler of a fork (\<^verbatim>\<open>bigbang/schedule.cpp\<close>) decides from
  which peer each one is requested and holds back what waits for a predecessor.

  \<^bold>\<open>The theories\<close>, in the order in which they build on each other.

  \<^item> \<open>Prelude\<close>: integer types, byte images of words, shared lemmas. \<open>StdMap\<close>: \<^verbatim>\<open>std::map\<close>, \<^verbatim>\<open>std::multimap\<close> and \<^verbatim>\<open>std::set\<close> as
    ordered lists, with the interface \<open>ordered_map\<close>.

  \<^item> \<open>UInt256\<close>, \<open>HexText\<close>: the class template \<^verbatim>\<open>base_uint\<close> as arrays of limbs, one definition per operator, shown to compute
    arithmetic modulo \<open>2 ^ BITS\<close> (interface \<open>fixed_uint\<close>, three widths) and to refine 256-bit words, which the other
    theories use; the hexadecimal texts and their round trips.

  \<^item> \<open>Crc24q\<close>, \<open>Base32\<close>, \<open>Destination\<close>: the table-driven checksum equals the bit-by-bit reference and detects every error
    within three bytes; Base32 texts are read back, a mistyped character within the alphabet is detected, a
    character outside it is not; addresses are read back from their texts.

  \<^item> \<open>Stream\<close>, \<open>DataStream\<close>: the two serializers. A saver is a function to bytes, a loader consumes a prefix or
    returns the exception. The interface \<open>codec\<close> states that saved values are loaded back; it is interpreted for
    every serializable type of the model. The unchecked read of a vector is an error value of its own.

  \<^item> \<open>Transaction\<close>, \<open>Proof\<close>, \<open>Block\<close>: records, kinds, ids, lock heights, the Merkle tree against its recursive
    specification, block hashes and heights, index entries in an explicit store with walks that terminate.

  \<^item> \<open>Protocol\<close>: message headers with checksums, inventories, endpoints and their routability.

  \<^item> \<open>Orphan\<close>, \<open>Schedule\<close>, \<open>ScheduleInv\<close>, \<open>ScheduleCache\<close>: the scheduler as state transformers, one per member function.
    \<open>ScheduleInv\<close> proves the invariant of its indexes for every operation; \<open>ScheduleCache\<close> adds the proof-of-work cache, the step
    relation of the whole scheduler and the properties of its reachable states: bounds, typing, progress, what
    remains when a peer leaves or a branch is invalidated.

  \<^item> \<open>MultiSig\<close>, \<open>Template\<close>, \<open>TemplateSig\<close>: multiple signatures collected in any order; the eleven template classes with
    validation and serialization (interface \<open>exact_codec\<close>: what is parsed serializes back to the bytes read);
    verification of transaction and block signatures through nested templates, the functions that build
    signatures and name the signers. An accepted signature opens to a valid template with the hash of the address and
    carries the signatures this template asks for; two entry points that omit the comparison with the address
    are shown to accept foreign signatures.

  \<^item> \<open>Base25519\<close>: the limb arithmetic of \<^verbatim>\<open>crypto/curve25519/base25519.cpp\<close>: sums, differences, comparisons, shifts and
    the three multiplications against the integers.

  \<^item> \<open>Fp25519\<close>, \<open>FpInverse\<close>: the field elements of \<^verbatim>\<open>crypto/curve25519/fp25519.cpp\<close>. \<open>fp_val\<close> maps an element to the integers modulo
    \<open>2 ^ 255 - 19\<close>, \<open>fp_ok\<close> says that it is reduced; the operators are homomorphic and keep elements reduced, the Euclidean
    inverse returns, powers and square roots are what they are named after. The modulus is not proved to be
    prime: what needs an inverse assumes a value coprime to it.

  \<^bold>\<open>Conventions.\<close> Machine integers are words of their width and wrap; a signed integer is the same word, read by \<open>sint\<close>. A
  \<^verbatim>\<open>std::map\<close> is an association list in key order. Exceptions are values of \<open>stream_error\<close> in the left of a sum, null
  pointers are \<open>None\<close>, reference parameters are returned. Pointers between index entries are addresses of a store.
  Enumerators and numeric constants of the source are definitions with the source's names. Code of libraries is an
  argument: BLAKE2b is \<open>H\<close> or \<open>ce_hash\<close>, Ed25519 of libsodium is \<open>ed_sign\<close>, \<open>ed_verify\<close> or \<open>ce_verify\<close>, the clock is
  \<open>nTime\<close>, memory outside a table is \<open>oob\<close>. What a property needs of them is among its hypotheses.

  \<^bold>\<open>Termination.\<close> Loops are structural recursion over the data they consume, or \<open>function\<close> with a measure: the rest of the
  signature for nested templates, the number of waiting entries for the orphan pool, the length of a level for the Merkle
  tree. The loops of the Euclidean inverse are \<open>partial_function (option)\<close> and are shown to return on coprime values. The walks along
  index entries, which would not end on a cyclic chain, are \<open>partial_function (option)\<close> and are shown to return
  on every chain of links that ends. No definition has a fuel argument.

  \<^bold>\<open>Not modelled.\<close> The block chain, the transaction pool, the core checks, wallet, consensus and miner (\<^verbatim>\<open>bigbang\<close>): their
  functions are sequences of queries to the databases of \<^verbatim>\<open>storage\<close> and of calls into other modules, so that a model would
  have the database as a parameter and little code of its own. RPC and JSON conversions: the request types are
  generated at build time. Network, HTTP, threads and timers of \<^verbatim>\<open>xengine\<close>: input and output through boost::asio. The
  proof-of-work hash: assembly. The points and scalars of the curve and the secret sharing on them (\<^verbatim>\<open>mpvss\<close>,
  \<^verbatim>\<open>delegate\<close>). The
  multiple signatures of the first 78256 blocks (\<^verbatim>\<open>CryptoMultiVerifyDefect\<close>) are the argument \<open>ce_multi_defect\<close>. LevelDB, Snappy and
  json_spirit are bundled libraries.
\<close>

end
